(* ===== verification/Prelude.thy ===== *)
theory Prelude
  imports Main "HOL-Library.Monad_Syntax" "HOL-Library.Word"
begin

text \<open>
  Shared vocabulary of the development.  It holds the library every component theory builds on:
  \<^item> the first-match scan \<open>first_index\<close>, the shape of every
    \<^verbatim>\<open>for (i...) if (cond) { ...; break; }\<close> loop over a fixed array, and its counting laws;
  \<^item> checked accesses to C buffers (\<open>buf_get\<close>, \<open>buf_put\<close>), where \<open>None\<close> stands for an access
    outside the object, that is undefined behaviour;
  \<^item> the C integer conversion \<open>to_int32\<close>;
  \<^item> reachable states of a transition system (\<open>reach\<close>) with the invariant rule as a locale;
  \<^item> counting over a finite set of processes.
\<close>

named_theorems scan_simps \<open>first-match scans over fixed arrays\<close>
named_theorems buf_simps \<open>accesses to C buffers\<close>
named_theorems range_simps \<open>C integer conversions\<close>

section \<open>First-match scans\<close>

fun first_index :: "('a \<Rightarrow> bool) \<Rightarrow> 'a list \<Rightarrow> nat option" where
  "first_index P [] = None"
| "first_index P (x # xs) = (if P x then Some 0 else map_option Suc (first_index P xs))"

lemma first_index_None [scan_simps]:
  "first_index P xs = None \<longleftrightarrow> (\<forall>x \<in> set xs. \<not> P x)"
  by (induction xs) auto

lemma first_index_Some:
  "first_index P xs = Some i \<longleftrightarrow> i < length xs \<and> P (xs ! i) \<and> (\<forall>j < i. \<not> P (xs ! j))"
proof (induction xs arbitrary: i)
  case Nil
  then show ?case by simp
next
  case (Cons x xs)
  show ?case
    by (cases i) (auto simp: Cons.IH All_less_Suc2)
qed

lemma first_index_SomeD:
  assumes "first_index P xs = Some i"
  shows "i < length xs" and "P (xs ! i)" and "j < i \<Longrightarrow> \<not> P (xs ! j)"
  using assms by (auto simp: first_index_Some)

lemma first_index_ex: "x \<in> set xs \<Longrightarrow> P x \<Longrightarrow> \<exists>i. first_index P xs = Some i"
  by (cases "first_index P xs") (auto simp: first_index_None)

lemma first_index_takeWhile:
  "first_index P xs = Some i \<Longrightarrow> takeWhile (\<lambda>x. \<not> P x) xs = take i xs"
  by (induction xs arbitrary: i) (auto split: if_splits)

section \<open>Counting in arrays and over processes\<close>

abbreviation count_if :: "('a \<Rightarrow> bool) \<Rightarrow> 'a list \<Rightarrow> nat" where
  "count_if P xs \<equiv> length (filter P xs)"

lemma count_if_update:
  "i < length xs \<Longrightarrow>
    count_if P (xs[i := y]) + of_bool (P (xs ! i)) = count_if P xs + of_bool (P y)"
proof (induction xs arbitrary: i)
  case Nil
  then show ?case by simp
next
  case (Cons x xs)
  then show ?case by (cases i) auto
qed

lemma count_if_compl: "count_if P xs + count_if (\<lambda>x. \<not> P x) xs = length xs"
  by (induction xs) auto

lemma count_if_pos: "0 < count_if P xs \<longleftrightarrow> (\<exists>x \<in> set xs. P x)"
  by (induction xs) auto

lemma count_if_zero: "count_if P xs = 0 \<longleftrightarrow> (\<forall>x \<in> set xs. \<not> P x)"
  by (simp add: filter_empty_conv)

definition procs_at :: "('p::finite \<Rightarrow> 'l \<Rightarrow> bool) \<Rightarrow> ('p \<Rightarrow> 'l) \<Rightarrow> nat" where
  "procs_at P f = card {p. P p (f p)}"

lemma procs_at_split:
  "procs_at P g = of_bool (P p (g p)) + card {q. q \<noteq> p \<and> P q (g q)}"
proof (cases "P p (g p)")
  case True
  then have "{q. P q (g q)} = insert p {q. q \<noteq> p \<and> P q (g q)}" by auto
  then show ?thesis using True by (simp add: procs_at_def)
next
  case False
  then have "{q. P q (g q)} = {q. q \<noteq> p \<and> P q (g q)}" by auto
  then show ?thesis using False by (simp add: procs_at_def)
qed

lemma procs_at_update:
  "procs_at P (f(p := l)) + of_bool (P p (f p)) = procs_at P f + of_bool (P p l)"
proof -
  have "{q. q \<noteq> p \<and> P q ((f(p := l)) q)} = {q. q \<noteq> p \<and> P q (f q)}" by auto
  then show ?thesis
    by (simp add: procs_at_split [of P f p] procs_at_split [of P "f(p := l)" p])
qed

lemma procs_at_same:
  "P p l = P p (f p) \<Longrightarrow> procs_at P (f(p := l)) = procs_at P f"
  using procs_at_update [of P f p l] by simp

lemma procs_at_ge1: "P p (f p) \<Longrightarrow> 1 \<le> procs_at P f"
  by (simp add: procs_at_split [of P f p])

lemma procs_at_ge2:
  assumes "p \<noteq> q" "P p (f p)" "P q (f q)"
  shows "2 \<le> procs_at P f"
proof -
  have "{p, q} \<subseteq> {r. P r (f r)}" using assms by auto
  then have "card {p, q} \<le> procs_at P f"
    unfolding procs_at_def by (rule card_mono [rotated]) simp
  then show ?thesis using assms(1) by simp
qed

lemma procs_at_none: "procs_at P f = 0 \<longleftrightarrow> (\<forall>p. \<not> P p (f p))"
  by (simp add: procs_at_def)

section \<open>C integers\<close>

definition INT_MAX :: int where "INT_MAX = 2147483647"
definition INT_MIN :: int where "INT_MIN = -2147483648"

text \<open>Conversion of a wider integer to \<open>int\<close>: two's complement wrap-around, as gcc defines it.\<close>

definition to_int32 :: "int \<Rightarrow> int" where
  "to_int32 x = (x + 2147483648) mod 4294967296 - 2147483648"

lemma to_int32_id [range_simps]: "INT_MIN \<le> x \<Longrightarrow> x \<le> INT_MAX \<Longrightarrow> to_int32 x = x"
  by (simp add: to_int32_def INT_MAX_def INT_MIN_def)

lemma to_int32_range: "INT_MIN \<le> to_int32 x \<and> to_int32 x \<le> INT_MAX"
proof -
  have "0 \<le> (x + 2147483648) mod 4294967296" "(x + 2147483648) mod 4294967296 < 4294967296"
    by simp_all
  then show ?thesis by (simp add: to_int32_def INT_MAX_def INT_MIN_def)
qed

section \<open>C buffers\<close>

abbreviation NUL :: char where "NUL \<equiv> CHR 0x00"

type_synonym bytes = "char list"

definition buf_get :: "'a list \<Rightarrow> int \<Rightarrow> 'a option" where
  "buf_get b i = (if 0 \<le> i \<and> i < int (length b) then Some (b ! nat i) else None)"

definition buf_put :: "'a list \<Rightarrow> int \<Rightarrow> 'a \<Rightarrow> 'a list option" where
  "buf_put b i v = (if 0 \<le> i \<and> i < int (length b) then Some (b[nat i := v]) else None)"

lemma buf_get_nat [buf_simps]: "i < length b \<Longrightarrow> buf_get b (int i) = Some (b ! i)"
  by (simp add: buf_get_def)

lemma buf_put_nat [buf_simps]: "i < length b \<Longrightarrow> buf_put b (int i) v = Some (b[i := v])"
  by (simp add: buf_put_def)

lemma buf_put_length: "buf_put b i v = Some b' \<Longrightarrow> length b' = length b"
  by (auto simp: buf_put_def split: if_splits)

text \<open>
  The C string a buffer holds: the bytes before the first NUL.  A buffer without NUL makes every
  string function run past its end, which is \<open>None\<close>.
\<close>

definition c_string :: "bytes \<Rightarrow> bytes option" where
  "c_string b = (if NUL \<in> set b then Some (takeWhile (\<lambda>c. c \<noteq> NUL) b) else None)"

definition c_strlen :: "bytes \<Rightarrow> nat option" where
  "c_strlen b = map_option length (c_string b)"

lemma c_string_append [buf_simps]: "NUL \<notin> set s \<Longrightarrow> c_string (s @ NUL # r) = Some s"
  by (simp add: c_string_def takeWhile_append)

lemma c_strlen_append [buf_simps]: "NUL \<notin> set s \<Longrightarrow> c_strlen (s @ NUL # r) = Some (length s)"
  by (simp add: c_strlen_def c_string_append)

lemma c_string_no_NUL: "c_string b = Some s \<Longrightarrow> NUL \<notin> set s"
  by (auto simp: c_string_def split: if_splits dest: set_takeWhileD)

lemma c_string_split:
  assumes "c_string b = Some s"
  shows "\<exists>r. b = s @ NUL # r"
proof -
  have b: "NUL \<in> set b" "s = takeWhile (\<lambda>c. c \<noteq> NUL) b"
    using assms by (auto simp: c_string_def split: if_splits)
  from b(1) obtain xs r where "b = xs @ NUL # r" "NUL \<notin> set xs"
    by (meson split_list_first)
  moreover from this b(2) have "s = xs" by (simp add: takeWhile_append)
  ultimately show ?thesis by blast
qed

text \<open>A buffer after its first bytes were filled, by \<^verbatim>\<open>copy_from_user\<close> or \<^verbatim>\<open>recv\<close>.\<close>

definition overwrite :: "bytes \<Rightarrow> bytes \<Rightarrow> bytes" where
  "overwrite kbuf bs = bs @ drop (length bs) kbuf"

lemma length_overwrite: "length bs \<le> length kbuf \<Longrightarrow> length (overwrite kbuf bs) = length kbuf"
  by (simp add: overwrite_def)

lemma overwrite_terminated:
  assumes "length bs < length kbuf"
  shows "\<exists>r. buf_put (overwrite kbuf bs) (int (length bs)) NUL = Some (bs @ NUL # r) \<and>
    length (bs @ NUL # r) = length kbuf"
proof -
  obtain x r where "drop (length bs) kbuf = x # r"
    using assms by (cases "drop (length bs) kbuf") auto
  moreover from this have "length kbuf - length bs = Suc (length r)"
    by (metis length_drop length_Cons)
  ultimately show ?thesis using assms
    by (simp add: overwrite_def buf_put_nat)
qed

lemma c_string_prefix: "c_string (bs @ NUL # r) = Some (takeWhile (\<lambda>c. c \<noteq> NUL) bs)"
  by (induction bs) (auto simp: c_string_def)

section \<open>Reachable states\<close>

inductive reach :: "('s \<Rightarrow> bool) \<Rightarrow> ('s \<Rightarrow> 's \<Rightarrow> bool) \<Rightarrow> 's \<Rightarrow> bool"
  for I :: "'s \<Rightarrow> bool" and T :: "'s \<Rightarrow> 's \<Rightarrow> bool" where
  reach_init: "I s \<Longrightarrow> reach I T s"
| reach_step: "reach I T s \<Longrightarrow> T s t \<Longrightarrow> reach I T t"

text \<open>
  The interface between a step relation and the safety properties drawn from it: a predicate that
  holds initially and that every step keeps.
\<close>

locale inductive_invariant =
  fixes I :: "'s \<Rightarrow> bool" and T :: "'s \<Rightarrow> 's \<Rightarrow> bool" and J :: "'s \<Rightarrow> bool"
  assumes holds_init: "I s \<Longrightarrow> J s"
    and holds_step: "T s t \<Longrightarrow> J s \<Longrightarrow> J t"
begin

lemma holds_reachable: "reach I T s \<Longrightarrow> J s"
  by (induction rule: reach.induct) (auto intro: holds_init holds_step)

end

end
