(* ===== verification/C_Library.thy ===== *)
theory C_Library
  imports Prelude
begin

text \<open>
  The parts of the C standard library the programs call, on the NUL-free strings of \<open>c_string\<close>:
  \<^verbatim>\<open>isspace\<close>, \<^verbatim>\<open>tolower\<close>, \<^verbatim>\<open>strtol\<close> in base 10, \<^verbatim>\<open>atoi\<close>, \<^verbatim>\<open>strncpy\<close>, \<^verbatim>\<open>strncasecmp\<close>,
  \<^verbatim>\<open>strstr\<close>, the \<^verbatim>\<open>%d\<close> of \<^verbatim>\<open>printf\<close> and the \<^verbatim>\<open>sscanf\<close> conversions \<^verbatim>\<open>%d\<close>, \<^verbatim>\<open>%63s\<close> and
  \<^verbatim>\<open>%[^\n]\<close>.  \<^verbatim>\<open>long\<close> has 64 bits and \<^verbatim>\<open>int\<close> 32, as on the Linux targets of the code.
\<close>

section \<open>Character classes (C locale)\<close>

definition isspace :: "char \<Rightarrow> bool" where
  "isspace c \<longleftrightarrow> c \<in> {CHR '' '', CHR 0x09, CHR 0x0A, CHR 0x0B, CHR 0x0C, CHR 0x0D}"

definition digit_val :: "char \<Rightarrow> int" where
  "digit_val c = int (of_char c) - 48"

definition isdigit :: "char \<Rightarrow> bool" where
  "isdigit c \<longleftrightarrow> 0 \<le> digit_val c \<and> digit_val c \<le> 9"

definition tolower :: "char \<Rightarrow> char" where
  "tolower c = (if 65 \<le> (of_char c :: nat) \<and> (of_char c :: nat) \<le> 90
     then char_of ((of_char c :: nat) + 32) else c)"

lemma tolower_NUL: "tolower c = NUL \<longleftrightarrow> c = NUL"
proof (cases "65 \<le> (of_char c :: nat) \<and> (of_char c :: nat) \<le> 90")
  case True
  have "(of_char (tolower c) :: nat) = of_char c + 32"
    using True by (simp add: tolower_def)
  then have "(of_char (tolower c) :: nat) \<noteq> of_char NUL" "(of_char c :: nat) \<noteq> of_char NUL"
    using True by auto
  then show ?thesis by metis
next
  case False
  then show ?thesis by (simp only: tolower_def if_False)
qed

lemma tolower_space: "isspace c \<Longrightarrow> tolower c = c"
  unfolding isspace_def insert_iff empty_iff by (elim disjE) (simp_all add: tolower_def)

lemma NUL_classes [simp]: "\<not> isspace NUL" "\<not> isdigit NUL"
  by (simp_all add: isspace_def isdigit_def digit_val_def)

lemma isdigit_not_space: "isdigit c \<Longrightarrow> \<not> isspace c"
  by (auto simp: isspace_def isdigit_def digit_val_def)

lemma isdigit_not_sign: "isdigit c \<Longrightarrow> c \<noteq> CHR ''-'' \<and> c \<noteq> CHR ''+''"
  by (auto simp: isdigit_def digit_val_def)

section \<open>Decimal numbers: printf %d and strtol\<close>

definition digit_char :: "nat \<Rightarrow> char" where
  "digit_char n = ''0123456789'' ! n"

lemma digit_val_digit_char: "n < 10 \<Longrightarrow> digit_val (digit_char n) = int n"
  by (auto simp: digit_val_def digit_char_def less_Suc_eq numeral_eq_Suc)

lemma isdigit_digit_char: "n < 10 \<Longrightarrow> isdigit (digit_char n)"
  by (simp add: isdigit_def digit_val_digit_char)

fun show_nat :: "nat \<Rightarrow> bytes" where
  "show_nat n = (if n < 10 then [digit_char n]
     else show_nat (n div 10) @ [digit_char (n mod 10)])"

declare show_nat.simps [simp del]

lemma show_nat_digit: "n < 10 \<Longrightarrow> show_nat n = [digit_char n]"
  by (simp add: show_nat.simps)

definition show_int :: "int \<Rightarrow> bytes" where
  "show_int n = (if n < 0 then CHR ''-'' # show_nat (nat (- n)) else show_nat (nat n))"

fun digits_val :: "int \<Rightarrow> bytes \<Rightarrow> int" where
  "digits_val acc [] = acc"
| "digits_val acc (c # cs) = digits_val (10 * acc + digit_val c) cs"

lemma digits_val_append: "digits_val acc (xs @ ys) = digits_val (digits_val acc xs) ys"
  by (induction xs arbitrary: acc) auto

lemma show_nat_digits: "c \<in> set (show_nat n) \<Longrightarrow> isdigit c"
proof (induction n rule: show_nat.induct)
  case (1 n)
  then show ?case
    by (auto simp: show_nat.simps [of n] isdigit_digit_char split: if_splits)
qed

lemma show_nat_nonempty [simp]: "show_nat n \<noteq> []"
  by (subst show_nat.simps) simp

lemma digits_val_show_nat: "digits_val 0 (show_nat n) = int n"
proof (induction n rule: show_nat.induct)
  case (1 n)
  show ?case
  proof (cases "n < 10")
    case True
    then show ?thesis by (simp add: show_nat.simps [of n] digit_val_digit_char)
  next
    case False
    then have "digits_val 0 (show_nat n) = 10 * int (n div 10) + int (n mod 10)"
      by (simp add: show_nat.simps [of n] digits_val_append 1 digit_val_digit_char)
    then show ?thesis by presburger
  qed
qed

definition LONG_MAX :: int where "LONG_MAX = 9223372036854775807"
definition LONG_MIN :: int where "LONG_MIN = -9223372036854775808"

definition clamp_long :: "int \<Rightarrow> int" where
  "clamp_long v = max LONG_MIN (min LONG_MAX v)"

fun sign_of :: "bytes \<Rightarrow> int \<times> bytes" where
  "sign_of [] = (1, [])"
| "sign_of (c # s) =
     (if c = CHR ''-'' then (-1, s) else if c = CHR ''+'' then (1, s) else (1, c # s))"

text \<open>
  \<open>strtol10 s\<close> is the value and the rest of the string from \<^verbatim>\<open>endptr\<close> on: the whole string when
  there is no digit.
\<close>

definition strtol10 :: "bytes \<Rightarrow> int \<times> bytes" where
  "strtol10 s = (let (sg, t) = sign_of (dropWhile isspace s); ds = takeWhile isdigit t
     in if ds = [] then (0, s) else (clamp_long (sg * digits_val 0 ds), drop (length ds) t))"

definition atoi :: "bytes \<Rightarrow> int" where
  "atoi s = to_int32 (fst (strtol10 s))"

lemma takeWhile_digits_show_nat:
  "r = [] \<or> \<not> isdigit (hd r) \<Longrightarrow> takeWhile isdigit (show_nat n @ r) = show_nat n"
  by (cases r) (auto simp: takeWhile_append takeWhile_eq_all_conv show_nat_digits)

lemma sign_of_digit: "isdigit c \<Longrightarrow> sign_of (c # s) = (1, c # s)"
  using isdigit_not_sign [of c] by simp

lemma show_nat_Cons: "\<exists>c s. show_nat n = c # s \<and> isdigit c"
  by (metis list.exhaust list.set_intros(1) show_nat_digits show_nat_nonempty)

lemma sign_of_show_int:
  "sign_of (dropWhile isspace (show_int n @ r)) = (if n < 0 then -1 else 1, show_nat (nat \<bar>n\<bar>) @ r)"
proof -
  obtain c s where cs: "show_nat (nat n) = c # s" "isdigit c"
    using show_nat_Cons by blast
  have "\<not> isspace (CHR ''-'')" by (simp add: isspace_def)
  with cs isdigit_not_sign [of c] show ?thesis
    by (auto simp: show_int_def isdigit_not_space)
qed

theorem strtol10_show_int:
  assumes "LONG_MIN \<le> n" "n \<le> LONG_MAX" "r = [] \<or> \<not> isdigit (hd r)"
  shows "strtol10 (show_int n @ r) = (n, r)"
  using assms
  by (auto simp: strtol10_def sign_of_show_int takeWhile_digits_show_nat digits_val_show_nat
      clamp_long_def)

section \<open>Copies and comparisons\<close>

text \<open>\<open>strncpy dst src n\<close> on a NUL-free source: the first \<open>n\<close> bytes, padded with NUL.\<close>

definition strncpy_field :: "nat \<Rightarrow> bytes \<Rightarrow> bytes" where
  "strncpy_field n src = take n src @ replicate (n - length src) NUL"

lemma length_strncpy_field [simp]: "length (strncpy_field n src) = n"
  by (simp add: strncpy_field_def)

lemma c_string_strncpy:
  assumes "NUL \<notin> set src" "length src < n"
  shows "c_string (strncpy_field n src) = Some src"
proof -
  obtain k where "n - length src = Suc k" using assms(2) by (cases "n - length src") auto
  then show ?thesis using assms by (simp add: strncpy_field_def c_string_append)
qed

text \<open>\<open>strncmp a b n = 0\<close> and \<open>strncasecmp a b n = 0\<close>.\<close>

definition strn_eq :: "nat \<Rightarrow> bytes \<Rightarrow> bytes \<Rightarrow> bool" where
  "strn_eq n a b \<longleftrightarrow> take n a = take n b"

definition strncase_eq :: "nat \<Rightarrow> bytes \<Rightarrow> bytes \<Rightarrow> bool" where
  "strncase_eq n a b \<longleftrightarrow> map tolower (take n a) = map tolower (take n b)"

text \<open>\<open>strstr hay needle\<close> is non-NULL.\<close>

fun contains :: "bytes \<Rightarrow> bytes \<Rightarrow> bool" where
  "contains [] w \<longleftrightarrow> w = []"
| "contains (c # s) w \<longleftrightarrow> take (length w) (c # s) = w \<or> contains s w"

lemma contains_iff: "contains s w \<longleftrightarrow> (\<exists>u v. s = u @ w @ v)"
proof (induction s)
  case Nil
  then show ?case by auto
next
  case (Cons c s)
  have "take (length w) (c # s) = w \<longleftrightarrow> (\<exists>v. c # s = w @ v)"
    by (metis append_eq_conv_conj append_take_drop_id)
  then show ?case
    unfolding contains.simps Cons.IH
    by (auto simp: append_eq_Cons_conv Cons_eq_append_conv)
qed

section \<open>sscanf conversions\<close>

text \<open>Each returns the converted value and the unread input; \<open>None\<close> is a matching failure.\<close>

definition scan_d :: "bytes \<Rightarrow> (int \<times> bytes) option" where
  "scan_d s = (let (sg, t) = sign_of (dropWhile isspace s); ds = takeWhile isdigit t
     in if ds = [] then None
        else Some (to_int32 (clamp_long (sg * digits_val 0 ds)), drop (length ds) t))"

definition scan_s :: "nat \<Rightarrow> bytes \<Rightarrow> (bytes \<times> bytes) option" where
  "scan_s w s = (let t = dropWhile isspace s; word = take w (takeWhile (\<lambda>c. \<not> isspace c) t)
     in if word = [] then None else Some (word, drop (length word) t))"

definition scan_not_nl :: "bytes \<Rightarrow> (bytes \<times> bytes) option" where
  "scan_not_nl s = (let m = takeWhile (\<lambda>c. c \<noteq> CHR 0x0A) s
     in if m = [] then None else Some (m, drop (length m) s))"

lemma scan_d_show_int:
  assumes "INT_MIN \<le> n" "n \<le> INT_MAX" "r = [] \<or> \<not> isdigit (hd r)"
  shows "scan_d (show_int n @ r) = Some (n, r)"
proof -
  have "clamp_long n = n"
    using assms(1,2) by (simp add: clamp_long_def LONG_MIN_def LONG_MAX_def INT_MIN_def INT_MAX_def)
  then show ?thesis
    using assms
    by (auto simp: scan_d_def sign_of_show_int takeWhile_digits_show_nat digits_val_show_nat
        to_int32_id)
qed

lemma scan_s_word:
  assumes "w \<noteq> []" "length w \<le> n" "\<forall>c \<in> set w. \<not> isspace c" "r = [] \<or> isspace (hd r)"
  shows "scan_s n (w @ r) = Some (w, r)"
proof -
  have "dropWhile isspace (w @ r) = w @ r"
    using assms(1,3) by (cases w) auto
  moreover have "takeWhile (\<lambda>c. \<not> isspace c) (w @ r) = w"
    using assms(3,4) by (cases r) (auto simp: takeWhile_append takeWhile_eq_all_conv)
  moreover have "0 < n" using assms(1,2) by (cases w) auto
  ultimately show ?thesis using assms(1,2) by (simp add: scan_s_def)
qed

lemma scan_not_nl_line:
  "m \<noteq> [] \<Longrightarrow> CHR 0x0A \<notin> set m \<Longrightarrow> scan_not_nl m = Some (m, [])"
proof -
  assume m: "m \<noteq> []" "CHR 0x0A \<notin> set m"
  then have t: "takeWhile (\<lambda>c. c \<noteq> CHR 0x0A) m = m" by (auto simp: takeWhile_eq_all_conv)
  show ?thesis using m(1) unfolding scan_not_nl_def Let_def t by simp
qed

section \<open>Lines of input\<close>

text \<open>\<^verbatim>\<open>fgets\<close> with a buffer of \<open>sz\<close> bytes: the bytes it stores before the NUL, and the unread input.\<close>

definition fgets :: "nat \<Rightarrow> bytes \<Rightarrow> (bytes \<times> bytes) option" where
  "fgets sz inp =
     (if inp = [] then None
      else
        let line = (case first_index (\<lambda>c. c = CHR 0x0A) inp of
              None \<Rightarrow> length inp | Some i \<Rightarrow> Suc i);
            n = min line (sz - 1)
        in Some (take n inp, drop n inp))"

text \<open>\<^verbatim>\<open>command[strcspn(command, "\n")] = 0\<close>: the string left in the buffer.\<close>

definition chomp :: "bytes \<Rightarrow> bytes" where
  "chomp buf = takeWhile (\<lambda>c. c \<noteq> NUL \<and> c \<noteq> CHR 0x0A) buf"

lemma fgets_line:
  assumes "CHR 0x0A \<notin> set l" "length l < sz - 1"
  shows "fgets sz (l @ CHR 0x0A # rest) = Some (l @ [CHR 0x0A], rest)"
proof -
  have "first_index (\<lambda>c. c = CHR 0x0A) (l @ CHR 0x0A # rest) = Some (length l)"
    using assms(1) by (induction l) auto
  then show ?thesis using assms(2) by (simp add: fgets_def min_def)
qed

lemma chomp_line: "CHR 0x0A \<notin> set l \<Longrightarrow> NUL \<notin> set l \<Longrightarrow> chomp (l @ [CHR 0x0A]) = l"
  by (induction l) (auto simp: chomp_def)

section \<open>Ports\<close>

text \<open>\<^verbatim>\<open>htons\<close> takes the low 16 bits.\<close>

definition htons_port :: "int \<Rightarrow> int" where
  "htons_port p = p mod 65536"

end
