(* ===== verification/Strutils.thy ===== *)
theory Strutils
  imports C_Library "HOL-Library.Signed_Division"
begin

text \<open>
  The string library of \<^verbatim>\<open>01-general-knowleague/src/bstrutils.c\<close> and its demo \<^verbatim>\<open>main.c\<close>.  A
  \<^verbatim>\<open>char *\<close> argument is \<open>None\<close> for NULL and otherwise the buffer it points to; the outer option of
  a result is \<open>None\<close> when the code reads or writes outside the buffer.
\<close>

section \<open>str_reverse\<close>

function reverse_loop :: "int \<Rightarrow> int \<Rightarrow> bytes \<Rightarrow> bytes option" where
  "reverse_loop i len str =
     (if i < len sdiv 2 then do {
        tmp \<leftarrow> buf_get str i;
        c \<leftarrow> buf_get str (len - 1 - i);
        str \<leftarrow> buf_put str i c;
        str \<leftarrow> buf_put str (len - 1 - i) tmp;
        reverse_loop (i + 1) len str
      } else Some str)"
  by pat_completeness auto
termination
  by (relation "measure (\<lambda>(i, len, str). nat (len sdiv 2 - i))") auto

declare reverse_loop.simps [simp del]

definition str_reverse :: "bytes option \<Rightarrow> bytes option option" where
  "str_reverse str = (case str of
     None \<Rightarrow> Some None
   | Some b \<Rightarrow> do {
       n \<leftarrow> c_strlen b;
       b' \<leftarrow> reverse_loop 0 (to_int32 (int n)) b;
       Some (Some b')
     })"

lemma reverse_loop_middle:
  assumes "length p = i" "length q = i" "n = 2 * i + length m"
  shows "reverse_loop (int i) (int n) (p @ m @ q @ t) = Some (p @ rev m @ q @ t)"
  using assms
proof (induction m arbitrary: p q i rule: measure_induct_rule [of length])
  case (less m)
  have half: "int n sdiv 2 = int n div 2" by (simp add: signed_divide_int_def sgn_if)
  show ?case
  proof (cases "length m \<le> 1")
    case True
    then have "\<not> int i < int n sdiv 2" using less.prems(3) unfolding half by linarith
    moreover have "rev m = m" using True by (cases m) auto
    ultimately show ?thesis by (subst reverse_loop.simps) simp
  next
    case False
    then obtain x m1 where "m = x # m1" "m1 \<noteq> []" by (cases m) auto
    then obtain m' y where m: "m = x # m' @ [y]" by (metis rev_exhaust)
    let ?b = "p @ (x # m' @ [y]) @ q @ t"
    have guard: "int i < int n sdiv 2" using less.prems(3) m unfolding half by simp
    have j: "int n - 1 - int i = int (i + Suc (length m'))"
      using less.prems(3) m by simp
    have g1: "buf_get ?b (int i) = Some x"
      using less.prems(1) by (simp add: buf_get_nat nth_append)
    have g2: "buf_get ?b (int (i + Suc (length m'))) = Some y"
      using less.prems(1) by (subst buf_get_nat) (simp_all add: nth_append)
    have p1: "buf_put ?b (int i) y = Some (p @ (y # m' @ [y]) @ q @ t)"
      using less.prems(1) by (subst buf_put_nat) (simp_all add: list_update_append)
    have p2: "buf_put (p @ (y # m' @ [y]) @ q @ t) (int (i + Suc (length m'))) x
        = Some (p @ (y # m' @ [x]) @ q @ t)"
      using less.prems(1) by (subst buf_put_nat) (simp_all add: list_update_append)
    have rec: "reverse_loop (int (Suc i)) (int n) ((p @ [y]) @ m' @ (x # q) @ t)
        = Some ((p @ [y]) @ rev m' @ (x # q) @ t)"
      by (rule less.IH) (use less.prems m in auto)
    show ?thesis
      unfolding m
      by (subst reverse_loop.simps)
        (use rec in \<open>simp only: guard j g1 g2 p1 p2 bind.bind_lunit if_True, simp add: add.commute\<close>)
  qed
qed

section \<open>str_trim\<close>

function skip_start :: "bytes \<Rightarrow> int \<Rightarrow> int option" where
  "skip_start str start = (case buf_get str start of
     None \<Rightarrow> None
   | Some c \<Rightarrow> if isspace c then skip_start str (start + 1) else Some start)"
  by pat_completeness auto
termination
  by (relation "measure (\<lambda>(str, start). nat (int (length str) - start))")
    (auto simp: buf_get_def split: if_splits)

function skip_end :: "bytes \<Rightarrow> int \<Rightarrow> int \<Rightarrow> int option" where
  "skip_end str start stop =
     (if stop > start then (case buf_get str stop of
        None \<Rightarrow> None
      | Some c \<Rightarrow> if isspace c then skip_end str start (stop - 1) else Some stop)
      else Some stop)"
  by pat_completeness auto
termination
  by (relation "measure (\<lambda>(str, start, stop). nat (stop - start))") auto

function copy_down :: "bytes \<Rightarrow> int \<Rightarrow> int \<Rightarrow> int \<Rightarrow> (bytes \<times> int) option" where
  "copy_down str i j stop =
     (if i \<le> stop then do {
        c \<leftarrow> buf_get str i;
        str \<leftarrow> buf_put str j c;
        copy_down str (i + 1) (j + 1) stop
      } else Some (str, j))"
  by pat_completeness auto
termination
  by (relation "measure (\<lambda>(str, i, j, stop). nat (stop + 1 - i))") auto

declare skip_start.simps [simp del] skip_end.simps [simp del] copy_down.simps [simp del]

definition str_trim :: "bytes option \<Rightarrow> bytes option option" where
  "str_trim str = (case str of
     None \<Rightarrow> Some None
   | Some b \<Rightarrow> do {
       start \<leftarrow> skip_start b 0;
       n \<leftarrow> c_strlen b;
       stop \<leftarrow> skip_end b start (to_int32 (int n - 1));
       (b, j) \<leftarrow> copy_down b start 0 stop;
       b \<leftarrow> buf_put b j NUL;
       Some (Some b)
     })"

text \<open>What trimming means, on plain strings.\<close>

definition trimmed :: "bytes \<Rightarrow> bytes" where
  "trimmed s = rev (dropWhile isspace (rev (dropWhile isspace s)))"


lemma skip_start_run:
  assumes "\<forall>c \<in> set ws. isspace c" "t \<noteq> []" "\<not> isspace (hd t)"
  shows "skip_start (p @ ws @ t) (int (length p)) = Some (int (length p + length ws))"
  using assms
proof (induction ws arbitrary: p)
  case Nil
  then obtain c t' where "t = c # t'" by (cases t) auto
  then show ?case using Nil.prems
    by (subst skip_start.simps) (simp add: buf_get_nat nth_append)
next
  case (Cons c ws)
  have "skip_start ((p @ [c]) @ ws @ t) (int (length (p @ [c])))
      = Some (int (length (p @ [c]) + length ws))"
    by (rule Cons.IH) (use Cons.prems in auto)
  then show ?case using Cons.prems(1)
    by (subst skip_start.simps) (simp add: buf_get_nat nth_append add.commute)
qed

lemma skip_end_run:
  assumes "\<forall>c \<in> set ws. isspace c" "core \<noteq> []" "\<not> isspace (last core)"
  shows "skip_end (p @ core @ ws @ t) (int (length p))
      (int (length p + length core + length ws) - 1) = Some (int (length p + length core) - 1)"
  using assms(1)
proof (induction ws arbitrary: t rule: rev_induct)
  case Nil
  obtain core' z where core: "core = core' @ [z]" using assms(2) by (cases core rule: rev_cases) auto
  have "buf_get (p @ core @ t) (int (length p + length core')) = Some z"
    by (subst buf_get_nat) (simp_all add: core nth_append)
  then show ?case using assms(3)
    by (subst skip_end.simps) (simp add: core)
next
  case (snoc c ws)
  have pos: "int (length p + length core + length (ws @ [c])) - 1
      = int (length p + length core + length ws)" by simp
  have "buf_get (p @ core @ (ws @ [c]) @ t) (int (length p + length core + length ws)) = Some c"
    by (subst buf_get_nat) (simp_all add: nth_append)
  moreover have "skip_end (p @ core @ ws @ ([c] @ t)) (int (length p))
      (int (length p + length core + length ws) - 1) = Some (int (length p + length core) - 1)"
    by (rule snoc.IH) (use snoc.prems in auto)
  moreover have "int (length p) < int (length p + length core + length ws)"
    using assms(2) by (cases core) auto
  ultimately show ?case using snoc.prems unfolding pos
    by (subst skip_end.simps) simp
qed

lemma copy_down_run:
  assumes "j \<le> i" "i + k \<le> length b"
  shows "copy_down b (int i) (int j) (int (i + k) - 1)
    = Some (take j b @ take k (drop i b) @ drop (j + k) b, int (j + k))"
  using assms
proof (induction k arbitrary: b i j)
  case 0
  then show ?case by (subst copy_down.simps) simp
next
  case (Suc k)
  define b' where "b' = b[j := b ! i]"
  have IH: "copy_down b' (int (Suc i)) (int (Suc j)) (int (Suc i + k) - 1)
      = Some (take (Suc j) b' @ take k (drop (Suc i) b') @ drop (Suc j + k) b', int (Suc j + k))"
    by (rule Suc.IH) (use Suc.prems in \<open>auto simp: b'_def\<close>)
  have "take (Suc j) b' = take j b @ [b ! i]"
    using Suc.prems by (simp add: b'_def take_Suc_conv_app_nth)
  moreover have "drop (Suc i) b' = drop (Suc i) b" "drop (Suc j + k) b' = drop (Suc j + k) b"
    using Suc.prems(1) by (simp_all add: b'_def drop_update_cancel)
  moreover have "drop i b = b ! i # drop (Suc i) b"
    using Suc.prems by (simp add: Cons_nth_drop_Suc)
  moreover have "buf_get b (int i) = Some (b ! i)" "buf_put b (int j) (b ! i) = Some b'"
    using Suc.prems by (simp_all add: buf_get_nat buf_put_nat b'_def)
  ultimately show ?case using IH
    by (subst copy_down.simps) (simp add: add.commute)
qed

section \<open>str_to_int and the demo\<close>

text \<open>
  \<open>out_num\<close> is \<open>None\<close> for NULL and otherwise the present value of the cell; the result is the
  return value and the new value of the cell.
\<close>

definition str_to_int :: "bytes option \<Rightarrow> int option \<Rightarrow> (int \<times> int option) option" where
  "str_to_int str out_num = (case str of
     None \<Rightarrow> Some (0, out_num)
   | Some b \<Rightarrow> (case out_num of
       None \<Rightarrow> Some (0, None)
     | Some old \<Rightarrow> do {
         s \<leftarrow> c_string b;
         let (val, endptr) = strtol10 s;
         Some (if endptr \<noteq> [] then (0, Some old) else (1, Some (to_int32 val)))
       }))"


lemma trim_parts:
  assumes "t = dropWhile isspace s"
  shows "\<exists>ws2. t = trimmed s @ ws2 \<and> (\<forall>c \<in> set ws2. isspace c) \<and>
    (t \<noteq> [] \<longrightarrow> trimmed s \<noteq> [] \<and> \<not> isspace (last (trimmed s)))"
proof -
  let ?w = "rev (takeWhile isspace (rev t))"
  have t: "t = trimmed s @ ?w"
    by (metis assms rev_append rev_rev_ident takeWhile_dropWhile_id trimmed_def)
  moreover have "\<forall>c \<in> set ?w. isspace c" by (auto dest: set_takeWhileD)
  moreover have "trimmed s \<noteq> [] \<and> \<not> isspace (last (trimmed s))" if "t \<noteq> []"
  proof -
    have "hd t \<in> set (rev t)" "\<not> isspace (hd t)"
      using that assms by (auto simp: hd_dropWhile)
    then have "dropWhile isspace (rev t) \<noteq> []" by (auto simp: dropWhile_eq_Nil_conv)
    then show ?thesis
      using hd_dropWhile [of isspace "rev t"] by (simp add: trimmed_def assms last_rev)
  qed
  ultimately show ?thesis by blast
qed

lemma trim_start:
  assumes "s = ws @ t" "\<forall>c \<in> set ws. isspace c" "t = dropWhile isspace s"
  shows "skip_start (s @ NUL # r) 0 = Some (int (length ws))"
proof -
  have "\<not> isspace (hd (t @ NUL # r))"
  proof (cases t)
    case (Cons c t')
    then show ?thesis using hd_dropWhile [of isspace s] by (simp add: assms(3))
  qed simp
  then show ?thesis using skip_start_run [of ws "t @ NUL # r" "[]"] assms(1,2) by simp
qed

text \<open>A string of white space only: nothing is copied.\<close>

lemma str_trim_blank:
  assumes "NUL \<notin> set s" "\<forall>c \<in> set s. isspace c" "int (length s) \<le> INT_MAX"
    "skip_start (s @ NUL # r) 0 = Some (int (length s))"
    "to_int32 (int (length s) - 1) = int (length s) - 1"
  shows "\<exists>r'. str_trim (Some (s @ NUL # r)) = Some (Some (NUL # r')) \<and>
    length (NUL # r') = length (s @ NUL # r)"
proof -
  have "skip_end (s @ NUL # r) (int (length s)) (int (length s) - 1) = Some (int (length s) - 1)"
    by (subst skip_end.simps) simp
  moreover have "copy_down (s @ NUL # r) (int (length s)) 0 (int (length s) - 1)
      = Some (s @ NUL # r, 0)"
    by (subst copy_down.simps) simp
  moreover have "\<exists>r'. buf_put (s @ NUL # r) 0 NUL = Some (NUL # r') \<and>
      length (NUL # r') = length (s @ NUL # r)"
    by (cases s) (auto simp: buf_put_def)
  ultimately show ?thesis
    using assms by (auto simp: str_trim_def c_strlen_append)
qed

text \<open>A string with a core: the two scans stop around it and the copy moves it to the front.\<close>

lemma str_trim_core:
  assumes "NUL \<notin> set s" "s = ws @ core @ ws2" "\<forall>c \<in> set ws2. isspace c" "core \<noteq> []"
    "\<not> isspace (last core)" "skip_start (s @ NUL # r) 0 = Some (int (length ws))"
    "to_int32 (int (length s) - 1) = int (length s) - 1"
  shows "\<exists>r'. str_trim (Some (s @ NUL # r)) = Some (Some (core @ NUL # r')) \<and>
    length (core @ NUL # r') = length (s @ NUL # r)"
proof -
  let ?b = "s @ NUL # r" and ?k = "length core"
  have b: "?b = ws @ core @ ws2 @ NUL # r" using assms(2) by simp
  have len: "length s = length ws + ?k + length ws2" using assms(2) by simp
  have stop: "skip_end ?b (int (length ws)) (int (length s) - 1) = Some (int (length ws + ?k) - 1)"
    unfolding b len by (rule skip_end_run [OF assms(3-5)])
  have "take ?k (drop (length ws) s) = core" using assms(2) by simp
  then have copy: "copy_down ?b (int (length ws)) 0 (int (length ws + ?k) - 1)
      = Some (core @ drop ?k ?b, int ?k)"
    using copy_down_run [of 0 "length ws" ?k ?b] len by simp
  have "drop ?k ?b \<noteq> []" using len by simp
  then obtain x r' where x: "drop ?k ?b = x # r'" by (cases "drop ?k ?b") auto
  have "buf_put (core @ drop ?k ?b) (int ?k) NUL = Some (core @ NUL # r')"
    unfolding x by (subst buf_put_nat) simp_all
  moreover have "length (core @ NUL # r') = length ?b"
    using arg_cong [OF x, of length] len by simp
  ultimately show ?thesis
    using assms(1,6,7) stop copy by (auto simp: str_trim_def c_strlen_append)
qed

lemma str_trim_run:
  assumes "NUL \<notin> set s" "int (length s) \<le> INT_MAX"
  shows "\<exists>r'. str_trim (Some (s @ NUL # r)) = Some (Some (trimmed s @ NUL # r')) \<and>
    length (trimmed s @ NUL # r') = length (s @ NUL # r)"
proof -
  define ws t where "ws = takeWhile isspace s" and "t = dropWhile isspace s"
  have s: "s = ws @ t" by (simp add: ws_def t_def)
  have ws: "\<forall>c \<in> set ws. isspace c" by (auto simp: ws_def dest: set_takeWhileD)
  note start = trim_start [OF s ws t_def, of r]
  have stop0: "to_int32 (int (length s) - 1) = int (length s) - 1"
    using assms(2) by (intro to_int32_id) (simp_all add: INT_MAX_def INT_MIN_def)
  show ?thesis
  proof (cases "t = []")
    case True
    then have "trimmed s = []" by (simp add: trimmed_def t_def del: dropWhile_eq_Nil_conv)
    moreover have "ws = s" using s True by simp
    ultimately show ?thesis using str_trim_blank [OF assms(1) _ assms(2) _ stop0, of r] ws start by simp
  next
    case False
    then obtain ws2 where core: "t = trimmed s @ ws2" "\<forall>c \<in> set ws2. isspace c"
      "trimmed s \<noteq> []" "\<not> isspace (last (trimmed s))"
      using trim_parts [OF t_def] by blast
    show ?thesis
      by (rule str_trim_core [OF assms(1) _ core(2-4) start stop0]) (use s core(1) in simp)
  qed
qed


section \<open>The demo program\<close>

text \<open>The lines \<^verbatim>\<open>main\<close> prints.\<close>

definition strutils_main :: "bytes list option" where
  "strutils_main = do {
     let str1 = ''  Hello World!  '' @ [NUL];
     let str2 = ''12345'' @ [NUL];
     let str3 = ''Test'' @ [NUL];
     s1 \<leftarrow> c_string str1;
     str1 \<leftarrow> str_trim (Some str1);
     t1 \<leftarrow> Option.bind str1 c_string;
     s3 \<leftarrow> c_string str3;
     str3 \<leftarrow> str_reverse (Some str3);
     t3 \<leftarrow> Option.bind str3 c_string;
     s2 \<leftarrow> c_string str2;
     (ok, num) \<leftarrow> str_to_int (Some str2) (Some 0);
     Some [''Original str1: '' @ [CHR 0x27] @ s1 @ [CHR 0x27],
           ''Trimmed str1: '' @ [CHR 0x27] @ t1 @ [CHR 0x27],
           ''Original str3: '' @ [CHR 0x27] @ s3 @ [CHR 0x27],
           ''Reversed str3: '' @ [CHR 0x27] @ t3 @ [CHR 0x27],
           (if ok \<noteq> 0
            then ''Converted '' @ [CHR 0x27] @ s2 @ [CHR 0x27] @ '' to number: '' @ show_int (the num)
            else ''Failed to convert '' @ [CHR 0x27] @ s2 @ [CHR 0x27] @ '' to number.'')]
   }"

lemma str_to_int_cases:
  assumes "NUL \<notin> set s"
  shows "str_to_int (Some (s @ NUL # r)) (Some old) =
    Some (if snd (strtol10 s) = [] then (1, Some (to_int32 (fst (strtol10 s)))) else (0, Some old))"
  using assms by (simp add: str_to_int_def c_string_append split: prod.split)

text \<open>White space, an optional sign, at least one digit, and nothing after it.\<close>

definition decimal_literal :: "bytes \<Rightarrow> bool" where
  "decimal_literal s \<longleftrightarrow> (\<exists>ws sg ds. s = ws @ sg @ ds \<and> (\<forall>c \<in> set ws. isspace c) \<and>
      sg \<in> {[], ''-'', ''+''} \<and> ds \<noteq> [] \<and> (\<forall>c \<in> set ds. isdigit c))"

lemma strtol10_accepts:
  assumes "snd (strtol10 s) = []"
  shows "s = [] \<or> decimal_literal s"
proof -
  define t where "t = snd (sign_of (dropWhile isspace s))"
  define sg where "sg = take (length (dropWhile isspace s) - length t) (dropWhile isspace s)"
  have sg: "dropWhile isspace s = sg @ t \<and> sg \<in> {[], ''-'', ''+''}"
    by (cases "dropWhile isspace s") (auto simp: sg_def t_def simp del: dropWhile_eq_Nil_conv)
  show ?thesis
  proof (cases "takeWhile isdigit t = []")
    case True
    then show ?thesis using assms by (simp add: strtol10_def t_def split: prod.splits)
  next
    case False
    then have "drop (length (takeWhile isdigit t)) t = []"
      using assms by (auto simp: strtol10_def t_def Let_def split: prod.splits)
    then have "takeWhile isdigit t = t"
      by (metis append.right_neutral dropWhile_eq_drop takeWhile_dropWhile_id)
    then have "\<forall>c \<in> set t. isdigit c" by (metis set_takeWhileD)
    moreover have "s = takeWhile isspace s @ sg @ t" by (metis sg takeWhile_dropWhile_id)
    moreover have "t \<noteq> []" "\<forall>c \<in> set (takeWhile isspace s). isspace c"
      using False by (auto dest: set_takeWhileD)
    ultimately show ?thesis using sg unfolding decimal_literal_def by blast
  qed
qed

lemma strtol10_literal:
  assumes "decimal_literal s"
  shows "snd (strtol10 s) = []"
proof -
  obtain ws sg ds where s: "s = ws @ sg @ ds" "\<forall>c \<in> set ws. isspace c"
    "sg \<in> {[], ''-'', ''+''}" "ds \<noteq> []" "\<forall>c \<in> set ds. isdigit c"
    using assms unfolding decimal_literal_def by blast
  obtain d ds' where ds: "ds = d # ds'" "isdigit d" using s(4,5) by (cases ds) auto
  have nospace: "\<not> isspace (CHR ''-'')" "\<not> isspace (CHR ''+'')" by (simp_all add: isspace_def)
  have "dropWhile isspace s = sg @ ds"
    using s ds nospace isdigit_not_space by (auto simp: dropWhile_append)
  then have "snd (sign_of (dropWhile isspace s)) = ds"
    using s(3) ds isdigit_not_sign by auto
  moreover have "takeWhile isdigit ds = ds" using s(5) by (simp add: takeWhile_eq_all_conv)
  ultimately show ?thesis using s(4)
    by (cases "sign_of (dropWhile isspace s)")
      (simp add: strtol10_def Let_def del: takeWhile_eq_all_conv)
qed

lemma strtol10_rest_empty: "snd (strtol10 s) = [] \<longleftrightarrow> s = [] \<or> decimal_literal s"
  using strtol10_accepts strtol10_literal by (auto simp: strtol10_def)


section \<open>Properties\<close>

text \<open>
  \<open>str_reverse\<close> reverses every string that fits an \<open>int\<close> in place, never leaves the buffer, and
  keeps the terminator and everything behind it.
\<close>

theorem str_reverse_correct:
  assumes "NUL \<notin> set s" "int (length s) \<le> INT_MAX"
  shows "str_reverse (Some (s @ NUL # r)) = Some (Some (rev s @ NUL # r))"
proof -
  have "to_int32 (int (length s)) = int (length s)"
    using assms(2) by (intro to_int32_id) (simp_all add: INT_MIN_def)
  then show ?thesis
    using assms(1) reverse_loop_middle [of "[]" 0 "[]" "length s" s "NUL # r"]
    by (simp add: str_reverse_def c_strlen_append)
qed

theorem str_reverse_correct_witness:
  "str_reverse (Some (''Test'' @ NUL # ''xy'')) = Some (Some (''tseT'' @ NUL # ''xy''))"
  using str_reverse_correct [of "''Test''" "''xy''"] by (simp add: INT_MAX_def)

text \<open>
  \<open>str_trim\<close> leaves in the buffer exactly the string without its leading and trailing white
  space, stays inside the buffer and does not resize it.
\<close>

theorem str_trim_correct:
  assumes "c_string b = Some s" "int (length s) \<le> INT_MAX"
  shows "\<exists>b'. str_trim (Some b) = Some (Some b') \<and> c_string b' = Some (trimmed s) \<and>
    length b' = length b"
proof -
  obtain r where b: "b = s @ NUL # r" using c_string_split [OF assms(1)] by blast
  have "NUL \<notin> set s" by (rule c_string_no_NUL [OF assms(1)])
  moreover have "set (trimmed s) \<subseteq> set s"
    by (auto simp: trimmed_def dest!: set_dropWhileD)
  ultimately show ?thesis
    using str_trim_run [of s r] assms(2) c_string_append [of "trimmed s"] unfolding b by blast
qed

theorem str_trim_correct_witness:
  "\<exists>b'. str_trim (Some ('' ab '' @ [NUL])) = Some (Some b') \<and>
    c_string b' = Some (trimmed '' ab '') \<and> length b' = length ('' ab '' @ [NUL])"
  by (rule str_trim_correct) (simp_all add: c_string_def INT_MAX_def)

text \<open>
  \<open>str_to_int\<close> reads back every \<open>int\<close> that \<^verbatim>\<open>printf("%d")\<close> prints.
\<close>

theorem str_to_int_roundtrip:
  assumes "INT_MIN \<le> n" "n \<le> INT_MAX"
  shows "str_to_int (Some (show_int n @ [NUL])) (Some old) = Some (1, Some n)"
proof -
  have "isdigit c \<or> c = CHR ''-''" if "c \<in> set (show_int n)" for c
    using that show_nat_digits by (auto simp: show_int_def split: if_splits)
  then have "NUL \<notin> set (show_int n)" by force
  moreover have "strtol10 (show_int n) = (n, [])"
    using strtol10_show_int [of n "[]"] assms
    by (simp add: LONG_MIN_def LONG_MAX_def INT_MIN_def INT_MAX_def)
  ultimately show ?thesis using assms by (simp add: str_to_int_cases to_int32_id)
qed

theorem str_to_int_roundtrip_witness:
  "str_to_int (Some (show_int (-42) @ [NUL])) (Some 7) = Some (1, Some (-42))"
  using str_to_int_roundtrip [of "-42" 7] by (simp add: INT_MIN_def INT_MAX_def)

text \<open>
  \<open>str_to_int\<close> accepts exactly the optionally signed digit strings after white space, and also
  the empty string, which it reports as a successful conversion to 0.
\<close>

theorem str_to_int_accepts:
  assumes "NUL \<notin> set s"
  shows "str_to_int (Some (s @ [NUL])) (Some old) =
    Some (if s = [] \<or> decimal_literal s
          then (1, Some (to_int32 (fst (strtol10 s)))) else (0, Some old))"
  using str_to_int_cases [OF assms, of "[]" old] by (simp add: strtol10_rest_empty)

theorem str_to_int_accepts_witness: "str_to_int (Some [NUL]) (Some 9) = Some (1, Some 0)"
  using str_to_int_accepts [of "[]" 9] by (simp add: strtol10_def to_int32_def)


text \<open>The demo prints what the \<^verbatim>\<open>README.md\<close> of the directory shows.\<close>

lemma demo_trim: "Option.bind (str_trim (Some (''  Hello World!  '' @ [NUL]))) (\<lambda>b. Option.bind b c_string)
    = Some ''Hello World!''"
  by code_simp

lemma demo_reverse: "str_reverse (Some (''Test'' @ [NUL])) = Some (Some (''tseT'' @ [NUL]))"
  by code_simp

lemma demo_to_int: "str_to_int (Some (''12345'' @ [NUL])) (Some 0) = Some (1, Some 12345)"
  by code_simp

lemma strutils_main_output: "strutils_main =
  Some [''Original str1: '' @ [CHR 0x27] @ ''  Hello World!  '' @ [CHR 0x27],
        ''Trimmed str1: '' @ [CHR 0x27] @ ''Hello World!'' @ [CHR 0x27],
        ''Original str3: '' @ [CHR 0x27] @ ''Test'' @ [CHR 0x27],
        ''Reversed str3: '' @ [CHR 0x27] @ ''tseT'' @ [CHR 0x27],
        ''Converted '' @ [CHR 0x27] @ ''12345'' @ [CHR 0x27] @ '' to number: 12345'']"
proof -
  have "show_int 12345 = ''12345''"
    by (simp add: show_int_def show_nat.simps digit_char_def)
  moreover obtain b where "str_trim (Some (''  Hello World!  '' @ [NUL])) = Some (Some b)"
    "c_string b = Some ''Hello World!''"
    using demo_trim by (auto simp: bind_eq_Some_conv)
  ultimately show ?thesis
    using demo_reverse demo_to_int
    by (simp add: strutils_main_def Let_def) (simp add: c_string_def)
qed

text \<open>
  C37: the string library.  On every string that fits an \<open>int\<close>, inside any buffer: \<open>str_reverse\<close>
  reverses it in place and keeps the terminator and everything behind it; \<open>str_trim\<close> leaves exactly
  the string without its leading and trailing white space, in a buffer of the same size; and
  \<open>str_to_int\<close> stores every \<open>int\<close> that \<^verbatim>\<open>printf("%d")\<close> prints, and tells by one answer for all of
  these and another for all that is neither empty nor a number, after which the variable is as it
  was.  The property leaves open which of the two answers is which: \<^verbatim>\<open>strutils.h\<close> promises 0 for
  success, and the code returns 1.
\<close>

theorem string_library_correct:
  assumes "NUL \<notin> set s" "int (length s) \<le> INT_MAX"
  shows "str_reverse (Some (s @ NUL # r)) = Some (Some (rev s @ NUL # r)) \<and>
    (\<exists>b. str_trim (Some (s @ NUL # r)) = Some (Some b) \<and> c_string b = Some (trimmed s) \<and>
      length b = length (s @ NUL # r)) \<and>
    (\<exists>yes no. yes \<noteq> no \<and>
      (\<forall>n old. INT_MIN \<le> n \<and> n \<le> INT_MAX \<longrightarrow>
        str_to_int (Some (show_int n @ [NUL])) (Some old) = Some (yes, Some n)) \<and>
      (\<forall>t old. NUL \<notin> set t \<and> t \<noteq> [] \<and> \<not> decimal_literal t \<longrightarrow>
        str_to_int (Some (t @ [NUL])) (Some old) = Some (no, Some old)))"
proof (intro conjI)
  show "str_reverse (Some (s @ NUL # r)) = Some (Some (rev s @ NUL # r))"
    by (rule str_reverse_correct [OF assms])
  show "\<exists>b. str_trim (Some (s @ NUL # r)) = Some (Some b) \<and> c_string b = Some (trimmed s) \<and>
      length b = length (s @ NUL # r)"
    by (rule str_trim_correct [OF c_string_append [OF assms(1)] assms(2)])
qed (use str_to_int_roundtrip str_to_int_accepts in \<open>intro exI [of _ 1] exI [of _ 0], auto\<close>)

theorem string_library_correct_witness:
  "str_reverse (Some (''Test'' @ NUL # ''xy'')) = Some (Some (''tseT'' @ NUL # ''xy'')) \<and>
   (\<exists>yes. str_to_int (Some (show_int (-42) @ [NUL])) (Some 7) = Some (yes, Some (-42)))"
  using string_library_correct [where s = "''Test''" and r = "''xy''"]
  by (auto simp: INT_MAX_def INT_MIN_def)

end
