(* ===== verification/Slot_Array.thy ===== *)
theory Slot_Array
  imports Prelude
begin

text \<open>
  The interface of a fixed array of slots, which the chat program (its peer table) and the
  restaurant (its trays) both use: a new entry goes to the first vacant slot, and an entry is
  removed by clearing the first slot that matches a key.  The laws say what the two loops of the
  client do; the lemmas are proved once, here, and used through the interpretations.
\<close>

locale slot_array =
  fixes vacant :: "'a \<Rightarrow> bool"
    and entry :: "'v \<Rightarrow> 'a"
    and insert_loop :: "'v \<Rightarrow> 'a list \<Rightarrow> 'a list"
    and matches :: "'k \<Rightarrow> 'a \<Rightarrow> bool"
    and cleared :: "'a \<Rightarrow> 'a"
    and clear_loop :: "'k \<Rightarrow> 'a list \<Rightarrow> 'a list"
  assumes insert_law: "insert_loop v xs =
      (case first_index vacant xs of None \<Rightarrow> xs | Some i \<Rightarrow> xs[i := entry v])"
    and clear_law: "clear_loop k xs =
      (case first_index (matches k) xs of None \<Rightarrow> xs | Some i \<Rightarrow> xs[i := cleared (xs ! i)])"
    and entry_occupied: "\<not> vacant (entry v)"
    and cleared_vacant: "vacant (cleared x)"
    and match_occupied: "matches k x \<Longrightarrow> \<not> vacant x"
begin

lemma insert_length: "length (insert_loop v xs) = length xs"
  by (simp add: insert_law split: option.split)

lemma clear_length: "length (clear_loop k xs) = length xs"
  by (simp add: clear_law split: option.split)

lemma insert_full: "\<forall>x \<in> set xs. \<not> vacant x \<Longrightarrow> insert_loop v xs = xs"
  by (simp add: insert_law iffD2 [OF first_index_None])

lemma clear_absent: "\<forall>x \<in> set xs. \<not> matches k x \<Longrightarrow> clear_loop k xs = xs"
  by (simp add: clear_law iffD2 [OF first_index_None])

lemma insert_at:
  assumes "x \<in> set xs" "vacant x"
  shows "\<exists>i < length xs. vacant (xs ! i) \<and> (\<forall>j < i. \<not> vacant (xs ! j)) \<and>
    insert_loop v xs = xs[i := entry v]"
proof -
  obtain i where i: "first_index vacant xs = Some i"
    using first_index_ex [of x xs vacant] assms by blast
  show ?thesis using first_index_SomeD [OF i] by (intro exI [of _ i]) (simp add: insert_law i)
qed

lemma clear_at:
  assumes "x \<in> set xs" "matches k x"
  shows "\<exists>i < length xs. matches k (xs ! i) \<and> (\<forall>j < i. \<not> matches k (xs ! j)) \<and>
    clear_loop k xs = xs[i := cleared (xs ! i)]"
proof -
  obtain i where i: "first_index (matches k) xs = Some i"
    using first_index_ex [of x xs "matches k"] assms by blast
  show ?thesis using first_index_SomeD [OF i] by (intro exI [of _ i]) (simp add: clear_law i)
qed

text \<open>Every successful insertion takes exactly one vacant slot, every removal frees one.\<close>

lemma insert_vacant_count:
  assumes "x \<in> set xs" "vacant x"
  shows "Suc (count_if vacant (insert_loop v xs)) = count_if vacant xs"
proof -
  obtain i where "i < length xs" "vacant (xs ! i)" "insert_loop v xs = xs[i := entry v]"
    using insert_at [OF assms] by blast
  then show ?thesis
    using count_if_update [of i xs vacant "entry v"] by (simp add: entry_occupied)
qed

lemma clear_vacant_count:
  assumes "x \<in> set xs" "matches k x"
  shows "count_if vacant (clear_loop k xs) = Suc (count_if vacant xs)"
proof -
  obtain i where "i < length xs" "matches k (xs ! i)" "clear_loop k xs = xs[i := cleared (xs ! i)]"
    using clear_at [OF assms] by blast
  then show ?thesis
    using count_if_update [of i xs vacant "cleared (xs ! i)"]
    by (simp add: cleared_vacant match_occupied)
qed

lemma insert_occupied_count:
  assumes "x \<in> set xs" "vacant x"
  shows "count_if (\<lambda>x. \<not> vacant x) (insert_loop v xs) = Suc (count_if (\<lambda>x. \<not> vacant x) xs)"
  using insert_vacant_count [OF assms, of v] count_if_compl [of vacant xs]
    count_if_compl [of vacant "insert_loop v xs"] by (simp add: insert_length)

lemma clear_occupied_count:
  assumes "x \<in> set xs" "matches k x"
  shows "Suc (count_if (\<lambda>x. \<not> vacant x) (clear_loop k xs)) = count_if (\<lambda>x. \<not> vacant x) xs"
  using clear_vacant_count [OF assms] count_if_compl [of vacant xs]
    count_if_compl [of vacant "clear_loop k xs"] by (simp add: clear_length)

lemma insert_members:
  assumes "y \<in> set (insert_loop v xs)"
  shows "y = entry v \<or> y \<in> set xs"
proof -
  have "set (xs[i := entry v]) \<subseteq> insert (entry v) (set xs)" for i
    by (rule set_update_subset_insert)
  then show ?thesis using assms by (auto simp: insert_law split: option.splits)
qed

lemma clear_members:
  assumes "y \<in> set (clear_loop k xs)"
  shows "vacant y \<or> y \<in> set xs"
proof -
  have "set (xs[i := cleared (xs ! i)]) \<subseteq> insert (cleared (xs ! i)) (set xs)" for i
    by (rule set_update_subset_insert)
  then show ?thesis using assms cleared_vacant by (auto simp: clear_law split: option.splits)
qed

lemma insert_other:
  "i < length xs \<Longrightarrow> \<not> vacant (xs ! i) \<Longrightarrow> insert_loop v xs ! i = xs ! i"
  by (auto simp: insert_law first_index_Some nth_list_update split: option.split)

lemma clear_other:
  "i < length xs \<Longrightarrow> \<not> matches k (xs ! i) \<Longrightarrow> clear_loop k xs ! i = xs ! i"
  by (auto simp: clear_law first_index_Some nth_list_update split: option.split)

end

end
