(* ===== verification/Restaurant.thy ===== *)
theory Restaurant
  imports Slot_Array
begin

text \<open>
  The restaurant of \<^verbatim>\<open>10-ipc-sem/main.c\<close>: two chefs and three customers, one process each, share
  two trays of ten slots guarded by POSIX semaphores.  A process runs the steps of \<^verbatim>\<open>add_item\<close> or
  \<^verbatim>\<open>remove_item\<close> one at a time, in any interleaving with the others; a step that would block is
  \<open>None\<close>.  \<open>sleep\<close> and \<open>rand\<close> only choose the interleaving and the name printed.
\<close>

section \<open>The shared buffers\<close>

definition BUFFER_SIZE :: nat where "BUFFER_SIZE = 10"
definition EMPTY :: int where "EMPTY = 0"
definition VEGAN :: int where "VEGAN = 1"
definition NON_VEGAN :: int where "NON_VEGAN = 2"

lemmas item_codes = EMPTY_def VEGAN_def NON_VEGAN_def

record shared_buffer =
  items :: "int list"
  sem_mutex :: nat
  sem_full :: nat
  sem_empty :: nat

text \<open>POSIX semaphores: \<^verbatim>\<open>sem_wait\<close> blocks at 0.\<close>

definition sem_wait :: "nat \<Rightarrow> nat option" where
  "sem_wait v = (if v = 0 then None else Some (v - 1))"

definition sem_post :: "nat \<Rightarrow> nat" where
  "sem_post v = Suc v"

text \<open>The two scans over \<^verbatim>\<open>buffer->items\<close>.\<close>

fun add_scan :: "int \<Rightarrow> int list \<Rightarrow> int list" where
  "add_scan item_type [] = []"
| "add_scan item_type (x # xs) =
     (if x = EMPTY then item_type # xs else x # add_scan item_type xs)"

fun remove_scan :: "int \<Rightarrow> int list \<Rightarrow> int list" where
  "remove_scan item_type [] = []"
| "remove_scan item_type (x # xs) =
     (if x = item_type then EMPTY # xs else x # remove_scan item_type xs)"

definition count_dishes :: "shared_buffer \<Rightarrow> nat" where
  "count_dishes b = count_if (\<lambda>x. \<not> x = EMPTY) (items b)"

definition print_buffer_state :: "shared_buffer \<Rightarrow> shared_buffer \<Rightarrow> nat \<times> nat" where
  "print_buffer_state vegan non_vegan = (count_dishes vegan, count_dishes non_vegan)"

section \<open>The steps of add_item and remove_item\<close>

text \<open>
  Where a process stands in its call: \<open>Outside\<close> it, \<open>Has_token\<close> after the first \<^verbatim>\<open>sem_wait\<close>,
  \<open>Critical\<close> with the mutex held, \<open>Scanned\<close> after the loop, \<open>Released\<close> after the mutex is posted.
\<close>

datatype phase = Outside | Has_token | Critical | Scanned | Released

fun add_item :: "int \<Rightarrow> phase \<Rightarrow> shared_buffer \<Rightarrow> (phase \<times> shared_buffer) option" where
  "add_item item_type Outside b =
     map_option (\<lambda>v. (Has_token, b\<lparr>sem_empty := v\<rparr>)) (sem_wait (sem_empty b))"
| "add_item item_type Has_token b =
     map_option (\<lambda>v. (Critical, b\<lparr>sem_mutex := v\<rparr>)) (sem_wait (sem_mutex b))"
| "add_item item_type Critical b = Some (Scanned, b\<lparr>items := add_scan item_type (items b)\<rparr>)"
| "add_item item_type Scanned b = Some (Released, b\<lparr>sem_mutex := sem_post (sem_mutex b)\<rparr>)"
| "add_item item_type Released b = Some (Outside, b\<lparr>sem_full := sem_post (sem_full b)\<rparr>)"

fun remove_item :: "int \<Rightarrow> phase \<Rightarrow> shared_buffer \<Rightarrow> (phase \<times> shared_buffer) option" where
  "remove_item item_type Outside b =
     map_option (\<lambda>v. (Has_token, b\<lparr>sem_full := v\<rparr>)) (sem_wait (sem_full b))"
| "remove_item item_type Has_token b =
     map_option (\<lambda>v. (Critical, b\<lparr>sem_mutex := v\<rparr>)) (sem_wait (sem_mutex b))"
| "remove_item item_type Critical b =
     Some (Scanned, b\<lparr>items := remove_scan item_type (items b)\<rparr>)"
| "remove_item item_type Scanned b = Some (Released, b\<lparr>sem_mutex := sem_post (sem_mutex b)\<rparr>)"
| "remove_item item_type Released b = Some (Outside, b\<lparr>sem_empty := sem_post (sem_empty b)\<rparr>)"

section \<open>The processes\<close>

datatype tray = Vegan | Non_vegan
datatype proc = Donatello | Portecelli | Customer1 | Customer2 | Customer3
datatype dish_call = Add_item tray | Remove_item tray

fun item_type :: "tray \<Rightarrow> int" where
  "item_type Vegan = VEGAN"
| "item_type Non_vegan = NON_VEGAN"

text \<open>The body of each \<^verbatim>\<open>while (1)\<close> loop: the calls a process makes, over and over.\<close>

definition chef_donatello :: "dish_call list" where "chef_donatello = [Add_item Non_vegan]"
definition chef_portecelli :: "dish_call list" where "chef_portecelli = [Add_item Vegan]"
definition customer1 :: "dish_call list" where "customer1 = [Remove_item Non_vegan]"
definition customer2 :: "dish_call list" where "customer2 = [Remove_item Vegan]"
definition customer3 :: "dish_call list" where
  "customer3 = [Remove_item Vegan, Remove_item Non_vegan]"

lemmas scripts = chef_donatello_def chef_portecelli_def customer1_def customer2_def customer3_def

fun script :: "proc \<Rightarrow> dish_call list" where
  "script Donatello = chef_donatello"
| "script Portecelli = chef_portecelli"
| "script Customer1 = customer1"
| "script Customer2 = customer2"
| "script Customer3 = customer3"

record worker =
  call_no :: nat
  worker_phase :: phase

record kitchen =
  trays :: "tray \<Rightarrow> shared_buffer"
  workers :: "proc \<Rightarrow> worker"

definition current_call :: "proc \<Rightarrow> worker \<Rightarrow> dish_call" where
  "current_call p w = script p ! (call_no w mod length (script p))"

fun call_tray :: "dish_call \<Rightarrow> tray" where
  "call_tray (Add_item t) = t"
| "call_tray (Remove_item t) = t"

fun call_step :: "dish_call \<Rightarrow> phase \<Rightarrow> shared_buffer \<Rightarrow> (phase \<times> shared_buffer) option" where
  "call_step (Add_item t) = add_item (item_type t)"
| "call_step (Remove_item t) = remove_item (item_type t)"

definition advance :: "worker \<Rightarrow> phase \<Rightarrow> worker" where
  "advance w ph = w\<lparr>worker_phase := ph,
     call_no := (if ph = Outside then Suc (call_no w) else call_no w)\<rparr>"

definition proc_step :: "proc \<Rightarrow> kitchen \<Rightarrow> kitchen option" where
  "proc_step p s =
     (let w = workers s p; c = current_call p w; t = call_tray c in
      map_option (\<lambda>(ph, b). s\<lparr>trays := (trays s)(t := b), workers := (workers s)(p := advance w ph)\<rparr>)
        (call_step c (worker_phase w) (trays s t)))"

text \<open>The state \<^verbatim>\<open>main\<close> sets up before it forks.\<close>

definition init_buffer :: shared_buffer where
  "init_buffer = \<lparr>items = replicate BUFFER_SIZE EMPTY, sem_mutex = 1, sem_full = 0,
     sem_empty = BUFFER_SIZE\<rparr>"

definition init_kitchen :: kitchen where
  "init_kitchen = \<lparr>trays = (\<lambda>_. init_buffer), workers = (\<lambda>_. \<lparr>call_no = 0, worker_phase = Outside\<rparr>)\<rparr>"

inductive kitchen_step :: "kitchen \<Rightarrow> kitchen \<Rightarrow> bool" where
  proc_moves: "proc_step p s = Some t \<Longrightarrow> kitchen_step s t"

inductive_cases kitchen_stepE: "kitchen_step s t"

abbreviation kitchen_reach :: "kitchen \<Rightarrow> bool" where
  "kitchen_reach \<equiv> reach (\<lambda>s. s = init_kitchen) kitchen_step"


section \<open>The trays are slot arrays\<close>

lemma add_scan_law: "add_scan v xs =
    (case first_index (\<lambda>x. x = EMPTY) xs of None \<Rightarrow> xs | Some i \<Rightarrow> xs[i := v])"
  by (induction xs) (auto split: option.split)

lemma remove_scan_law: "remove_scan v xs =
    (case first_index (\<lambda>x. x = v) xs of None \<Rightarrow> xs | Some i \<Rightarrow> xs[i := EMPTY])"
  by (induction xs) (auto split: option.split)

lemma item_type_not_EMPTY [simp]: "item_type t \<noteq> EMPTY" "EMPTY \<noteq> item_type t"
  by (cases t; simp add: item_codes)+

interpretation tray_slots: slot_array "\<lambda>x. x = EMPTY" item_type
  "\<lambda>t. add_scan (item_type t)" "\<lambda>t x. x = item_type t" "\<lambda>_. EMPTY"
  "\<lambda>t. remove_scan (item_type t)"
  by unfold_locales (auto simp: add_scan_law remove_scan_law)

section \<open>The invariant of a tray\<close>

text \<open>The number of processes inside a call on tray \<open>t\<close>, by kind of call and phase.\<close>

definition adding :: "tray \<Rightarrow> phase set \<Rightarrow> proc \<Rightarrow> worker \<Rightarrow> bool" where
  "adding t phs p w \<longleftrightarrow> current_call p w = Add_item t \<and> worker_phase w \<in> phs"

definition removing :: "tray \<Rightarrow> phase set \<Rightarrow> proc \<Rightarrow> worker \<Rightarrow> bool" where
  "removing t phs p w \<longleftrightarrow> current_call p w = Remove_item t \<and> worker_phase w \<in> phs"

definition in_critical :: "tray \<Rightarrow> proc \<Rightarrow> worker \<Rightarrow> bool" where
  "in_critical t p w \<longleftrightarrow> call_tray (current_call p w) = t \<and> worker_phase w \<in> {Critical, Scanned}"

definition empty_slots :: "shared_buffer \<Rightarrow> nat" where
  "empty_slots b = count_if (\<lambda>x. x = EMPTY) (items b)"

instantiation proc :: finite
begin

instance
proof
  have "(UNIV :: proc set) = {Donatello, Portecelli, Customer1, Customer2, Customer3}"
    by (auto intro: proc.exhaust)
  then show "finite (UNIV :: proc set)" by (metis finite.emptyI finite_insert)
qed

end

definition tray_inv :: "tray \<Rightarrow> shared_buffer \<Rightarrow> (proc \<Rightarrow> worker) \<Rightarrow> bool" where
  "tray_inv t b ws \<longleftrightarrow>
     length (items b) = BUFFER_SIZE \<and> set (items b) \<subseteq> {EMPTY, item_type t} \<and>
     sem_mutex b + procs_at (in_critical t) ws = 1 \<and>
     empty_slots b = sem_empty b + procs_at (adding t {Has_token, Critical}) ws
       + procs_at (removing t {Scanned, Released}) ws \<and>
     count_dishes b = sem_full b + procs_at (removing t {Has_token, Critical}) ws
       + procs_at (adding t {Scanned, Released}) ws"

definition kitchen_inv :: "kitchen \<Rightarrow> bool" where
  "kitchen_inv s \<longleftrightarrow> (\<forall>t. tray_inv t (trays s t) (workers s))"

lemmas at_defs = adding_def removing_def in_critical_def

lemma tray_inv_other:
  assumes "tray_inv t b ws" "call_tray (current_call p (ws p)) \<noteq> t"
  shows "tray_inv t b (ws(p := advance (ws p) ph))"
proof -
  have "procs_at P (ws(p := advance (ws p) ph)) = procs_at P ws"
    if "P \<in> {in_critical t, adding t {Has_token, Critical}, removing t {Scanned, Released},
      removing t {Has_token, Critical}, adding t {Scanned, Released}}" for P
  proof (rule procs_at_same)
    show "P p (advance (ws p) ph) = P p (ws p)"
      using that assms(2)
      by (cases "ph = Outside") (auto simp: at_defs advance_def current_call_def)
  qed
  then show ?thesis using assms(1) by (simp add: tray_inv_def)
qed


text \<open>How one step of \<open>p\<close> moves the counts.\<close>

lemma advance_at:
  assumes "Outside \<notin> phs"
  shows "adding t phs p (advance w ph) \<longleftrightarrow> current_call p w = Add_item t \<and> ph \<in> phs"
    and "removing t phs p (advance w ph) \<longleftrightarrow> current_call p w = Remove_item t \<and> ph \<in> phs"
  using assms by (auto simp: at_defs advance_def current_call_def)

lemma advance_critical:
  "in_critical t p (advance w ph) \<longleftrightarrow>
    call_tray (current_call p w) = t \<and> ph \<in> {Critical, Scanned}"
  by (auto simp: at_defs advance_def current_call_def)

lemma at_add:
  assumes "current_call p w = Add_item t"
  shows "adding t phs p w \<longleftrightarrow> worker_phase w \<in> phs" "\<not> removing t phs p w"
    "in_critical t p w \<longleftrightarrow> worker_phase w \<in> {Critical, Scanned}"
  using assms by (simp_all add: at_defs)

lemma at_remove:
  assumes "current_call p w = Remove_item t"
  shows "removing t phs p w \<longleftrightarrow> worker_phase w \<in> phs" "\<not> adding t phs p w"
    "in_critical t p w \<longleftrightarrow> worker_phase w \<in> {Critical, Scanned}"
  using assms by (simp_all add: at_defs)

lemma add_moves:
  assumes "current_call p (ws p) = Add_item t"
  shows "procs_at (in_critical t) (ws(p := advance (ws p) ph))
        + of_bool (worker_phase (ws p) \<in> {Critical, Scanned})
      = procs_at (in_critical t) ws + of_bool (ph \<in> {Critical, Scanned})"
    and "procs_at (adding t {Has_token, Critical}) (ws(p := advance (ws p) ph))
        + of_bool (worker_phase (ws p) \<in> {Has_token, Critical})
      = procs_at (adding t {Has_token, Critical}) ws + of_bool (ph \<in> {Has_token, Critical})"
    and "procs_at (adding t {Scanned, Released}) (ws(p := advance (ws p) ph))
        + of_bool (worker_phase (ws p) \<in> {Scanned, Released})
      = procs_at (adding t {Scanned, Released}) ws + of_bool (ph \<in> {Scanned, Released})"
    and "procs_at (removing t {Has_token, Critical}) (ws(p := advance (ws p) ph))
      = procs_at (removing t {Has_token, Critical}) ws"
    and "procs_at (removing t {Scanned, Released}) (ws(p := advance (ws p) ph))
      = procs_at (removing t {Scanned, Released}) ws"
  using procs_at_update [of "in_critical t" ws p "advance (ws p) ph"]
    procs_at_update [of "adding t {Has_token, Critical}" ws p "advance (ws p) ph"]
    procs_at_update [of "adding t {Scanned, Released}" ws p "advance (ws p) ph"]
    procs_at_update [of "removing t {Has_token, Critical}" ws p "advance (ws p) ph"]
    procs_at_update [of "removing t {Scanned, Released}" ws p "advance (ws p) ph"]
  by (simp_all add: advance_at advance_critical at_add [OF assms] assms)

lemma remove_moves:
  assumes "current_call p (ws p) = Remove_item t"
  shows "procs_at (in_critical t) (ws(p := advance (ws p) ph))
        + of_bool (worker_phase (ws p) \<in> {Critical, Scanned})
      = procs_at (in_critical t) ws + of_bool (ph \<in> {Critical, Scanned})"
    and "procs_at (removing t {Has_token, Critical}) (ws(p := advance (ws p) ph))
        + of_bool (worker_phase (ws p) \<in> {Has_token, Critical})
      = procs_at (removing t {Has_token, Critical}) ws + of_bool (ph \<in> {Has_token, Critical})"
    and "procs_at (removing t {Scanned, Released}) (ws(p := advance (ws p) ph))
        + of_bool (worker_phase (ws p) \<in> {Scanned, Released})
      = procs_at (removing t {Scanned, Released}) ws + of_bool (ph \<in> {Scanned, Released})"
    and "procs_at (adding t {Has_token, Critical}) (ws(p := advance (ws p) ph))
      = procs_at (adding t {Has_token, Critical}) ws"
    and "procs_at (adding t {Scanned, Released}) (ws(p := advance (ws p) ph))
      = procs_at (adding t {Scanned, Released}) ws"
  using procs_at_update [of "in_critical t" ws p "advance (ws p) ph"]
    procs_at_update [of "adding t {Has_token, Critical}" ws p "advance (ws p) ph"]
    procs_at_update [of "adding t {Scanned, Released}" ws p "advance (ws p) ph"]
    procs_at_update [of "removing t {Has_token, Critical}" ws p "advance (ws p) ph"]
    procs_at_update [of "removing t {Scanned, Released}" ws p "advance (ws p) ph"]
  by (simp_all add: advance_at advance_critical at_remove [OF assms] assms)

lemma tray_room:
  assumes "tray_inv t b ws" "current_call p (ws p) = Add_item t" "worker_phase (ws p) = Critical"
  shows "EMPTY \<in> set (items b)"
proof -
  have "1 \<le> procs_at (adding t {Has_token, Critical}) ws"
    by (rule procs_at_ge1 [of _ p]) (simp add: adding_def assms)
  then have "0 < empty_slots b" using assms(1) by (simp add: tray_inv_def)
  then show ?thesis by (simp only: empty_slots_def count_if_pos) simp
qed

lemma tray_dish:
  assumes "tray_inv t b ws" "current_call p (ws p) = Remove_item t" "worker_phase (ws p) = Critical"
  shows "item_type t \<in> set (items b)"
proof -
  have "1 \<le> procs_at (removing t {Has_token, Critical}) ws"
    by (rule procs_at_ge1 [of _ p]) (simp add: removing_def assms)
  then have "0 < count_dishes b" using assms(1) by (simp add: tray_inv_def)
  then have "\<exists>x \<in> set (items b). x \<noteq> EMPTY" by (simp only: count_dishes_def count_if_pos)
  then show ?thesis using assms(1) by (auto simp: tray_inv_def)
qed

lemma add_scan_counts:
  assumes "EMPTY \<in> set (items b)"
  shows "Suc (empty_slots (b\<lparr>items := add_scan (item_type t) (items b)\<rparr>)) = empty_slots b"
    and "count_dishes (b\<lparr>items := add_scan (item_type t) (items b)\<rparr>) = Suc (count_dishes b)"
  using tray_slots.insert_vacant_count [OF assms] tray_slots.insert_occupied_count [OF assms]
  by (simp_all add: empty_slots_def count_dishes_def)

lemma remove_scan_counts:
  assumes "item_type t \<in> set (items b)"
  shows "empty_slots (b\<lparr>items := remove_scan (item_type t) (items b)\<rparr>) = Suc (empty_slots b)"
    and "Suc (count_dishes (b\<lparr>items := remove_scan (item_type t) (items b)\<rparr>)) = count_dishes b"
  using tray_slots.clear_vacant_count [OF assms, of t]
    tray_slots.clear_occupied_count [OF assms, of t]
  by (simp_all add: empty_slots_def count_dishes_def)

lemma scan_items:
  "set (add_scan (item_type t) xs) \<subseteq> insert (item_type t) (set xs)"
  "set (remove_scan (item_type t) xs) \<subseteq> insert EMPTY (set xs)"
  using tray_slots.insert_members tray_slots.clear_members by blast+

lemma sem_wait_Some: "sem_wait v = Some v' \<longleftrightarrow> v = Suc v'"
  by (auto simp: sem_wait_def)

fun_cases add_item_Some: "add_item k ph b = Some r"
fun_cases remove_item_Some: "remove_item k ph b = Some r"

lemma tray_inv_add:
  assumes inv: "tray_inv t b ws" and call: "current_call p (ws p) = Add_item t"
    and step: "add_item (item_type t) (worker_phase (ws p)) b = Some (ph, b')"
  shows "tray_inv t b' (ws(p := advance (ws p) ph))"
proof (cases "worker_phase (ws p)")
  case Outside
  then show ?thesis using step inv add_moves [where ws = ws and p = p and ph = ph, OF call]
    by (auto simp: tray_inv_def sem_wait_Some empty_slots_def count_dishes_def)
next
  case Has_token
  then show ?thesis using step inv add_moves [where ws = ws and p = p and ph = ph, OF call]
    by (auto simp: tray_inv_def sem_wait_Some empty_slots_def count_dishes_def)
next
  case Critical
  note counts = add_scan_counts [OF tray_room [OF inv call Critical], of t]
  have "set (add_scan (item_type t) (items b)) \<subseteq> {EMPTY, item_type t}"
    using scan_items(1) [of t "items b"] inv by (auto simp: tray_inv_def)
  then show ?thesis using step inv counts add_moves [where ws = ws and p = p and ph = ph, OF call] Critical
    by (auto simp: tray_inv_def tray_slots.insert_length)
next
  case Scanned
  then show ?thesis using step inv add_moves [where ws = ws and p = p and ph = ph, OF call]
    by (auto simp: tray_inv_def sem_post_def empty_slots_def count_dishes_def)
next
  case Released
  then show ?thesis using step inv add_moves [where ws = ws and p = p and ph = ph, OF call]
    by (auto simp: tray_inv_def sem_post_def empty_slots_def count_dishes_def)
qed


lemma tray_inv_remove:
  assumes inv: "tray_inv t b ws" and call: "current_call p (ws p) = Remove_item t"
    and step: "remove_item (item_type t) (worker_phase (ws p)) b = Some (ph, b')"
  shows "tray_inv t b' (ws(p := advance (ws p) ph))"
proof (cases "worker_phase (ws p)")
  case Outside
  then show ?thesis using step inv remove_moves [where ws = ws and p = p and ph = ph, OF call]
    by (auto simp: tray_inv_def sem_wait_Some empty_slots_def count_dishes_def)
next
  case Has_token
  then show ?thesis using step inv remove_moves [where ws = ws and p = p and ph = ph, OF call]
    by (auto simp: tray_inv_def sem_wait_Some empty_slots_def count_dishes_def)
next
  case Critical
  note counts = remove_scan_counts [OF tray_dish [OF inv call Critical]]
  have "set (remove_scan (item_type t) (items b)) \<subseteq> {EMPTY, item_type t}"
    using scan_items(2) [of t "items b"] inv by (auto simp: tray_inv_def)
  then show ?thesis using step inv counts remove_moves [where ws = ws and p = p and ph = ph, OF call] Critical
    by (auto simp: tray_inv_def tray_slots.clear_length)
next
  case Scanned
  then show ?thesis using step inv remove_moves [where ws = ws and p = p and ph = ph, OF call]
    by (auto simp: tray_inv_def sem_post_def empty_slots_def count_dishes_def)
next
  case Released
  then show ?thesis using step inv remove_moves [where ws = ws and p = p and ph = ph, OF call]
    by (auto simp: tray_inv_def sem_post_def empty_slots_def count_dishes_def)
qed

lemma proc_step_Some:
  assumes "proc_step p s = Some s'"
  defines "t \<equiv> call_tray (current_call p (workers s p))"
  obtains ph b where
    "call_step (current_call p (workers s p)) (worker_phase (workers s p)) (trays s t) = Some (ph, b)"
    "s' = s\<lparr>trays := (trays s)(t := b), workers := (workers s)(p := advance (workers s p) ph)\<rparr>"
  using assms by (auto simp: proc_step_def Let_def)

lemma call_step_inv:
  assumes "tray_inv (call_tray c) b ws" "current_call p (ws p) = c"
    "call_step c (worker_phase (ws p)) b = Some (ph, b')"
  shows "tray_inv (call_tray c) b' (ws(p := advance (ws p) ph))"
proof (cases c)
  case (Add_item t)
  have i: "tray_inv t b ws" using assms(1) unfolding Add_item call_tray.simps .
  have c: "current_call p (ws p) = Add_item t" using assms(2) unfolding Add_item .
  have st: "add_item (item_type t) (worker_phase (ws p)) b = Some (ph, b')"
    using assms(3) unfolding Add_item call_step.simps .
  show ?thesis
    unfolding Add_item call_tray.simps by (rule tray_inv_add [of t b ws p ph b', OF i c st])
next
  case (Remove_item t)
  have i: "tray_inv t b ws" using assms(1) unfolding Remove_item call_tray.simps .
  have c: "current_call p (ws p) = Remove_item t" using assms(2) unfolding Remove_item .
  have st: "remove_item (item_type t) (worker_phase (ws p)) b = Some (ph, b')"
    using assms(3) unfolding Remove_item call_step.simps .
  show ?thesis
    unfolding Remove_item call_tray.simps by (rule tray_inv_remove [of t b ws p ph b', OF i c st])
qed

lemma kitchen_inv_step:
  assumes "kitchen_step s s'" "kitchen_inv s"
  shows "kitchen_inv s'"
proof -
  obtain p where p: "proc_step p s = Some s'" using assms(1) by (auto elim: kitchen_stepE)
  define c where "c = current_call p (workers s p)"
  obtain ph b where call: "call_step c (worker_phase (workers s p)) (trays s (call_tray c)) = Some (ph, b)"
    and s': "s' = s\<lparr>trays := (trays s)(call_tray c := b),
      workers := (workers s)(p := advance (workers s p) ph)\<rparr>"
    using proc_step_Some [OF p] unfolding c_def by blast
  have "tray_inv t (trays s' t) (workers s')" for t
  proof (cases "t = call_tray c")
    case True
    have "tray_inv (call_tray c) (trays s (call_tray c)) (workers s)"
      using assms(2) by (simp only: kitchen_inv_def)
    then have "tray_inv (call_tray c) b ((workers s)(p := advance (workers s p) ph))"
      using call_step_inv [where p = p and ws = "workers s" and c = c] call c_def by metis
    then show ?thesis by (simp add: s' True)
  next
    case False
    then show ?thesis
      using tray_inv_other [of t "trays s t" "workers s" p ph] assms(2)
      by (simp add: s' kitchen_inv_def c_def)
  qed
  then show ?thesis by (simp add: kitchen_inv_def)
qed

lemma nobody_at: "(\<forall>p. \<not> P p (f p)) \<Longrightarrow> procs_at P f = 0"
  by (simp add: procs_at_none)

lemma kitchen_inv_init: "kitchen_inv init_kitchen"
  by (simp add: kitchen_inv_def tray_inv_def empty_slots_def count_dishes_def nobody_at at_defs
      init_kitchen_def init_buffer_def BUFFER_SIZE_def)

lemma kitchen_invD: "kitchen_inv s \<Longrightarrow> tray_inv t (trays s t) (workers s)"
  by (simp add: kitchen_inv_def)

lemma tray_mutex: "tray_inv t b ws \<Longrightarrow> sem_mutex b + procs_at (in_critical t) ws = 1"
  by (simp add: tray_inv_def)

interpretation kitchen: inductive_invariant "\<lambda>s. s = init_kitchen" kitchen_step kitchen_inv
  by unfold_locales (auto intro: kitchen_inv_init kitchen_inv_step)


section \<open>The abstract restaurant: two bounded counters\<close>

text \<open>
  What the two trays promise: a tray holds between 0 and 10 dishes, a chef adds one when there is
  room, a customer takes one when there is one.
\<close>

inductive spec_step :: "(tray \<Rightarrow> nat) \<Rightarrow> (tray \<Rightarrow> nat) \<Rightarrow> bool" where
  spec_idle: "spec_step n n"
| spec_add: "n t < BUFFER_SIZE \<Longrightarrow> spec_step n (n(t := Suc (n t)))"
| spec_take: "0 < n t \<Longrightarrow> spec_step n (n(t := n t - 1))"

definition dishes :: "kitchen \<Rightarrow> tray \<Rightarrow> nat" where
  "dishes s = (\<lambda>t. count_dishes (trays s t))"

lemma slots_total: "tray_inv t b ws \<Longrightarrow> empty_slots b + count_dishes b = BUFFER_SIZE"
  using count_if_compl [of "\<lambda>x. x = EMPTY" "items b"]
  by (simp add: tray_inv_def empty_slots_def count_dishes_def)

lemma call_step_dishes:
  assumes "tray_inv (call_tray c) b ws" "current_call p (ws p) = c"
    "call_step c (worker_phase (ws p)) b = Some (ph, b')"
  shows "count_dishes b' = count_dishes b \<or>
    (count_dishes b < BUFFER_SIZE \<and> count_dishes b' = Suc (count_dishes b)) \<or>
    (0 < count_dishes b \<and> count_dishes b' = count_dishes b - 1)"
proof (cases c)
  case (Add_item t)
  show ?thesis
  proof (cases "worker_phase (ws p) = Critical")
    case True
    have "EMPTY \<in> set (items b)" using tray_room [of t b ws p] assms Add_item True by simp
    then show ?thesis
      using add_scan_counts [of b t] slots_total [OF assms(1)] assms(3) Add_item True by auto
  next
    case False
    then show ?thesis using assms(3) Add_item
      by (cases "worker_phase (ws p)") (auto simp: count_dishes_def)
  qed
next
  case (Remove_item t)
  show ?thesis
  proof (cases "worker_phase (ws p) = Critical")
    case True
    have "item_type t \<in> set (items b)" using tray_dish [of t b ws p] assms Remove_item True by simp
    then show ?thesis
      using remove_scan_counts [of t b] assms(3) Remove_item True by auto
  next
    case False
    then show ?thesis using assms(3) Remove_item
      by (cases "worker_phase (ws p)") (auto simp: count_dishes_def)
  qed
qed

lemma kitchen_step_spec:
  assumes "kitchen_step s s'" "kitchen_inv s"
  shows "spec_step (dishes s) (dishes s')"
proof -
  obtain p where p: "proc_step p s = Some s'" using assms(1) by (auto elim: kitchen_stepE)
  define c where "c = current_call p (workers s p)"
  obtain ph b where call: "call_step c (worker_phase (workers s p)) (trays s (call_tray c)) = Some (ph, b)"
    and s': "s' = s\<lparr>trays := (trays s)(call_tray c := b),
      workers := (workers s)(p := advance (workers s p) ph)\<rparr>"
    using proc_step_Some [OF p] unfolding c_def by blast
  let ?t = "call_tray c"
  have d: "dishes s' = (dishes s)(?t := count_dishes b)"
    by (auto simp: dishes_def s')
  have "tray_inv ?t (trays s ?t) (workers s)" using assms(2) by (simp add: kitchen_inv_def)
  from call_step_dishes [OF this _ call] have "count_dishes b = dishes s ?t \<or>
    (dishes s ?t < BUFFER_SIZE \<and> count_dishes b = Suc (dishes s ?t)) \<or>
    (0 < dishes s ?t \<and> count_dishes b = dishes s ?t - 1)"
    by (simp add: c_def dishes_def)
  then show ?thesis
    using spec_idle [of "dishes s"] spec_add [of "dishes s" ?t] spec_take [of "dishes s" ?t]
    unfolding d by auto
qed

section \<open>Properties\<close>

text \<open>Running a given interleaving, for the concrete instances.\<close>

fun run_procs :: "proc list \<Rightarrow> kitchen \<Rightarrow> kitchen option" where
  "run_procs [] s = Some s"
| "run_procs (p # ps) s = Option.bind (proc_step p s) (run_procs ps)"

lemma run_procs_reach: "kitchen_reach s \<Longrightarrow> run_procs ps s = Some t \<Longrightarrow> kitchen_reach t"
proof (induction ps arbitrary: s)
  case Nil
  then show ?case by simp
next
  case (Cons p ps)
  then obtain u where "proc_step p s = Some u" "run_procs ps u = Some t"
    by (auto simp: bind_eq_Some_conv)
  then show ?case using Cons by (meson proc_moves reach_step)
qed

lemma init_reach: "kitchen_reach init_kitchen"
  by (rule reach_init) simp

text \<open>The state in which Donatello has entered the critical section of \<^verbatim>\<open>add_item\<close>.\<close>

definition donatello_critical :: kitchen where
  "donatello_critical = init_kitchen\<lparr>
     trays := (trays init_kitchen)(Non_vegan := init_buffer\<lparr>sem_empty := 9, sem_mutex := 0\<rparr>),
     workers := (workers init_kitchen)(Donatello := \<lparr>call_no = 0, worker_phase = Critical\<rparr>)\<rparr>"

lemmas run_simps = proc_step_def current_call_def scripts advance_def sem_wait_def sem_post_def
  init_kitchen_def init_buffer_def BUFFER_SIZE_def Let_def

lemma donatello_critical_run:
  "run_procs [Donatello, Donatello] init_kitchen = Some donatello_critical"
  by (simp add: run_simps donatello_critical_def fun_eq_iff)

lemmas donatello_critical_reach = run_procs_reach [OF init_reach donatello_critical_run]


lemma donatello_critical_call:
  "current_call Donatello (workers donatello_critical Donatello) = Add_item Non_vegan"
  "worker_phase (workers donatello_critical Donatello) = Critical"
  by (simp_all add: donatello_critical_def current_call_def scripts)

text \<open>The state in which Customer 1 is about to scan the tray that Donatello has filled.\<close>

definition customer1_critical :: kitchen where
  "customer1_critical = init_kitchen\<lparr>
     trays := (trays init_kitchen)(Non_vegan := \<lparr>items = NON_VEGAN # replicate 9 EMPTY,
       sem_mutex = 0, sem_full = 0, sem_empty = 9\<rparr>),
     workers := (workers init_kitchen)(Donatello := \<lparr>call_no = 1, worker_phase = Outside\<rparr>,
       Customer1 := \<lparr>call_no = 0, worker_phase = Critical\<rparr>)\<rparr>"

lemma customer1_critical_reach: "kitchen_reach customer1_critical"
proof (rule run_procs_reach [OF init_reach])
  show "run_procs [Donatello, Donatello, Donatello, Donatello, Donatello, Customer1, Customer1]
      init_kitchen = Some customer1_critical"
    by (simp add: run_simps customer1_critical_def fun_eq_iff numeral_eq_Suc)
qed

lemma customer1_critical_call:
  "current_call Customer1 (workers customer1_critical Customer1) = Remove_item Non_vegan"
  "worker_phase (workers customer1_critical Customer1) = Critical"
  by (simp_all add: customer1_critical_def current_call_def scripts)

text \<open>
  C3: mutual exclusion.  No two processes are between \<^verbatim>\<open>sem_wait(&mutex)\<close> and
  \<^verbatim>\<open>sem_post(&mutex)\<close> of the same tray, in any interleaving.
\<close>

theorem tray_mutual_exclusion:
  assumes "kitchen_reach s" "in_critical t p (workers s p)" "in_critical t q (workers s q)"
  shows "p = q"
proof (rule ccontr)
  assume "p \<noteq> q"
  then have "2 \<le> procs_at (in_critical t) (workers s)"
    using assms(2,3) by (rule procs_at_ge2)
  moreover have "procs_at (in_critical t) (workers s) \<le> 1"
    using tray_mutex [OF kitchen_invD [OF kitchen.holds_reachable [OF assms(1)]]]
    by (metis le_add2)
  ultimately show False by simp
qed

theorem tray_mutual_exclusion_witness:
  "in_critical Non_vegan Donatello (workers donatello_critical Donatello) \<and>
    \<not> in_critical Non_vegan Customer1 (workers donatello_critical Customer1)"
proof -
  have "in_critical Non_vegan Donatello (workers donatello_critical Donatello)"
    by (simp add: in_critical_def donatello_critical_call)
  then show ?thesis
    using tray_mutual_exclusion [OF donatello_critical_reach, of Non_vegan Donatello Customer1]
    by blast
qed

text \<open>
  C23: conservation.  In every reachable state the two counting semaphores of a tray and the
  processes that hold a token of it add up to the ten slots, the tray holds ten slots with
  nothing but dishes of its own kind, and the number of dishes is \<^verbatim>\<open>full\<close> corrected by the calls
  that are under way.
\<close>

theorem tray_conservation:
  assumes "kitchen_reach s"
  shows "length (items (trays s t)) = BUFFER_SIZE \<and>
    set (items (trays s t)) \<subseteq> {EMPTY, item_type t} \<and>
    sem_empty (trays s t) + sem_full (trays s t)
      + procs_at (adding t {Has_token, Critical}) (workers s)
      + procs_at (adding t {Scanned, Released}) (workers s)
      + procs_at (removing t {Has_token, Critical}) (workers s)
      + procs_at (removing t {Scanned, Released}) (workers s) = BUFFER_SIZE \<and>
    count_dishes (trays s t) = sem_full (trays s t)
      + procs_at (removing t {Has_token, Critical}) (workers s)
      + procs_at (adding t {Scanned, Released}) (workers s)"
proof -
  have "tray_inv t (trays s t) (workers s)"
    by (rule kitchen_invD [OF kitchen.holds_reachable [OF assms]])
  then show ?thesis using slots_total [of t "trays s t" "workers s"] by (simp add: tray_inv_def)
qed

theorem tray_conservation_witness:
  "count_dishes (trays donatello_critical Non_vegan) = 0"
  using tray_conservation [OF donatello_critical_reach, of Non_vegan]
  by (simp add: donatello_critical_def init_buffer_def count_dishes_def BUFFER_SIZE_def)

text \<open>
  No dish is dropped.  Whenever a chef runs the scan of \<^verbatim>\<open>add_item\<close>, there is an empty slot:
  the scan puts the dish there, changes nothing else, and the tray holds one dish more.
\<close>

theorem add_item_never_drops:
  assumes "kitchen_reach s" "current_call p (workers s p) = Add_item t"
    "worker_phase (workers s p) = Critical"
  shows "\<exists>s' i. proc_step p s = Some s' \<and> i < BUFFER_SIZE \<and> items (trays s t) ! i = EMPTY \<and>
    items (trays s' t) = (items (trays s t))[i := item_type t] \<and>
    dishes s' = (dishes s)(t := Suc (dishes s t))"
proof -
  have inv: "tray_inv t (trays s t) (workers s)"
    by (rule kitchen_invD [OF kitchen.holds_reachable [OF assms(1)]])
  note room = tray_room [where ws = "workers s" and p = p, OF inv assms(2,3)]
  from tray_slots.insert_at [OF room, of t] obtain i where "i < BUFFER_SIZE"
    "items (trays s t) ! i = EMPTY"
    "add_scan (item_type t) (items (trays s t)) = (items (trays s t))[i := item_type t]"
    using inv by (auto simp: tray_inv_def)
  then show ?thesis using add_scan_counts(2) [OF room, of t] assms(2,3)
    by (auto simp: proc_step_def dishes_def fun_eq_iff)
qed

theorem add_item_never_drops_witness:
  "\<exists>s' i. proc_step Donatello donatello_critical = Some s' \<and> i < BUFFER_SIZE \<and>
    items (trays donatello_critical Non_vegan) ! i = EMPTY \<and>
    items (trays s' Non_vegan)
      = (items (trays donatello_critical Non_vegan))[i := item_type Non_vegan] \<and>
    dishes s' = (dishes donatello_critical)(Non_vegan := Suc (dishes donatello_critical Non_vegan))"
  by (rule add_item_never_drops [OF donatello_critical_reach donatello_critical_call])

text \<open>
  No phantom dish.  Whenever a customer runs the scan of \<^verbatim>\<open>remove_item\<close>, the tray holds a dish
  of the wanted kind: the scan takes exactly that one.
\<close>

theorem remove_item_never_starves:
  assumes "kitchen_reach s" "current_call p (workers s p) = Remove_item t"
    "worker_phase (workers s p) = Critical"
  shows "\<exists>s' i. proc_step p s = Some s' \<and> i < BUFFER_SIZE \<and>
    items (trays s t) ! i = item_type t \<and>
    items (trays s' t) = (items (trays s t))[i := EMPTY] \<and>
    Suc (dishes s' t) = dishes s t"
proof -
  have inv: "tray_inv t (trays s t) (workers s)"
    by (rule kitchen_invD [OF kitchen.holds_reachable [OF assms(1)]])
  note dish = tray_dish [where ws = "workers s" and p = p, OF inv assms(2,3)]
  from tray_slots.clear_at [OF dish, of t] obtain i where "i < BUFFER_SIZE"
    "items (trays s t) ! i = item_type t"
    "remove_scan (item_type t) (items (trays s t)) = (items (trays s t))[i := EMPTY]"
    using inv by (auto simp: tray_inv_def)
  then show ?thesis using remove_scan_counts(2) [OF dish] assms(2,3)
    by (auto simp: proc_step_def dishes_def)
qed

theorem remove_item_never_starves_witness:
  "\<exists>s' i. proc_step Customer1 customer1_critical = Some s' \<and> i < BUFFER_SIZE \<and>
    items (trays customer1_critical Non_vegan) ! i = item_type Non_vegan \<and>
    items (trays s' Non_vegan) = (items (trays customer1_critical Non_vegan))[i := EMPTY] \<and>
    Suc (dishes s' Non_vegan) = dishes customer1_critical Non_vegan"
  by (rule remove_item_never_starves [OF customer1_critical_reach customer1_critical_call])

lemma blocked_outside:
  assumes "kitchen_inv s" "\<forall>p. proc_step p s = None"
  shows "worker_phase (workers s p) = Outside"
proof (rule ccontr)
  let ?t = "call_tray (current_call p (workers s p))"
  assume "worker_phase (workers s p) \<noteq> Outside"
  then have "worker_phase (workers s p) = Has_token" "sem_mutex (trays s ?t) = 0"
    using assms(2) [rule_format, of p]
    by (cases "worker_phase (workers s p)"; cases "current_call p (workers s p)";
        auto simp: proc_step_def sem_wait_def split: if_splits)+
  then have "procs_at (in_critical ?t) (workers s) = 1"
    using tray_mutex [OF kitchen_invD [OF assms(1)], of ?t] by simp
  then obtain q where q: "in_critical ?t q (workers s q)"
    by (metis procs_at_none zero_neq_one)
  then show False
    using assms(2) [rule_format, of q]
    by (cases "current_call q (workers s q)") (auto simp: in_critical_def proc_step_def Let_def)
qed

text \<open>
  C4: no deadlock.  In every reachable state some process other than the logging parent can move.
\<close>

theorem kitchen_no_deadlock:
  assumes "kitchen_reach s"
  shows "\<exists>p s'. proc_step p s = Some s' \<and> kitchen_step s s'"
proof (rule ccontr)
  assume "\<not> ?thesis"
  then have blocked: "\<forall>p. proc_step p s = None"
    by (meson not_Some_eq proc_moves)
  have inv: "kitchen_inv s" by (rule kitchen.holds_reachable [OF assms])
  note out = blocked_outside [OF inv blocked]
  let ?b = "trays s Non_vegan"
  have "sem_empty ?b = 0"
    using blocked [rule_format, of Donatello] out
    by (simp add: proc_step_def current_call_def scripts sem_wait_def split: if_splits)
  moreover have "sem_full ?b = 0"
    using blocked [rule_format, of Customer1] out
    by (simp add: proc_step_def current_call_def scripts sem_wait_def split: if_splits)
  moreover have "procs_at (adding Non_vegan phs) (workers s) = 0"
    "procs_at (removing Non_vegan phs) (workers s) = 0" if "Outside \<notin> phs" for phs
    using that by (simp_all add: procs_at_none at_defs out)
  ultimately show False
    using tray_conservation [OF assms, of Non_vegan] by (simp add: BUFFER_SIZE_def)
qed

theorem kitchen_no_deadlock_witness:
  "\<exists>p s'. proc_step p donatello_critical = Some s' \<and> kitchen_step donatello_critical s'"
  by (rule kitchen_no_deadlock [OF donatello_critical_reach])

text \<open>
  C5: refinement.  The restaurant, with all its semaphore steps, implements the two bounded
  counters: every reachable state shows a reachable state of the abstract restaurant.
\<close>

theorem kitchen_refines_counters:
  assumes "kitchen_reach s"
  shows "reach (\<lambda>n. n = (\<lambda>_. 0)) spec_step (dishes s)"
  using assms
proof (induction rule: reach.induct)
  case (reach_init s)
  then show ?case
    by (intro reach.reach_init)
      (simp add: fun_eq_iff dishes_def init_kitchen_def init_buffer_def count_dishes_def)
next
  case (reach_step s t)
  have "spec_step (dishes s) (dishes t)"
    by (rule kitchen_step_spec [OF reach_step.hyps(2) kitchen.holds_reachable [OF reach_step.hyps(1)]])
  then show ?case by (rule reach.reach_step [OF reach_step.IH])
qed

theorem kitchen_refines_counters_witness:
  "reach (\<lambda>n. n = (\<lambda>_. 0)) spec_step (dishes customer1_critical)"
  by (rule kitchen_refines_counters [OF customer1_critical_reach])

text \<open>
  The scans never fail.  Whenever a chef runs the scan of \<^verbatim>\<open>add_item\<close> there is an empty slot, and
  the dish lands in it and is counted; whenever a customer runs the scan of \<^verbatim>\<open>remove_item\<close> the tray
  holds a dish of the right kind, and exactly one is taken.
\<close>

theorem scans_never_fail:
  assumes "kitchen_reach s" "worker_phase (workers s p) = Critical"
  shows "case current_call p (workers s p) of
      Add_item t \<Rightarrow> \<exists>s' i. proc_step p s = Some s' \<and> i < BUFFER_SIZE \<and>
        items (trays s t) ! i = EMPTY \<and> items (trays s' t) = (items (trays s t))[i := item_type t] \<and>
        dishes s' = (dishes s)(t := Suc (dishes s t))
    | Remove_item t \<Rightarrow> \<exists>s' i. proc_step p s = Some s' \<and> i < BUFFER_SIZE \<and>
        items (trays s t) ! i = item_type t \<and> items (trays s' t) = (items (trays s t))[i := EMPTY] \<and>
        Suc (dishes s' t) = dishes s t"
  using add_item_never_drops [OF assms(1) _ assms(2)] remove_item_never_starves [OF assms(1) _ assms(2)]
  by (cases "current_call p (workers s p)") simp_all

theorem scans_never_fail_witness:
  "\<exists>s' i. proc_step Customer1 customer1_critical = Some s' \<and> i < BUFFER_SIZE \<and>
    items (trays customer1_critical Non_vegan) ! i = item_type Non_vegan"
  using scans_never_fail [OF customer1_critical_reach customer1_critical_call(2)]
  unfolding customer1_critical_call(1) by auto

end
