(* ===== verification/Restaurant_Log.thy ===== *)
theory Restaurant_Log
  imports Restaurant C_Library
begin

text \<open>
  The parent process of \<^verbatim>\<open>10-ipc-sem/main.c\<close>, which reports the two trays every ten seconds.  It takes
  no semaphore: \<^verbatim>\<open>print_buffer_state\<close> reads the twenty slots one by one while chefs and customers work,
  so each read is a step of its own here.
\<close>

section \<open>The logging loop\<close>

definition status_line :: "nat \<Rightarrow> nat \<Rightarrow> bytes" where
  "status_line vegan_count non_vegan_count = ''[STATUS] Vegan tray: '' @ show_nat vegan_count @
     ''/10 | Non-vegan tray: '' @ show_nat non_vegan_count @ ''/10'' @ [CHR 0x0A]"

text \<open>
  The local variables of \<^verbatim>\<open>print_buffer_state\<close>; \<open>second\<close> says that slot \<open>log_i\<close> of the vegan tray has been
  read and that of the other tray has not.
\<close>

record logger =
  log_i :: nat
  second :: bool
  vegan_count :: nat
  non_vegan_count :: nat
  reported :: "bytes list"

definition log_begin :: logger where
  "log_begin = \<lparr>log_i = 0, second = False, vegan_count = 0, non_vegan_count = 0, reported = []\<rparr>"

definition log_move :: "kitchen \<Rightarrow> logger \<Rightarrow> logger" where
  "log_move k g =
     (if log_i g < BUFFER_SIZE then
        (if \<not> second g
         then g\<lparr>second := True, vegan_count := vegan_count g +
           (if items (trays k Vegan) ! log_i g \<noteq> EMPTY then 1 else 0)\<rparr>
         else g\<lparr>second := False, log_i := log_i g + 1, non_vegan_count := non_vegan_count g +
           (if items (trays k Non_vegan) ! log_i g \<noteq> EMPTY then 1 else 0)\<rparr>)
      else log_begin\<lparr>reported := reported g @ [status_line (vegan_count g) (non_vegan_count g)]\<rparr>)"

inductive restaurant_step :: "kitchen \<times> logger \<Rightarrow> kitchen \<times> logger \<Rightarrow> bool" where
  worker_moves: "kitchen_step k k' \<Longrightarrow> restaurant_step (k, g) (k', g)"
| logger_moves: "restaurant_step (k, g) (k, log_move k g)"

abbreviation restaurant_reach :: "kitchen \<times> logger \<Rightarrow> bool" where
  "restaurant_reach \<equiv> reach (\<lambda>x. x = (init_kitchen, log_begin)) restaurant_step"

section \<open>Invariant\<close>

text \<open>The counts are those of slots read so far, and what was printed is in range.\<close>

definition log_ok :: "logger \<Rightarrow> bool" where
  "log_ok g \<longleftrightarrow> log_i g \<le> BUFFER_SIZE \<and> vegan_count g \<le> log_i g + of_bool (second g) \<and>
     non_vegan_count g \<le> log_i g \<and> (second g \<longrightarrow> log_i g < BUFFER_SIZE) \<and>
     (\<forall>l \<in> set (reported g). \<exists>v n. v \<le> BUFFER_SIZE \<and> n \<le> BUFFER_SIZE \<and> l = status_line v n)"

lemma status_in_range:
  "v \<le> b \<Longrightarrow> n \<le> b \<Longrightarrow> \<exists>v' \<le> b. \<exists>n' \<le> b. status_line v n = status_line v' n'"
  by blast

lemma log_ok_move: "log_ok g \<Longrightarrow> log_ok (log_move k g)"
  by (auto simp: log_ok_def log_move_def log_begin_def intro: status_in_range)

definition restaurant_ok :: "kitchen \<times> logger \<Rightarrow> bool" where
  "restaurant_ok x \<longleftrightarrow> kitchen_reach (fst x) \<and> log_ok (snd x)"

lemma restaurant_ok_step: "restaurant_step x y \<Longrightarrow> restaurant_ok x \<Longrightarrow> restaurant_ok y"
  by (induction rule: restaurant_step.induct) (auto simp: restaurant_ok_def log_ok_move intro: reach_step)

interpretation restaurant: inductive_invariant "\<lambda>x. x = (init_kitchen, log_begin)" restaurant_step restaurant_ok
  by unfold_locales
    (simp add: restaurant_ok_def log_ok_def log_begin_def reach_init, erule (1) restaurant_ok_step)

section \<open>The loop without interference\<close>

lemma log_reads:
  assumes "length (items (trays k Vegan)) = BUFFER_SIZE" "length (items (trays k Non_vegan)) = BUFFER_SIZE"
    and "n \<le> BUFFER_SIZE"
  shows "(log_move k ^^ (2 * n)) log_begin = \<lparr>log_i = n, second = False,
    vegan_count = count_if (\<lambda>x. \<not> x = EMPTY) (take n (items (trays k Vegan))),
    non_vegan_count = count_if (\<lambda>x. \<not> x = EMPTY) (take n (items (trays k Non_vegan))), reported = []\<rparr>"
  using assms(3)
proof (induction n)
  case 0
  then show ?case by (simp add: log_begin_def)
next
  case (Suc n)
  have "(log_move k ^^ (2 * Suc n)) log_begin = log_move k (log_move k ((log_move k ^^ (2 * n)) log_begin))"
    by simp
  with Suc show ?case using assms(1,2) by (simp add: log_move_def take_Suc_conv_app_nth)
qed

section \<open>Properties\<close>

text \<open>
  The status lines.  In every interleaving the parent disturbs nobody, and every line it prints
  shows numbers between 0 and 10 for both trays; and if nobody moves while it reads, the line shows
  the dishes on the trays.
\<close>

theorem status_lines_in_range:
  assumes "restaurant_reach (k, g)"
  shows "kitchen_reach k \<and>
    (\<forall>l \<in> set (reported g). \<exists>v n. v \<le> 10 \<and> n \<le> 10 \<and> l = status_line v n) \<and>
    reported ((log_move k ^^ 21) log_begin) =
      [case print_buffer_state (trays k Vegan) (trays k Non_vegan) of (v, n) \<Rightarrow> status_line v n]"
proof -
  have ok: "kitchen_reach k" "log_ok g"
    using restaurant.holds_reachable [OF assms] by (simp_all add: restaurant_ok_def)
  then have "length (items (trays k t)) = BUFFER_SIZE" for t
    using kitchen_invD [OF kitchen.holds_reachable, of k t] by (simp add: tray_inv_def)
  from log_reads [OF this this order_refl] this have
    "(log_move k ^^ 20) log_begin = \<lparr>log_i = BUFFER_SIZE, second = False,
      vegan_count = count_dishes (trays k Vegan), non_vegan_count = count_dishes (trays k Non_vegan),
      reported = []\<rparr>"
    by (simp add: count_dishes_def BUFFER_SIZE_def)
  moreover have "(log_move k ^^ 21) log_begin = log_move k ((log_move k ^^ 20) log_begin)"
    by (simp add: eval_nat_numeral)
  ultimately have "reported ((log_move k ^^ 21) log_begin) =
      [case print_buffer_state (trays k Vegan) (trays k Non_vegan) of (v, n) \<Rightarrow> status_line v n]"
    by (simp add: log_move_def log_begin_def print_buffer_state_def)
  then show ?thesis using ok by (simp add: log_ok_def BUFFER_SIZE_def)
qed

theorem status_lines_in_range_witness:
  "reported ((log_move init_kitchen ^^ 21) log_begin) = [status_line 0 0]"
  using status_lines_in_range [OF reach_init, of init_kitchen log_begin]
  by (simp add: print_buffer_state_def init_kitchen_def init_buffer_def count_dishes_def)

end
