(* ===== verification/Kernel.thy ===== *)
theory Kernel
  imports C_Library
begin

text \<open>
  What the kernel modules share.  The kernel itself is not part of the repository: every call a
  module makes is recorded as a \<open>kcall\<close> together with the answer the kernel gave, the answers are
  inputs of the model, and \<open>owned\<close> reads from a sequence of calls which resources the module holds,
  as the documentation of the calls says.  A call that releases a resource the module does not
  hold makes \<open>owned\<close> undefined.
\<close>

section \<open>Error codes and pointers\<close>

definition EFAULT :: int where "EFAULT = 14"
definition EINVAL :: int where "EINVAL = 22"
definition ENOMEM :: int where "ENOMEM = 12"
definition ENODEV :: int where "ENODEV = 19"

lemmas errno_defs = EFAULT_def EINVAL_def ENOMEM_def ENODEV_def

text \<open>A pointer the kernel returns: \<open>NULL\<close>, an object, or an error code in a pointer.\<close>

datatype kptr = Null_ptr | Ok_ptr | Err_ptr int

fun IS_ERR :: "kptr \<Rightarrow> bool" where
  "IS_ERR (Err_ptr e) = True"
| "IS_ERR _ = False"

fun PTR_ERR :: "kptr \<Rightarrow> int" where
  "PTR_ERR (Err_ptr e) = e"
| "PTR_ERR _ = 0"

text \<open>\<^verbatim>\<open>IS_ERR\<close> holds of the codes from -4095 to -1 only.\<close>

definition ptr_ok :: "kptr \<Rightarrow> bool" where
  "ptr_ok p \<longleftrightarrow> (IS_ERR p \<longrightarrow> -4095 \<le> PTR_ERR p \<and> PTR_ERR p < 0)"

section \<open>Kernel calls and the resources they move\<close>

datatype kresource = Mapping | Chrdev_region | Cdev | Dev_class | Device_node | Gpio_line
  | Lookup_table | Platform_driver | Platform_device

text \<open>
  \<open>Store_state\<close> is not a call but the assignment to the variable that remembers the level of a line.
\<close>

datatype kcall =
    Ioremap kptr | Iounmap
  | Alloc_chrdev_region int | Unregister_chrdev_region
  | Cdev_init | Cdev_add int | Cdev_del
  | Class_create kptr | Class_destroy
  | Device_create kptr | Device_destroy
  | Gpio_request int | Gpio_free | Gpio_direction_output int int | Gpio_set_value int
  | Mutex_init | Mutex_lock | Mutex_unlock
  | Gpiod_set_value int | Store_state int
  | Try_module_get bool | Module_put
  | Readl nat "32 word" | Writel "32 word" nat
  | Add_lookup_table | Remove_lookup_table
  | Devm_kzalloc kptr | Devm_gpiod_get kptr | Set_drvdata
  | Platform_driver_register int | Platform_driver_unregister
  | Platform_device_register kptr | Platform_device_unregister

text \<open>The resource a call acquires, if it succeeded, and the one it gives back.\<close>

fun acquires :: "kcall \<Rightarrow> kresource option" where
  "acquires (Ioremap p) = (if p = Ok_ptr then Some Mapping else None)"
| "acquires (Alloc_chrdev_region r) = (if r = 0 then Some Chrdev_region else None)"
| "acquires (Cdev_add r) = (if r = 0 then Some Cdev else None)"
| "acquires (Class_create p) = (if p = Ok_ptr then Some Dev_class else None)"
| "acquires (Device_create p) = (if p = Ok_ptr then Some Device_node else None)"
| "acquires (Gpio_request r) = (if r = 0 then Some Gpio_line else None)"
| "acquires Add_lookup_table = Some Lookup_table"
| "acquires (Platform_driver_register r) = (if r = 0 then Some Platform_driver else None)"
| "acquires (Platform_device_register p) = (if p = Ok_ptr then Some Platform_device else None)"
| "acquires _ = None"

fun releases :: "kcall \<Rightarrow> kresource option" where
  "releases Iounmap = Some Mapping"
| "releases Unregister_chrdev_region = Some Chrdev_region"
| "releases Cdev_del = Some Cdev"
| "releases Class_destroy = Some Dev_class"
| "releases Device_destroy = Some Device_node"
| "releases Gpio_free = Some Gpio_line"
| "releases Remove_lookup_table = Some Lookup_table"
| "releases Platform_driver_unregister = Some Platform_driver"
| "releases Platform_device_unregister = Some Platform_device"
| "releases _ = None"

text \<open>The resources held after a sequence of calls, the latest first.\<close>

fun owned :: "kresource list \<Rightarrow> kcall list \<Rightarrow> kresource list option" where
  "owned h [] = Some h"
| "owned h (c # cs) = (case acquires c of
     Some r \<Rightarrow> owned (r # h) cs
   | None \<Rightarrow> (case releases c of
       Some r \<Rightarrow> if r \<in> set h then owned (remove1 r h) cs else None
     | None \<Rightarrow> owned h cs))"

lemma owned_append: "owned h (cs @ ds) = Option.bind (owned h cs) (\<lambda>h'. owned h' ds)"
  by (induction h cs rule: owned.induct) (auto split: option.splits)

text \<open>Unwinding in strict reverse order: only the latest resource may be released.\<close>

fun unwinds :: "kresource list \<Rightarrow> kcall list \<Rightarrow> kresource list option" where
  "unwinds h [] = Some h"
| "unwinds h (c # cs) = (case acquires c of
     Some r \<Rightarrow> unwinds (r # h) cs
   | None \<Rightarrow> (case releases c of
       Some r \<Rightarrow> (case h of [] \<Rightarrow> None | x # h' \<Rightarrow> if x = r then unwinds h' cs else None)
     | None \<Rightarrow> unwinds h cs))"

lemma unwinds_append: "unwinds h (cs @ ds) = Option.bind (unwinds h cs) (\<lambda>h'. unwinds h' ds)"
  by (induction h cs rule: unwinds.induct) (auto split: option.splits list.splits)

lemma unwinds_owned: "unwinds h cs = Some h' \<Longrightarrow> owned h cs = Some h'"
  by (induction h cs rule: unwinds.induct) (auto split: option.splits list.splits if_splits)

section \<open>Discipline of locks and mappings\<close>

text \<open>
  A call sequence that ends with the lock free, takes it only when free, and drives a line or a
  register only while it holds the lock.
\<close>

fun guarded :: "bool \<Rightarrow> kcall list \<Rightarrow> bool" where
  "guarded locked [] \<longleftrightarrow> \<not> locked"
| "guarded locked (Mutex_lock # cs) \<longleftrightarrow> \<not> locked \<and> guarded True cs"
| "guarded locked (Mutex_unlock # cs) \<longleftrightarrow> locked \<and> guarded False cs"
| "guarded locked (Writel v off # cs) \<longleftrightarrow> locked \<and> guarded locked cs"
| "guarded locked (Gpio_set_value v # cs) \<longleftrightarrow> locked \<and> guarded locked cs"
| "guarded locked (Gpiod_set_value v # cs) \<longleftrightarrow> locked \<and> guarded locked cs"
| "guarded locked (Store_state v # cs) \<longleftrightarrow> locked \<and> guarded locked cs"
| "guarded locked (c # cs) \<longleftrightarrow> guarded locked cs"

text \<open>Registers are touched only between \<^verbatim>\<open>ioremap\<close> and \<^verbatim>\<open>iounmap\<close>.\<close>

fun mapped_access :: "bool \<Rightarrow> kcall list \<Rightarrow> bool" where
  "mapped_access m [] \<longleftrightarrow> True"
| "mapped_access m (Ioremap p # cs) \<longleftrightarrow> mapped_access (p = Ok_ptr) cs"
| "mapped_access m (Iounmap # cs) \<longleftrightarrow> mapped_access False cs"
| "mapped_access m (Readl off v # cs) \<longleftrightarrow> m \<and> mapped_access m cs"
| "mapped_access m (Writel v off # cs) \<longleftrightarrow> m \<and> mapped_access m cs"
| "mapped_access m (c # cs) \<longleftrightarrow> mapped_access m cs"

section \<open>The answers a character device depends on\<close>

record cdev_answers =
  ans_alloc :: int
  ans_cdev_add :: int
  ans_class :: kptr
  ans_device :: kptr

text \<open>
  The documented answers: an \<open>int\<close> answer is 0 or a code, a pointer of \<^verbatim>\<open>class_create\<close> and
  \<^verbatim>\<open>device_create\<close> is an object or an error code, never NULL.
\<close>

definition cdev_answers_ok :: "'a cdev_answers_scheme \<Rightarrow> bool" where
  "cdev_answers_ok a \<longleftrightarrow> ptr_ok (ans_class a) \<and> ptr_ok (ans_device a) \<and>
     ans_class a \<noteq> Null_ptr \<and> ans_device a \<noteq> Null_ptr"

definition cdev_resources :: "kresource list" where
  "cdev_resources = [Device_node, Dev_class, Cdev, Chrdev_region]"

section \<open>The life of a module\<close>

text \<open>One \<^verbatim>\<open>insmod\<close>, followed by \<^verbatim>\<open>rmmod\<close> if it succeeded.\<close>

definition load_cycle :: "('e \<Rightarrow> int \<times> kcall list) \<Rightarrow> kcall list \<Rightarrow> 'e \<Rightarrow> kcall list" where
  "load_cycle init_fun exit_calls e =
     snd (init_fun e) @ (if fst (init_fun e) = 0 then exit_calls else [])"

text \<open>
  The contract of a module's \<^verbatim>\<open>init\<close> and \<^verbatim>\<open>exit\<close> functions: an \<^verbatim>\<open>init\<close> that fails leaves nothing
  behind, an \<^verbatim>\<open>init\<close> that succeeds holds the module's resources, and \<^verbatim>\<open>exit\<close> gives them back.
\<close>

locale kernel_module =
  fixes answers_ok :: "'e \<Rightarrow> bool"
    and init_fun :: "'e \<Rightarrow> int \<times> kcall list"
    and exit_calls :: "kcall list"
    and resources :: "kresource list"
  assumes failed_init: "answers_ok e \<Longrightarrow> fst (init_fun e) \<noteq> 0 \<Longrightarrow>
      owned [] (snd (init_fun e)) = Some []"
    and loaded_init: "answers_ok e \<Longrightarrow> fst (init_fun e) = 0 \<Longrightarrow>
      owned [] (snd (init_fun e)) = Some resources"
    and exit_releases: "owned resources exit_calls = Some []"
begin

lemma cycle_clean: "answers_ok e \<Longrightarrow> owned [] (load_cycle init_fun exit_calls e) = Some []"
  by (cases "fst (init_fun e) = 0")
    (simp_all add: load_cycle_def owned_append loaded_init exit_releases failed_init)

lemma cycles_clean:
  "list_all answers_ok es \<Longrightarrow> owned [] (concat (map (load_cycle init_fun exit_calls) es)) = Some []"
  by (induction es) (simp_all add: owned_append cycle_clean)

end

section \<open>Copies between user and kernel space\<close>

text \<open>
  \<^verbatim>\<open>copy_to_user\<close> and \<^verbatim>\<open>copy_from_user\<close> return the number of bytes they could not copy.  The model
  takes that number as a function of the bytes to copy; \<open>copies_all\<close> says the user memory is
  accessible.
\<close>

type_synonym user_copy = "bytes \<Rightarrow> nat"

definition copies_all :: user_copy where
  "copies_all = (\<lambda>_. 0)"

end
