(* ===== verification/Char_Device.thy ===== *)
theory Char_Device
  imports Kernel
begin

text \<open>
  The character device of \<^verbatim>\<open>13-char-device/char-device-driver/mydevice.c\<close>: its file operations
  \<^verbatim>\<open>my_open\<close>, \<^verbatim>\<open>my_release\<close>, \<^verbatim>\<open>my_read\<close> and \<^verbatim>\<open>my_write\<close>, and the registration of the device in
  \<^verbatim>\<open>my_init\<close> and \<^verbatim>\<open>my_exit\<close>; also the module of \<^verbatim>\<open>13-char-device/lkm/hello_lkm.c\<close>.
\<close>

section \<open>File operations\<close>

definition greet :: bytes where
  "greet = ''Hello from mydevice!'' @ [CHR 0x0A]"

definition my_open :: int where "my_open = 0"

definition my_release :: int where "my_release = 0"

text \<open>\<open>my_read len ppos\<close>: the return value, the new \<^verbatim>\<open>*ppos\<close> and the bytes put into the user buffer.\<close>

definition my_read :: "user_copy \<Rightarrow> nat \<Rightarrow> nat \<Rightarrow> int \<times> nat \<times> bytes" where
  "my_read copy_to_user len ppos =
     (let msg_len = length greet in
      if ppos \<ge> msg_len then (0, ppos, [])
      else
        let remaining = msg_len - ppos;
            to_copy = (if len < remaining then len else remaining);
            bs = take to_copy (drop ppos greet)
        in if copy_to_user bs \<noteq> 0 then (- EFAULT, ppos, [])
           else (int to_copy, ppos + to_copy, bs))"

text \<open>
  \<open>my_write\<close> on a user buffer \<open>buf\<close> of at least \<open>len\<close> bytes; \<open>kbuf0\<close> is what the stack buffer holds
  before.  The result is the return value and the string in the log line; \<open>None\<close> is an access outside
  \<^verbatim>\<open>kbuf\<close>.
\<close>

definition my_write :: "user_copy \<Rightarrow> bytes \<Rightarrow> bytes \<Rightarrow> nat \<Rightarrow> (int \<times> bytes option) option" where
  "my_write copy_from_user kbuf0 buf len =
     (let to_copy = (if len < length kbuf0 - 1 then len else length kbuf0 - 1);
          bs = take to_copy buf
      in if copy_from_user bs \<noteq> 0 then Some (- EFAULT, None)
         else do {
           kbuf \<leftarrow> buf_put (overwrite kbuf0 bs) (int to_copy) NUL;
           s \<leftarrow> c_string kbuf;
           Some (int to_copy, Some s)
         })"

definition KBUF_SIZE :: nat where "KBUF_SIZE = 256"

section \<open>Registration\<close>

definition my_init :: "cdev_answers \<Rightarrow> int \<times> kcall list" where
  "my_init a =
     (let calls = [Alloc_chrdev_region (ans_alloc a)] in
      if ans_alloc a \<noteq> 0 then (ans_alloc a, calls) else
      let calls = calls @ [Cdev_init, Cdev_add (ans_cdev_add a)] in
      if ans_cdev_add a \<noteq> 0 then (ans_cdev_add a, calls @ [Unregister_chrdev_region]) else
      let calls = calls @ [Class_create (ans_class a)] in
      if IS_ERR (ans_class a)
      then (PTR_ERR (ans_class a), calls @ [Cdev_del, Unregister_chrdev_region]) else
      let calls = calls @ [Device_create (ans_device a)] in
      if IS_ERR (ans_device a)
      then (- ENOMEM, calls @ [Class_destroy, Cdev_del, Unregister_chrdev_region])
      else (0, calls))"

definition my_exit :: "kcall list" where
  "my_exit = [Device_destroy, Class_destroy, Cdev_del, Unregister_chrdev_region]"

definition hello_init :: "unit \<Rightarrow> int \<times> kcall list" where "hello_init _ = (0, [])"

definition hello_exit :: "kcall list" where "hello_exit = []"

lemma my_init_cases:
  assumes "cdev_answers_ok a"
  shows "owned [] (snd (my_init a)) = Some (if fst (my_init a) = 0 then cdev_resources else [])"
    and "unwinds [] (snd (my_init a)) = Some (if fst (my_init a) = 0 then cdev_resources else [])"
  using assms
  by (cases "ans_alloc a = 0"; cases "ans_cdev_add a = 0"; cases "ans_class a"; cases "ans_device a";
      simp add: my_init_def cdev_answers_ok_def ptr_ok_def cdev_resources_def ENOMEM_def)+

interpretation mydevice: kernel_module cdev_answers_ok my_init my_exit cdev_resources
  by unfold_locales
    (simp_all add: my_init_cases, simp add: cdev_resources_def my_exit_def)

interpretation hello: kernel_module "\<lambda>_. True" hello_init hello_exit "[]"
  by unfold_locales (simp_all add: hello_init_def hello_exit_def)

section \<open>Reading a device as a stream\<close>

text \<open>
  The contract a reader of a file relies on: \<open>rd len pos\<close> delivers the next \<open>min len (rest)\<close> bytes
  of a fixed content and moves the position behind them.
\<close>

locale stream_reader =
  fixes rd :: "nat \<Rightarrow> nat \<Rightarrow> int \<times> nat \<times> bytes" and content :: bytes
  assumes rd_law: "rd len pos = (int (min len (length content - pos)),
      pos + min len (length content - pos), take len (drop pos content))"
begin

lemma rd_eof: "length content \<le> pos \<Longrightarrow> rd len pos = (0, pos, [])"
  by (simp add: rd_law)

end

text \<open>Reading with a given series of buffer sizes, from a position on.\<close>

fun read_chunks :: "(nat \<Rightarrow> nat \<Rightarrow> int \<times> nat \<times> bytes) \<Rightarrow> nat list \<Rightarrow> nat \<Rightarrow> bytes \<times> nat" where
  "read_chunks rd [] pos = ([], pos)"
| "read_chunks rd (len # lens) pos =
     (let (_, pos', bs) = rd len pos; (rest, p) = read_chunks rd lens pos' in (bs @ rest, p))"

context stream_reader
begin

lemma read_chunks_content:
  assumes "pos \<le> length content"
  shows "read_chunks rd lens pos = (take (sum_list lens) (drop pos content),
    min (length content) (pos + sum_list lens))"
  using assms
proof (induction lens arbitrary: pos)
  case Nil
  then show ?case by simp
next
  case (Cons len lens)
  let ?k = "min len (length content - pos)"
  have "read_chunks rd lens (pos + ?k) = (take (sum_list lens) (drop (pos + ?k) content),
      min (length content) (pos + ?k + sum_list lens))"
    by (rule Cons.IH) (use Cons.prems in auto)
  then show ?case
    using Cons.prems
    by (cases "len \<le> length content - pos")
      (simp_all add: rd_law [of len pos] take_add add.commute add.left_commute)
qed

end

lemma my_read_law: "my_read copies_all len ppos =
    (int (min len (length greet - ppos)), ppos + min len (length greet - ppos),
     take len (drop ppos greet))"
  by (auto simp: my_read_def copies_all_def Let_def min_def)

interpretation greeting: stream_reader "my_read copies_all" greet
  by unfold_locales (rule my_read_law)


section \<open>Properties\<close>

text \<open>
  A reader that reads the device in pieces of any sizes gets the greeting, in order, complete
  once the sizes add up to its length, with every byte once.
\<close>

theorem my_read_delivers_greeting:
  assumes "length greet \<le> sum_list lens"
  shows "read_chunks (my_read copies_all) lens 0 = (greet, length greet)"
  using greeting.read_chunks_content [of 0 lens] assms by simp

theorem my_read_delivers_greeting_witness:
  "read_chunks (my_read copies_all) [4, 0, 30] 0 = (greet, 21)"
  using my_read_delivers_greeting [of "[4, 0, 30]"] by (simp add: greet_def)

text \<open>
  One \<^verbatim>\<open>my_read\<close>, on every branch: end of file, a fault that leaves the position alone, or the
  next bytes; it never returns more than \<open>len\<close> bytes nor reads past the greeting.
\<close>

theorem my_read_branches:
  "case my_read ctu len ppos of (ret, ppos', bs) \<Rightarrow>
     (ret = 0 \<and> ppos' = ppos \<and> bs = [] \<and> length greet \<le> ppos) \<or>
     (ret = - EFAULT \<and> ppos' = ppos \<and> bs = [] \<and> ppos < length greet) \<or>
     (ret = int (length bs) \<and> length bs = min len (length greet - ppos) \<and>
      ppos' = ppos + length bs \<and> ppos' \<le> length greet \<and>
      bs = take (length bs) (drop ppos greet))"
  by (auto simp: my_read_def Let_def min_def)

text \<open>
  \<^verbatim>\<open>my_write\<close> never leaves its 256-byte stack buffer, whatever the length the caller asks for:
  it takes at most 255 bytes, logs the string they start with, and returns how many it took.
\<close>

theorem my_write_safe:
  assumes "length kbuf0 = KBUF_SIZE" "len \<le> length buf"
  shows "my_write ctu kbuf0 buf len =
    (let bs = take (min len 255) buf in
     Some (if ctu bs \<noteq> 0 then (- EFAULT, None)
           else (int (min len 255), Some (takeWhile (\<lambda>c. c \<noteq> NUL) bs))))"
proof -
  define bs where "bs = take (min len 255) buf"
  have len: "length bs = min len 255" using assms(2) by (simp add: bs_def)
  then have "length bs < length kbuf0" using assms(1) by (simp add: KBUF_SIZE_def min_def)
  then obtain r where "buf_put (overwrite kbuf0 bs) (int (length bs)) NUL = Some (bs @ NUL # r)"
    using overwrite_terminated by blast
  moreover have "(if len < length kbuf0 - 1 then len else length kbuf0 - 1) = min len 255"
    using assms(1) by (simp add: KBUF_SIZE_def)
  ultimately show ?thesis
    by (simp add: my_write_def Let_def bs_def [symmetric] len c_string_prefix)
qed

theorem my_write_safe_witness:
  "my_write copies_all (replicate 256 (CHR ''x'')) (replicate 300 (CHR ''a'')) 300
    = Some (255, Some (replicate 255 (CHR ''a'')))"
  using my_write_safe [of "replicate 256 (CHR ''x'')" 300 "replicate 300 (CHR ''a'')" copies_all]
  by (simp add: KBUF_SIZE_def copies_all_def takeWhile_eq_all_conv)

text \<open>
  Loading the module, over and over and with any answers of the kernel, never leaks and never
  releases what it does not hold, and every failed load unwinds in reverse order.
\<close>

theorem mydevice_load_cycles_clean:
  assumes "list_all cdev_answers_ok as"
  shows "owned [] (concat (map (load_cycle my_init my_exit) as)) = Some [] \<and>
    list_all (\<lambda>a. fst (my_init a) \<noteq> 0 \<longrightarrow> unwinds [] (snd (my_init a)) = Some []) as"
  using mydevice.cycles_clean [OF assms] assms my_init_cases(2) by (simp add: list_all_iff)

theorem mydevice_load_cycles_clean_witness:
  "owned [] (concat (map (load_cycle my_init my_exit)
    [\<lparr>ans_alloc = 0, ans_cdev_add = 0, ans_class = Ok_ptr, ans_device = Err_ptr (-12)\<rparr>,
     \<lparr>ans_alloc = 0, ans_cdev_add = 0, ans_class = Ok_ptr, ans_device = Ok_ptr\<rparr>])) = Some []"
  using mydevice_load_cycles_clean
    [of "[\<lparr>ans_alloc = 0, ans_cdev_add = 0, ans_class = Ok_ptr, ans_device = Err_ptr (-12)\<rparr>,
     \<lparr>ans_alloc = 0, ans_cdev_add = 0, ans_class = Ok_ptr, ans_device = Ok_ptr\<rparr>]"]
  by (simp add: cdev_answers_ok_def ptr_ok_def)

text \<open>
  Reading and writing.  A reader that takes the device in pieces of any sizes gets the greeting
  in order, complete once the sizes add up to its length, with every byte once; and whatever length a
  writer asks for, \<^verbatim>\<open>my_write\<close> takes at most 255 bytes, stays inside its 256-byte stack buffer, logs
  the string they start with and returns how many it took.
\<close>

theorem mydevice_reads_and_writes:
  assumes "length greet \<le> sum_list lens" "length kbuf = KBUF_SIZE" "len \<le> length buf"
  shows "read_chunks (my_read copies_all) lens 0 = (greet, length greet) \<and>
    my_write ctu kbuf buf len =
      (let bs = take (min len 255) buf in
       Some (if ctu bs \<noteq> 0 then (- EFAULT, None)
             else (int (min len 255), Some (takeWhile (\<lambda>c. c \<noteq> NUL) bs))))"
  using my_read_delivers_greeting [OF assms(1)] my_write_safe [OF assms(2,3)] by blast

theorem mydevice_reads_and_writes_witness:
  "read_chunks (my_read copies_all) [4, 0, 30] 0 = (greet, 21)"
  using mydevice_reads_and_writes
    [where lens = "[4, 0, 30]" and kbuf = "replicate 256 NUL" and len = 0 and buf = "[]"
      and ctu = copies_all]
  by (simp add: greet_def KBUF_SIZE_def)

end
