(* ===== verification/Gpio_Register.thy ===== *)
theory Gpio_Register
  imports Kernel
begin

text \<open>
  The driver \<^verbatim>\<open>14-gpio-device-driver/mgpio.c\<close>, which drives GPIO 27 of the Raspberry Pi through its
  registers: the register accesses, the command parser behind \<^verbatim>\<open>write\<close>, and the \<^verbatim>\<open>goto\<close> chain of
  its \<^verbatim>\<open>init\<close>.  \<^verbatim>\<open>strim\<close> belongs to the kernel and is a parameter with its documented contract.
\<close>

unbundle bit_operations_syntax

section \<open>Registers\<close>

definition GPFSEL2_OFF :: nat where "GPFSEL2_OFF = 0x08"
definition GPSET0_OFF :: nat where "GPSET0_OFF = 0x1C"
definition GPCLR0_OFF :: nat where "GPCLR0_OFF = 0x28"
definition GPIO_NUM :: nat where "GPIO_NUM = 27"
definition GPFSEL27_SHIFT :: nat where "GPFSEL27_SHIFT = 21"

lemmas register_defs = GPFSEL2_OFF_def GPSET0_OFF_def GPCLR0_OFF_def GPIO_NUM_def GPFSEL27_SHIFT_def

text \<open>The value written to GPFSEL2 when it reads as \<open>val\<close>.\<close>

definition fsel27_output :: "32 word \<Rightarrow> 32 word" where
  "fsel27_output val =
     (let val = val AND NOT (push_bit GPFSEL27_SHIFT 0x7);
          val = val OR push_bit GPFSEL27_SHIFT 0x1
      in val)"

definition gpio27_as_output :: "32 word \<Rightarrow> kcall list" where
  "gpio27_as_output val = [Readl GPFSEL2_OFF val, Writel (fsel27_output val) GPFSEL2_OFF]"

definition gpio27_on :: "kcall list" where
  "gpio27_on = [Writel (push_bit GPIO_NUM 1) GPSET0_OFF]"

definition gpio27_off :: "kcall list" where
  "gpio27_off = [Writel (push_bit GPIO_NUM 1) GPCLR0_OFF]"

section \<open>The write operation\<close>

definition mgpio_open_reg :: int where "mgpio_open_reg = 0"

definition mgpio_release_reg :: int where "mgpio_release_reg = 0"

definition KBUF_LEN :: nat where "KBUF_LEN = 16"

text \<open>\<^verbatim>\<open>for (i = 0; kbuf[i]; i++) kbuf[i] = tolower(kbuf[i]);\<close>\<close>

function lower_loop :: "bytes \<Rightarrow> int \<Rightarrow> bytes option" where
  "lower_loop kbuf i = (case buf_get kbuf i of
     None \<Rightarrow> None
   | Some c \<Rightarrow> if c = NUL then Some kbuf else (case buf_put kbuf i (tolower c) of
       None \<Rightarrow> None
     | Some kbuf' \<Rightarrow> lower_loop kbuf' (i + 1)))"
  by pat_completeness auto
termination
  by (relation "measure (\<lambda>(kbuf, i). nat (int (length kbuf) - i))")
    (auto simp: buf_get_def buf_put_def split: if_splits)

declare lower_loop.simps [simp del]

definition mgpio_write_reg ::
    "(bytes \<Rightarrow> bytes) \<Rightarrow> user_copy \<Rightarrow> bytes \<Rightarrow> bytes \<Rightarrow> nat \<Rightarrow> (int \<times> kcall list) option" where
  "mgpio_write_reg strim copy_from_user kbuf0 ubuf len =
     (let n = min len (length kbuf0 - 1) in
      if n = 0 then Some (0, [])
      else if copy_from_user (take n ubuf) \<noteq> 0 then Some (- EFAULT, [])
      else do {
        kbuf \<leftarrow> buf_put (overwrite kbuf0 (take n ubuf)) (int n) NUL;
        kbuf \<leftarrow> lower_loop (strim kbuf) 0;
        cmd \<leftarrow> c_string kbuf;
        if cmd = ''on'' then Some (int len, [Mutex_lock] @ gpio27_on @ [Mutex_unlock])
        else if cmd = ''off'' then Some (int len, [Mutex_lock] @ gpio27_off @ [Mutex_unlock])
        else Some (- EINVAL, [Mutex_lock, Mutex_unlock])
      })"

text \<open>
  The documentation of \<^verbatim>\<open>strim\<close>: the trailing white space of the string is cut off by a NUL put in
  its place, nothing before it changes.  The leading white space stays: the pointer to the first
  character behind it is the return value, which the driver drops.  \<open>sp\<close> is the kernel's notion of
  white space, the usual one on ASCII.
\<close>

definition strim_contract :: "(char \<Rightarrow> bool) \<Rightarrow> (bytes \<Rightarrow> bytes) \<Rightarrow> bool" where
  "strim_contract sp strim \<longleftrightarrow>
     (\<forall>s r. NUL \<notin> set s \<longrightarrow>
       (\<exists>r'. strim (s @ NUL # r) = rev (dropWhile sp (rev s)) @ NUL # r' \<and>
         length (strim (s @ NUL # r)) = length (s @ NUL # r))) \<and>
     (\<forall>c. (of_char c :: nat) < 128 \<longrightarrow> sp c = isspace c)"

text \<open>The command a buffer stands for, as the driver reads it.\<close>

definition reg_command :: "(char \<Rightarrow> bool) \<Rightarrow> bytes \<Rightarrow> bytes" where
  "reg_command sp bs = map tolower (rev (dropWhile sp (rev (takeWhile (\<lambda>c. c \<noteq> NUL) bs))))"

section \<open>Loading and unloading\<close>

record reg_answers = cdev_answers +
  ans_ioremap :: kptr
  ans_gpfsel2 :: "32 word"

definition err_unmap :: "kcall list" where "err_unmap = [Iounmap]"
definition err_unregister :: "kcall list" where "err_unregister = Unregister_chrdev_region # err_unmap"
definition err_cdevdel :: "kcall list" where "err_cdevdel = Cdev_del # err_unregister"
definition err_class :: "kcall list" where "err_class = Class_destroy # err_cdevdel"

lemmas err_labels = err_class_def err_cdevdel_def err_unregister_def err_unmap_def

definition mgpio_init_reg :: "reg_answers \<Rightarrow> int \<times> kcall list" where
  "mgpio_init_reg a =
     (let calls = [Ioremap (ans_ioremap a)] in
      if ans_ioremap a = Null_ptr then (- ENOMEM, calls) else
      let calls = calls @ [Alloc_chrdev_region (ans_alloc a)] in
      if ans_alloc a \<noteq> 0 then (ans_alloc a, calls @ err_unmap) else
      let calls = calls @ [Cdev_init, Cdev_add (ans_cdev_add a)] in
      if ans_cdev_add a \<noteq> 0 then (ans_cdev_add a, calls @ err_unregister) else
      let calls = calls @ [Class_create (ans_class a)] in
      if IS_ERR (ans_class a) then (PTR_ERR (ans_class a), calls @ err_cdevdel) else
      let calls = calls @ [Device_create (ans_device a)] in
      if IS_ERR (ans_device a) then (PTR_ERR (ans_device a), calls @ err_class) else
      (0, calls @ [Mutex_init] @ gpio27_as_output (ans_gpfsel2 a)))"

definition mgpio_exit_reg :: "kcall list" where
  "mgpio_exit_reg = gpio27_off @
     [Device_destroy, Class_destroy, Cdev_del, Unregister_chrdev_region, Iounmap]"

definition reg_answers_ok :: "reg_answers \<Rightarrow> bool" where
  "reg_answers_ok a \<longleftrightarrow> cdev_answers_ok a \<and> ans_ioremap a \<in> {Null_ptr, Ok_ptr}"

lemma mgpio_init_reg_cases:
  assumes "reg_answers_ok a"
  shows "owned [] (snd (mgpio_init_reg a))
      = Some (if fst (mgpio_init_reg a) = 0 then cdev_resources @ [Mapping] else [])"
    and "unwinds [] (snd (mgpio_init_reg a))
      = Some (if fst (mgpio_init_reg a) = 0 then cdev_resources @ [Mapping] else [])"
    and "mapped_access m (snd (mgpio_init_reg a))"
  using assms
  by (cases "ans_ioremap a"; cases "ans_alloc a = 0"; cases "ans_cdev_add a = 0";
      cases "ans_class a"; cases "ans_device a";
      simp add: mgpio_init_reg_def reg_answers_ok_def cdev_answers_ok_def ptr_ok_def
        cdev_resources_def ENOMEM_def err_labels gpio27_as_output_def)+

interpretation mgpio_reg: kernel_module reg_answers_ok mgpio_init_reg mgpio_exit_reg
  "cdev_resources @ [Mapping]"
  by unfold_locales
    (simp_all add: mgpio_init_reg_cases,
     simp add: cdev_resources_def mgpio_exit_reg_def gpio27_off_def)


section \<open>The parser\<close>

lemma lower_loop_stop: "buf_get b i = Some NUL \<Longrightarrow> lower_loop b i = Some b"
  by (subst lower_loop.simps) simp

lemma lower_loop_move:
  "buf_get b i = Some c \<Longrightarrow> c \<noteq> NUL \<Longrightarrow> buf_put b i (tolower c) = Some b' \<Longrightarrow>
    lower_loop b i = lower_loop b' (i + 1)"
  by (subst lower_loop.simps) simp

lemma lower_loop_run:
  "NUL \<notin> set s \<Longrightarrow>
    lower_loop (p @ s @ NUL # r) (int (length p)) = Some (p @ map tolower s @ NUL # r)"
proof (induction s arbitrary: p)
  case Nil
  then show ?case by (simp add: lower_loop_stop buf_get_nat)
next
  case (Cons c s)
  have get: "buf_get (p @ (c # s) @ NUL # r) (int (length p)) = Some c"
    by (simp add: buf_get_nat)
  have put: "buf_put (p @ (c # s) @ NUL # r) (int (length p)) (tolower c)
      = Some ((p @ [tolower c]) @ s @ NUL # r)"
    by (simp add: buf_put_nat)
  have "lower_loop ((p @ [tolower c]) @ s @ NUL # r) (int (length (p @ [tolower c])))
      = Some ((p @ [tolower c]) @ map tolower s @ NUL # r)"
    by (rule Cons.IH) (use Cons.prems in simp)
  moreover have "lower_loop (p @ (c # s) @ NUL # r) (int (length p))
      = lower_loop ((p @ [tolower c]) @ s @ NUL # r) (int (length p) + 1)"
    by (rule lower_loop_move [OF get _ put]) (use Cons.prems in auto)
  ultimately show ?case by (simp add: add.commute)
qed

lemma parse_run:
  assumes "strim_contract sp strim" "length bs < length kbuf0"
  shows "\<exists>kbuf kbuf'. buf_put (overwrite kbuf0 bs) (int (length bs)) NUL = Some kbuf \<and>
    lower_loop (strim kbuf) 0 = Some kbuf' \<and> c_string kbuf' = Some (reg_command sp bs)"
proof -
  define s where "s = takeWhile (\<lambda>c. c \<noteq> NUL) bs"
  obtain r where put: "buf_put (overwrite kbuf0 bs) (int (length bs)) NUL = Some (bs @ NUL # r)"
    using overwrite_terminated [OF assms(2)] by blast
  obtain r1 where split: "bs @ NUL # r = s @ NUL # r1"
    using c_string_split [OF c_string_prefix [of bs r]] unfolding s_def by blast
  have s: "NUL \<notin> set s" by (auto simp: s_def dest: set_takeWhileD)
  define t where "t = rev (dropWhile sp (rev s))"
  obtain r' where strim: "strim (s @ NUL # r1) = t @ NUL # r'"
    using assms(1) s unfolding strim_contract_def t_def by blast
  have t: "NUL \<notin> set t" using s by (auto simp: t_def dest: set_dropWhileD)
  then have "NUL \<notin> set (map tolower t)" by (simp add: image_iff) (metis tolower_NUL)
  then have "lower_loop (strim (bs @ NUL # r)) 0 = Some (map tolower t @ NUL # r')"
    "c_string (map tolower t @ NUL # r') = Some (map tolower t)"
    using lower_loop_run [OF t, of "[]" r'] by (simp_all add: split strim c_string_append)
  moreover have "map tolower t = reg_command sp bs" by (simp add: reg_command_def t_def s_def)
  ultimately show ?thesis using put by metis
qed

section \<open>Properties\<close>

text \<open>A function with the contract of \<^verbatim>\<open>strim\<close>, for the concrete instances.\<close>

definition strim_example :: "bytes \<Rightarrow> bytes" where
  "strim_example b = (case c_string b of
     None \<Rightarrow> b
   | Some s \<Rightarrow> let t = rev (dropWhile isspace (rev s)) in t @ NUL # drop (Suc (length t)) b)"

lemma strim_example_ok: "strim_contract isspace strim_example"
proof -
  have short: "length (dropWhile isspace (rev s)) \<le> length s" for s
    by (metis length_dropWhile_le length_rev)
  have "strim_example (s @ NUL # r) = rev (dropWhile isspace (rev s)) @ NUL #
      drop (Suc (length (dropWhile isspace (rev s)))) (s @ NUL # r)" if "NUL \<notin> set s" for s r
    using that by (simp add: strim_example_def c_string_append Let_def)
  moreover have "length (rev (dropWhile isspace (rev s)) @ NUL #
      drop (Suc (length (dropWhile isspace (rev s)))) (s @ NUL # r)) = length (s @ NUL # r)" for s r
    using short [of s] by simp
  ultimately show ?thesis unfolding strim_contract_def by metis
qed

lemma reg_command_example: "reg_command isspace (''On'' @ [CHR 0x0A]) = ''on''"
  "reg_command isspace [CHR ''O'', CHR ''n'', CHR 0x0A] = ''on''"
  by code_simp+

text \<open>
  The register accesses touch GPIO 27 only.  \<^verbatim>\<open>gpio27_as_output\<close> sets its three function bits
  to 001 and keeps the other 29 bits of GPFSEL2; \<^verbatim>\<open>gpio27_on\<close> and \<^verbatim>\<open>gpio27_off\<close> write exactly bit 27
  of the set and of the clear register.
\<close>

theorem gpio27_register_bits:
  "bit (fsel27_output val) n =
     (if n = 21 then True else if n = 22 \<or> n = 23 then False else bit val n) \<and>
   (\<exists>on off. gpio27_on = [Writel on GPSET0_OFF] \<and> gpio27_off = [Writel off GPCLR0_OFF] \<and>
     (\<forall>k. bit on k = (k = 27)) \<and> (\<forall>k. bit off k = (k = 27)))"
proof -
  have seven: "bit (7 :: 32 word) k = (k < 3)" for k
  proof -
    have "(7 :: 32 word) = mask 3" by (simp add: mask_eq_exp_minus_1)
    then show ?thesis by (simp only: bit_mask_iff) auto
  qed
  have bits: "bit (fsel27_output val) n \<longleftrightarrow>
     bit val n \<and> \<not> (21 \<le> n \<and> n < 24 \<and> n < 32) \<and> n < 32 \<or> n = 21"
    unfolding fsel27_output_def Let_def bit_or_iff bit_and_iff bit_not_iff bit_push_bit_iff seven
      bit_1_iff GPFSEL27_SHIFT_def
    by (auto simp: not_less bit_imp_possible_bit)
  have "bit (fsel27_output val) n =
     (if n = 21 then True else if n = 22 \<or> n = 23 then False else bit val n)"
    using bit_imp_le_length [of val n] unfolding bits by (cases "n < 24") auto
  moreover have "bit (push_bit GPIO_NUM 1 :: 32 word) k = (k = 27)" for k
    unfolding bit_push_bit_iff bit_1_iff GPIO_NUM_def by auto
  ultimately show ?thesis by (simp add: gpio27_on_def gpio27_off_def)
qed

text \<open>
  What a \<^verbatim>\<open>write\<close> does, on every branch.  It reads at most 15 bytes, never leaves its stack
  buffer, accepts "on" and "off" in any case and with trailing white space, drives the line with
  the lock held and always gives the lock back, and answers \<^verbatim>\<open>-EINVAL\<close> to everything else.
\<close>

theorem mgpio_write_reg_spec:
  assumes "strim_contract sp strim" "length kbuf0 = KBUF_LEN" "len \<le> length ubuf"
  shows "\<exists>ret calls. mgpio_write_reg strim cfu kbuf0 ubuf len = Some (ret, calls) \<and>
    guarded False calls \<and>
    (let bs = take 15 (take len ubuf) in
     (ret, calls) =
       (if len = 0 then (0, [])
        else if cfu bs \<noteq> 0 then (- EFAULT, [])
        else if reg_command sp bs = ''on'' then (int len, [Mutex_lock] @ gpio27_on @ [Mutex_unlock])
        else if reg_command sp bs = ''off'' then (int len, [Mutex_lock] @ gpio27_off @ [Mutex_unlock])
        else (- EINVAL, [Mutex_lock, Mutex_unlock])))"
proof -
  define bs where "bs = take 15 (take len ubuf)"
  have n: "min len (length kbuf0 - 1) = length bs" "take (length bs) ubuf = bs"
    using assms(2,3) by (simp_all add: bs_def KBUF_LEN_def min_def)
  have len0: "bs = [] \<longleftrightarrow> len = 0" using assms(3) by (auto simp: bs_def)
  have "length bs < length kbuf0" using assms(2) by (simp add: bs_def KBUF_LEN_def)
  from parse_run [OF assms(1) this] obtain kbuf kbuf' where run:
    "buf_put (overwrite kbuf0 bs) (int (length bs)) NUL = Some kbuf"
    "lower_loop (strim kbuf) 0 = Some kbuf'" "c_string kbuf' = Some (reg_command sp bs)"
    by blast
  show ?thesis
    unfolding bs_def [symmetric] Let_def mgpio_write_reg_def n
    by (cases "len = 0"; cases "cfu bs = 0")
      (auto simp: run len0 gpio27_on_def gpio27_off_def length_0_conv)
qed

theorem mgpio_write_reg_spec_witness:
  "mgpio_write_reg strim_example copies_all (replicate 16 NUL) (''On'' @ [CHR 0x0A]) 3
    = Some (3, [Mutex_lock, Writel (push_bit 27 1) 28, Mutex_unlock])"
  using mgpio_write_reg_spec [OF strim_example_ok, of "replicate 16 NUL" 3 "''On'' @ [CHR 0x0A]" copies_all]
  by (simp add: KBUF_LEN_def copies_all_def reg_command_example
      gpio27_on_def GPIO_NUM_def GPSET0_OFF_def Let_def)

text \<open>
  Leading white space is not trimmed.  \<^verbatim>\<open>strim\<close> reports the start of the trimmed string in its
  return value, which the driver ignores, so a command behind a blank is always refused.
\<close>

theorem mgpio_write_reg_leading_space:
  assumes "strim_contract sp strim" "length kbuf0 = KBUF_LEN" "isspace c"
  shows "mgpio_write_reg strim copies_all kbuf0 (c # cmd) (Suc (length cmd))
    = Some (- EINVAL, [Mutex_lock, Mutex_unlock])"
proof -
  define bs where "bs = take 15 (take (Suc (length cmd)) (c # cmd))"
  have bs: "bs = c # take 14 cmd" by (simp add: bs_def)
  have "c \<noteq> NUL" using assms(3) by (auto simp: isspace_def)
  define s where "s = takeWhile (\<lambda>c. c \<noteq> NUL) (take 14 cmd)"
  have cmd: "reg_command sp bs = map tolower (rev (dropWhile sp (rev (c # s))))"
    using \<open>c \<noteq> NUL\<close> by (simp add: reg_command_def bs s_def)
  have "reg_command sp bs = [] \<or> hd (reg_command sp bs) = c"
    using tolower_space [OF assms(3)]
    by (auto simp: cmd dropWhile_append simp del: rev_eq_Cons_iff)
  moreover have "c \<noteq> CHR ''o''" using assms(3) by (auto simp: isspace_def)
  ultimately have "reg_command sp bs \<noteq> ''on''" "reg_command sp bs \<noteq> ''off''" by auto
  then show ?thesis
    using mgpio_write_reg_spec [OF assms(1,2), of "Suc (length cmd)" "c # cmd" copies_all]
    unfolding bs_def [symmetric] Let_def by (simp add: copies_all_def)
qed

theorem mgpio_write_reg_leading_space_witness:
  "mgpio_write_reg strim_example copies_all (replicate 16 NUL) '' on'' 3
    = Some (- EINVAL, [Mutex_lock, Mutex_unlock])"
  using mgpio_write_reg_leading_space [OF strim_example_ok, of "replicate 16 NUL" "CHR '' ''" "''on''"]
  by (simp add: KBUF_LEN_def isspace_def numeral_eq_Suc)

text \<open>
  Loading and unloading.  Any series of loads and unloads is free of leaks and double
  releases, a failed load unwinds in reverse order, and the registers are touched only while they
  are mapped, the last access turning the line off.
\<close>

theorem mgpio_reg_load_cycles_clean:
  assumes "list_all reg_answers_ok as"
  shows "owned [] (concat (map (load_cycle mgpio_init_reg mgpio_exit_reg) as)) = Some [] \<and>
    list_all (\<lambda>a. (fst (mgpio_init_reg a) = 0 \<or> unwinds [] (snd (mgpio_init_reg a)) = Some []) \<and>
      mapped_access False (load_cycle mgpio_init_reg mgpio_exit_reg a)) as"
proof -
  have "mapped_access False (load_cycle mgpio_init_reg mgpio_exit_reg a)" if "reg_answers_ok a" for a
    using that
    by (cases "ans_ioremap a"; cases "ans_alloc a = 0"; cases "ans_cdev_add a = 0";
      cases "ans_class a"; cases "ans_device a";
      simp add: mgpio_init_reg_def reg_answers_ok_def cdev_answers_ok_def ptr_ok_def load_cycle_def
        ENOMEM_def err_labels gpio27_as_output_def mgpio_exit_reg_def gpio27_off_def)
  then show ?thesis
    using mgpio_reg.cycles_clean [OF assms] assms mgpio_init_reg_cases(2) by (auto simp: list_all_iff)
qed

theorem mgpio_reg_load_cycles_clean_witness:
  "owned [] (concat (map (load_cycle mgpio_init_reg mgpio_exit_reg)
    [\<lparr>ans_alloc = 0, ans_cdev_add = -16, ans_class = Ok_ptr, ans_device = Ok_ptr,
      ans_ioremap = Ok_ptr, ans_gpfsel2 = 0\<rparr>])) = Some []"
  using mgpio_reg_load_cycles_clean
    [of "[\<lparr>ans_alloc = 0, ans_cdev_add = -16, ans_class = Ok_ptr, ans_device = Ok_ptr,
      ans_ioremap = Ok_ptr, ans_gpfsel2 = 0\<rparr>]"]
  by (simp add: reg_answers_ok_def cdev_answers_ok_def ptr_ok_def)

end
