(* ===== verification/Gpio_Integer.thy ===== *)
theory Gpio_Integer
  imports Char_Device
begin

text \<open>
  The driver \<^verbatim>\<open>15-gpio-integer/mgpio.c\<close>, which drives one line by its global number: the trimming
  loop and the prefix match of \<^verbatim>\<open>mgpio_write\<close>, the state reported by \<^verbatim>\<open>mgpio_read\<close>, and the long
  error chain of \<^verbatim>\<open>mgpio_init\<close> with the conditional cleanup of \<^verbatim>\<open>mgpio_exit\<close>.
\<close>

section \<open>State and file operations\<close>

text \<open>The file-scope variables that the operations change.\<close>

record int_state =
  gpio_state :: int
  mgpio_class :: kptr
  mgpio_dev :: kptr

definition int_statics :: int_state where
  "int_statics = \<lparr>gpio_state = 0, mgpio_class = Null_ptr, mgpio_dev = Null_ptr\<rparr>"

definition BUF_LEN :: nat where "BUF_LEN = 32"

definition trimmed_char :: "char \<Rightarrow> bool" where
  "trimmed_char c \<longleftrightarrow> c = CHR 0x0A \<or> c = CHR 0x0D \<or> c = CHR '' '' \<or> c = CHR 0x09"

text \<open>\<^verbatim>\<open>while (len && ...kbuf[len-1]...) kbuf[--len] = '\0';\<close>\<close>

fun trim_tail :: "bytes \<Rightarrow> nat \<Rightarrow> (bytes \<times> nat) option" where
  "trim_tail kbuf 0 = Some (kbuf, 0)"
| "trim_tail kbuf (Suc l) = (case buf_get kbuf (int l) of
     None \<Rightarrow> None
   | Some c \<Rightarrow> if trimmed_char c
       then (case buf_put kbuf (int l) NUL of None \<Rightarrow> None | Some kbuf' \<Rightarrow> trim_tail kbuf' l)
       else Some (kbuf, Suc l))"

text \<open>
  The assignment \<^verbatim>\<open>gpio_state = v;\<close>, seen by the variable and in the order of the calls, because other
  callers can come between two of them.
\<close>

definition int_store :: "int \<Rightarrow> int_state \<times> kcall list \<Rightarrow> int_state \<times> kcall list" where
  "int_store v p = (case p of (st, calls) \<Rightarrow> (st\<lparr>gpio_state := v\<rparr>, calls @ [Store_state v]))"

definition mgpio_write_int ::
    "user_copy \<Rightarrow> bytes \<Rightarrow> int_state \<Rightarrow> bytes \<Rightarrow> nat \<Rightarrow> (int \<times> int_state \<times> kcall list) option" where
  "mgpio_write_int copy_from_user kbuf0 st ubuf count =
     (let len = min count (BUF_LEN - 1) in
      if copy_from_user (take len ubuf) \<noteq> 0 then Some (- EFAULT, st, [])
      else do {
        kbuf \<leftarrow> buf_put (overwrite kbuf0 (take len ubuf)) (int len) NUL;
        (kbuf, len) \<leftarrow> trim_tail kbuf len;
        cmd \<leftarrow> c_string kbuf;
        if strncase_eq 2 cmd ''on''
        then (case int_store 1 (st, [Mutex_lock, Gpio_set_value 1]) of
          (st, calls) \<Rightarrow> Some (int count, st, calls @ [Mutex_unlock]))
        else if strncase_eq 3 cmd ''off''
        then (case int_store 0 (st, [Mutex_lock, Gpio_set_value 0]) of
          (st, calls) \<Rightarrow> Some (int count, st, calls @ [Mutex_unlock]))
        else Some (- EINVAL, st, [Mutex_lock, Mutex_unlock])
      })"

definition state_text :: "int \<Rightarrow> bytes" where
  "state_text v = (if v \<noteq> 0 then ''on'' else ''off'') @ [CHR 0x0A]"

definition mgpio_read_int :: "user_copy \<Rightarrow> int_state \<Rightarrow> nat \<Rightarrow> nat \<Rightarrow> int \<times> nat \<times> bytes" where
  "mgpio_read_int copy_to_user st count ppos =
     (let tmp = state_text (gpio_state st); n = length tmp in
      if ppos > 0 then (0, ppos, [])
      else if count < n then (- EINVAL, ppos, [])
      else if copy_to_user tmp \<noteq> 0 then (- EFAULT, ppos, [])
      else (int n, n, tmp))"

text \<open>\<open>got\<close> is the answer of \<^verbatim>\<open>try_module_get\<close>, which the driver ignores.\<close>

definition mgpio_open_int :: "bool \<Rightarrow> int \<times> kcall list" where
  "mgpio_open_int got = (0, [Try_module_get got])"

definition mgpio_release_int :: "int \<times> kcall list" where
  "mgpio_release_int = (0, [Module_put])"

section \<open>Loading and unloading\<close>

record int_answers = cdev_answers +
  ans_valid :: bool
  ans_request :: int
  ans_direction :: int

definition mgpio_init_int :: "int_state \<Rightarrow> int_answers \<Rightarrow> int \<times> int_state \<times> kcall list" where
  "mgpio_init_int st a =
     (if \<not> ans_valid a then (- EINVAL, st, []) else
      let calls = [Gpio_request (ans_request a)] in
      if ans_request a \<noteq> 0 then (ans_request a, st, calls) else
      let calls = calls @ [Gpio_direction_output 0 (ans_direction a)] in
      if ans_direction a \<noteq> 0 then (ans_direction a, st, calls @ [Gpio_free]) else
      let st = st\<lparr>gpio_state := 0\<rparr>; calls = calls @ [Alloc_chrdev_region (ans_alloc a)] in
      if ans_alloc a \<noteq> 0 then (ans_alloc a, st, calls @ [Gpio_free]) else
      let calls = calls @ [Cdev_init, Cdev_add (ans_cdev_add a)] in
      if ans_cdev_add a \<noteq> 0
      then (ans_cdev_add a, st, calls @ [Unregister_chrdev_region, Gpio_free]) else
      let st = st\<lparr>mgpio_class := ans_class a\<rparr>; calls = calls @ [Class_create (ans_class a)] in
      if IS_ERR (mgpio_class st)
      then (PTR_ERR (mgpio_class st), st, calls @ [Cdev_del, Unregister_chrdev_region, Gpio_free]) else
      let st = st\<lparr>mgpio_dev := ans_device a\<rparr>; calls = calls @ [Device_create (ans_device a)] in
      if IS_ERR (mgpio_dev st)
      then (PTR_ERR (mgpio_dev st), st,
        calls @ [Class_destroy, Cdev_del, Unregister_chrdev_region, Gpio_free])
      else (0, st, calls))"

definition mgpio_exit_int :: "int_state \<Rightarrow> kcall list" where
  "mgpio_exit_int st =
     (if mgpio_dev st \<noteq> Null_ptr \<and> \<not> IS_ERR (mgpio_dev st) then [Device_destroy] else []) @
     (if mgpio_class st \<noteq> Null_ptr \<and> \<not> IS_ERR (mgpio_class st) then [Class_destroy] else []) @
     [Cdev_del, Unregister_chrdev_region, Gpio_set_value 0, Gpio_free]"

text \<open>One load and, if it succeeded, the unload that sees the variables the load has set.\<close>

definition int_cycle :: "int_answers \<Rightarrow> kcall list" where
  "int_cycle a = (case mgpio_init_int int_statics a of (ret, st, calls) \<Rightarrow>
     calls @ (if ret = 0 then mgpio_exit_int st else []))"

definition int_load :: "int_answers \<Rightarrow> int \<times> kcall list" where
  "int_load a = (case mgpio_init_int int_statics a of (ret, st, calls) \<Rightarrow> (ret, calls))"

definition int_resources :: "kresource list" where
  "int_resources = cdev_resources @ [Gpio_line]"

abbreviation int_loaded :: int_state where
  "int_loaded \<equiv> \<lparr>gpio_state = 0, mgpio_class = Ok_ptr, mgpio_dev = Ok_ptr\<rparr>"

lemma int_load_cases:
  assumes "cdev_answers_ok a"
  shows "unwinds [] (snd (int_load a)) = Some (if fst (int_load a) = 0 then int_resources else [])"
    and "fst (int_load a) = 0 \<Longrightarrow> fst (snd (mgpio_init_int int_statics a)) = int_loaded"
  using assms
  by (cases "ans_valid a"; cases "ans_request a = 0"; cases "ans_direction a = 0";
      cases "ans_alloc a = 0"; cases "ans_cdev_add a = 0"; cases "ans_class a"; cases "ans_device a";
      simp add: int_load_def mgpio_init_int_def cdev_answers_ok_def ptr_ok_def int_resources_def
        cdev_resources_def int_statics_def EINVAL_def)+

lemmas int_load_owned = unwinds_owned [OF int_load_cases(1)]

interpretation mgpio_int: kernel_module cdev_answers_ok int_load "mgpio_exit_int int_loaded"
  int_resources
  by unfold_locales
    (simp_all add: int_load_owned,
     simp add: int_resources_def cdev_resources_def mgpio_exit_int_def)

lemma int_cycle_load:
  "cdev_answers_ok a \<Longrightarrow> int_cycle a = load_cycle int_load (mgpio_exit_int int_loaded) a"
  using int_load_cases(2) [of a]
  by (auto simp: int_cycle_def load_cycle_def int_load_def split: prod.splits)

section \<open>The parser\<close>

text \<open>The command in the bytes of one \<^verbatim>\<open>write\<close>.\<close>

definition int_command :: "bytes \<Rightarrow> bytes" where
  "int_command bs = takeWhile (\<lambda>c. c \<noteq> NUL) (rev (dropWhile trimmed_char (rev bs)))"

lemma trim_tail_run:
  "\<exists>r'. trim_tail (bs @ NUL # r) (length bs) =
     Some (rev (dropWhile trimmed_char (rev bs)) @ NUL # r',
       length (dropWhile trimmed_char (rev bs)))"
proof (induction bs arbitrary: r rule: rev_induct)
  case Nil
  then show ?case by simp
next
  case (snoc c bs)
  have get: "buf_get (bs @ c # NUL # r) (int (length bs)) = Some c"
    by (simp add: buf_get_nat)
  have put: "buf_put (bs @ c # NUL # r) (int (length bs)) NUL = Some (bs @ NUL # NUL # r)"
    by (simp add: buf_put_nat)
  show ?case
    using snoc.IH [of "NUL # r"] by (simp add: get put)
qed

lemma int_parse:
  assumes "length bs < length kbuf0"
  shows "\<exists>k1 k2 l. buf_put (overwrite kbuf0 bs) (int (length bs)) NUL = Some k1 \<and>
    trim_tail k1 (length bs) = Some (k2, l) \<and> c_string k2 = Some (int_command bs)"
proof -
  obtain r where "buf_put (overwrite kbuf0 bs) (int (length bs)) NUL = Some (bs @ NUL # r)"
    using overwrite_terminated [OF assms] by blast
  moreover obtain r' where "trim_tail (bs @ NUL # r) (length bs) =
     Some (rev (dropWhile trimmed_char (rev bs)) @ NUL # r', length (dropWhile trimmed_char (rev bs)))"
    using trim_tail_run by blast
  ultimately show ?thesis by (simp add: c_string_prefix int_command_def)
qed

text \<open>The level a sequence of calls leaves on the line.\<close>

fun line_level :: "int \<Rightarrow> kcall list \<Rightarrow> int" where
  "line_level v [] = v"
| "line_level v (Gpio_set_value w # cs) = line_level w cs"
| "line_level v (Gpio_direction_output w r # cs) = line_level (if r = 0 then w else v) cs"
| "line_level v (c # cs) = line_level v cs"

lemma line_level_append: "line_level v (cs @ ds) = line_level (line_level v cs) ds"
  by (induction v cs rule: line_level.induct) simp_all

text \<open>A series of \<^verbatim>\<open>write\<close> calls, each of a whole string.\<close>

fun int_writes ::
    "user_copy \<Rightarrow> bytes \<Rightarrow> int_state \<Rightarrow> bytes list \<Rightarrow> (int_state \<times> kcall list) option" where
  "int_writes cfu kbuf0 st [] = Some (st, [])"
| "int_writes cfu kbuf0 st (s # ss) = do {
     (ret, st', calls) \<leftarrow> mgpio_write_int cfu kbuf0 st s (length s);
     (st'', more) \<leftarrow> int_writes cfu kbuf0 st' ss;
     Some (st'', calls @ more)
   }"

lemma guarded_append: "guarded l cs \<Longrightarrow> guarded False ds \<Longrightarrow> guarded l (cs @ ds)"
  by (induction l cs rule: guarded.induct) auto

lemma mgpio_write_int_result:
  assumes "length kbuf0 = BUF_LEN" "count \<le> length ubuf"
  shows "mgpio_write_int cfu kbuf0 st ubuf count =
    (let bs = take 31 (take count ubuf) in
     Some (if cfu bs \<noteq> 0 then (- EFAULT, st, [])
       else if strncase_eq 2 (int_command bs) ''on''
       then (int count, st\<lparr>gpio_state := 1\<rparr>, [Mutex_lock, Gpio_set_value 1, Store_state 1, Mutex_unlock])
       else if strncase_eq 3 (int_command bs) ''off''
       then (int count, st\<lparr>gpio_state := 0\<rparr>, [Mutex_lock, Gpio_set_value 0, Store_state 0, Mutex_unlock])
       else (- EINVAL, st, [Mutex_lock, Mutex_unlock])))"
proof -
  define bs where "bs = take 31 (take count ubuf)"
  have n: "min count (BUF_LEN - 1) = length bs" "take (length bs) ubuf = bs"
    using assms by (simp_all add: bs_def BUF_LEN_def min_def)
  have "length bs < length kbuf0" using assms(1) by (simp add: bs_def BUF_LEN_def)
  from int_parse [OF this] obtain k1 k2 l where
    "buf_put (overwrite kbuf0 bs) (int (length bs)) NUL = Some k1"
    "trim_tail k1 (length bs) = Some (k2, l)" "c_string k2 = Some (int_command bs)"
    by blast
  then show ?thesis
    unfolding bs_def [symmetric] Let_def mgpio_write_int_def int_store_def n by simp
qed

lemma int_writes_track:
  assumes "length kbuf0 = BUF_LEN" "gpio_state st \<in> {0, 1}"
  shows "\<exists>st' calls. int_writes cfu kbuf0 st ss = Some (st', calls) \<and> guarded False calls \<and>
    gpio_state st' = line_level (gpio_state st) calls \<and> gpio_state st' \<in> {0, 1}"
  using assms(2)
proof (induction ss arbitrary: st)
  case Nil
  then show ?case by auto
next
  case (Cons s ss)
  obtain ret st1 c1 where w: "mgpio_write_int cfu kbuf0 st s (length s) = Some (ret, st1, c1)"
    "guarded False c1" "gpio_state st1 = line_level (gpio_state st) c1" "gpio_state st1 \<in> {0, 1}"
    using mgpio_write_int_result [OF assms(1) order_refl, of cfu st s] Cons.prems
    by (simp add: Let_def split: if_splits)
  from Cons.IH [OF this(4)] obtain st2 c2 where
    "int_writes cfu kbuf0 st1 ss = Some (st2, c2)" "guarded False c2"
    "gpio_state st2 = line_level (gpio_state st1) c2" "gpio_state st2 \<in> {0, 1}"
    by blast
  then show ?case using w by (auto simp: guarded_append line_level_append)
qed

section \<open>Properties\<close>

text \<open>
  What a \<^verbatim>\<open>write\<close> does, on every branch.  It takes at most 31 bytes, stays inside its stack
  buffer, cuts trailing blanks and line ends, and compares only a prefix, in any case: any command
  that starts with "on" switches the line on and any that starts with "off" switches it off.  The
  line moves with the lock held and the variable \<^verbatim>\<open>gpio_state\<close> moves with the line.
\<close>

theorem mgpio_write_int_spec:
  assumes "length kbuf0 = BUF_LEN" "count \<le> length ubuf"
  shows "mgpio_write_int cfu kbuf0 st ubuf count =
    (let bs = take 31 (take count ubuf); cmd = map tolower (int_command bs) in
     Some (if cfu bs \<noteq> 0 then (- EFAULT, st, [])
       else if take 2 cmd = ''on''
       then (int count, st\<lparr>gpio_state := 1\<rparr>, [Mutex_lock, Gpio_set_value 1, Store_state 1, Mutex_unlock])
       else if take 3 cmd = ''off''
       then (int count, st\<lparr>gpio_state := 0\<rparr>, [Mutex_lock, Gpio_set_value 0, Store_state 0, Mutex_unlock])
       else (- EINVAL, st, [Mutex_lock, Mutex_unlock])))"
proof -
  have lower: "map tolower (take 2 ''on'') = ''on''" "map tolower (take 3 ''off'') = ''off''"
    by (simp_all add: tolower_def)
  show ?thesis
    unfolding mgpio_write_int_result [OF assms] strncase_eq_def lower Let_def take_map ..
qed

lemma once_command: "take 2 (map tolower (int_command (''ONCE'' @ [CHR 0x0A]))) = ''on''"
  by code_simp

theorem mgpio_write_int_spec_witness:
  "mgpio_write_int copies_all (replicate 32 NUL) int_loaded (''ONCE'' @ [CHR 0x0A]) 5
    = Some (5, int_loaded\<lparr>gpio_state := 1\<rparr>, [Mutex_lock, Gpio_set_value 1, Store_state 1, Mutex_unlock])"
  using mgpio_write_int_spec [of "replicate 32 NUL" 5 "''ONCE'' @ [CHR 0x0A]" copies_all int_loaded]
    once_command
  by (simp add: BUF_LEN_def copies_all_def Let_def)

text \<open>
  After any series of writes the driver's \<^verbatim>\<open>gpio_state\<close> is the level the writes left on the
  line, and a read with room for the answer reports that level.
\<close>

theorem gpio_state_tracks_line:
  assumes "length kbuf0 = BUF_LEN" "gpio_state st \<in> {0, 1}" "4 \<le> count"
  shows "\<exists>st' calls. int_writes cfu kbuf0 st ss = Some (st', calls) \<and> guarded False calls \<and>
    gpio_state st' = line_level (gpio_state st) calls \<and>
    snd (snd (mgpio_read_int copies_all st' count 0)) =
      (if line_level (gpio_state st) calls = 1 then ''on'' else ''off'') @ [CHR 0x0A]"
proof -
  obtain st' calls where run: "int_writes cfu kbuf0 st ss = Some (st', calls)"
    "guarded False calls" "gpio_state st' = line_level (gpio_state st) calls"
    "gpio_state st' \<in> {0, 1}"
    using int_writes_track [OF assms(1,2)] by blast
  then have "snd (snd (mgpio_read_int copies_all st' count 0)) =
      (if line_level (gpio_state st) calls = 1 then ''on'' else ''off'') @ [CHR 0x0A]"
    using assms(3) by (auto simp: mgpio_read_int_def state_text_def copies_all_def Let_def)
  then show ?thesis using run by blast
qed

theorem gpio_state_tracks_line_witness:
  "\<exists>st' calls. int_writes copies_all (replicate 32 NUL) int_loaded [''on'', ''blink'', ''off''] =
      Some (st', calls) \<and> gpio_state st' = line_level 0 calls"
  using gpio_state_tracks_line
    [of "replicate 32 NUL" int_loaded 4 copies_all "[''on'', ''blink'', ''off'']"]
  by (auto simp: BUF_LEN_def)

text \<open>
  Loading and unloading.  The error chain of \<^verbatim>\<open>mgpio_init\<close> unwinds in reverse order at each of
  its seven exits, a successful load sets the pointers the unload tests, so that the unload gives
  back all five resources, and any series of loads and unloads is free of leaks and double releases.
\<close>

theorem mgpio_int_load_cycles_clean:
  assumes "list_all cdev_answers_ok as"
  shows "owned [] (concat (map int_cycle as)) = Some [] \<and>
    list_all (\<lambda>a. fst (int_load a) = 0 \<or> unwinds [] (snd (int_load a)) = Some []) as"
proof -
  have "map int_cycle as = map (load_cycle int_load (mgpio_exit_int int_loaded)) as"
    using assms by (simp add: list_all_iff int_cycle_load)
  then show ?thesis
    using mgpio_int.cycles_clean [OF assms] assms int_load_cases(1)
    by (simp only: list_all_iff) auto
qed

theorem mgpio_int_load_cycles_clean_witness:
  "owned [] (concat (map int_cycle
    [\<lparr>ans_alloc = 0, ans_cdev_add = 0, ans_class = Ok_ptr, ans_device = Ok_ptr,
      ans_valid = True, ans_request = 0, ans_direction = 0\<rparr>,
     \<lparr>ans_alloc = -12, ans_cdev_add = 0, ans_class = Ok_ptr, ans_device = Ok_ptr,
      ans_valid = True, ans_request = 0, ans_direction = 0\<rparr>])) = Some []"
  using mgpio_int_load_cycles_clean
    [of "[\<lparr>ans_alloc = 0, ans_cdev_add = 0, ans_class = Ok_ptr, ans_device = Ok_ptr,
      ans_valid = True, ans_request = 0, ans_direction = 0\<rparr>,
     \<lparr>ans_alloc = -12, ans_cdev_add = 0, ans_class = Ok_ptr, ans_device = Ok_ptr,
      ans_valid = True, ans_request = 0, ans_direction = 0\<rparr>]"]
  by (simp add: cdev_answers_ok_def ptr_ok_def)

end
