(* ===== verification/Gpio_Descriptor.thy ===== *)
theory Gpio_Descriptor
  imports Kernel
begin

text \<open>
  The platform driver \<^verbatim>\<open>16-gpio-descriptor/mgpio_desc.c\<close>: the file operations on one device, the
  binding of a device in \<^verbatim>\<open>mgpio_probe\<close> and \<^verbatim>\<open>mgpio_remove\<close> with the class all devices share, and
  the module's own registration.
\<close>

section \<open>File operations\<close>

text \<open>The part of \<^verbatim>\<open>struct mgpio_dev\<close> the operations depend on: \<open>has_lt\<close> is \<^verbatim>\<open>lt != NULL\<close>.\<close>

record desc_dev =
  desc_state :: int
  has_lt :: bool

definition mgpio_open_desc :: int where "mgpio_open_desc = 0"

definition mgpio_release_desc :: int where "mgpio_release_desc = 0"

text \<open>
  \<open>v\<close> is the answer of \<^verbatim>\<open>gpiod_get_value_cansleep\<close>.  \<^verbatim>\<open>snprintf\<close> keeps the first three characters of
  the text.  The result is the return value, the new position, the device and the bytes copied.
\<close>

definition mgpio_read_desc ::
    "user_copy \<Rightarrow> int \<Rightarrow> desc_dev \<Rightarrow> nat \<Rightarrow> nat \<Rightarrow> int \<times> nat \<times> desc_dev \<times> bytes" where
  "mgpio_read_desc copy_to_user v mdev len ppos =
     (if ppos \<noteq> 0 then (0, ppos, mdev, [])
      else
        let mdev = mdev\<lparr>desc_state := (if v \<noteq> 0 then 1 else 0)\<rparr>;
            tmp = take (4 - 1) (show_int v @ [CHR 0x0A])
        in if copy_to_user tmp \<noteq> 0 then (- EFAULT, ppos, mdev, [])
           else (int (length tmp), length tmp, mdev, tmp))"

definition DESC_KBUF :: nat where "DESC_KBUF = 8"

text \<open>The assignment \<^verbatim>\<open>mdev->state = v;\<close>, in the device and in the order of the calls.\<close>

definition desc_store :: "int \<Rightarrow> desc_dev \<times> kcall list \<Rightarrow> desc_dev \<times> kcall list" where
  "desc_store v p = (case p of (mdev, calls) \<Rightarrow> (mdev\<lparr>desc_state := v\<rparr>, calls @ [Store_state v]))"

definition mgpio_write_desc ::
    "user_copy \<Rightarrow> desc_dev \<Rightarrow> bytes \<Rightarrow> nat \<Rightarrow> (int \<times> desc_dev \<times> kcall list) option" where
  "mgpio_write_desc copy_from_user mdev buf len =
     (if len = 0 then Some (0, mdev, [])
      else
        let len = (if len > DESC_KBUF - 1 then DESC_KBUF - 1 else len) in
        if copy_from_user (take len buf) \<noteq> 0 then Some (- EFAULT, mdev, [])
        else do {
          kbuf \<leftarrow> c_string (overwrite (replicate DESC_KBUF NUL) (take len buf));
          v \<leftarrow> Some (if strn_eq 1 kbuf ''1'' \<or> strncase_eq 2 kbuf ''on'' then Some 1
            else if strn_eq 1 kbuf ''0'' \<or> strncase_eq 3 kbuf ''off'' then Some 0
            else None);
          (case v of
             None \<Rightarrow> Some (- EINVAL, mdev, [])
           | Some v \<Rightarrow> (case desc_store v (mdev, [Mutex_lock, Gpiod_set_value v]) of
               (mdev, calls) \<Rightarrow> Some (int len, mdev, calls @ [Mutex_unlock])))
        })"

section \<open>Probe and remove\<close>

record desc_answers = cdev_answers +
  ans_mdev :: kptr
  ans_of_node :: bool
  ans_lt :: kptr
  ans_gpiod :: kptr

text \<open>\<^verbatim>\<open>if (mdev->lt) gpiod_remove_lookup_table(mdev->lt);\<close>\<close>

definition drop_lt :: "bool \<Rightarrow> kcall list" where
  "drop_lt lt = (if lt then [Remove_lookup_table] else [])"

text \<open>
  The first half of \<^verbatim>\<open>mgpio_probe\<close>, up to the descriptor: an early return, or whether a lookup table
  was added, and the calls so far.
\<close>

definition probe_gpiod :: "bool \<Rightarrow> desc_answers \<Rightarrow> (int + bool) \<times> kcall list" where
  "probe_gpiod use_lookup a =
     (let calls = [Devm_kzalloc (ans_mdev a)] in
      if ans_mdev a = Null_ptr then (Inl (- ENOMEM), calls) else
      let calls = calls @ [Mutex_init] in
      if ans_of_node a then (Inr False, calls @ [Devm_gpiod_get (ans_gpiod a)])
      else if use_lookup then
        let calls = calls @ [Devm_kzalloc (ans_lt a)] in
        if ans_lt a = Null_ptr then (Inl (- ENOMEM), calls)
        else (Inr True, calls @ [Add_lookup_table, Devm_gpiod_get (ans_gpiod a)])
      else (Inl (- ENODEV), calls))"

text \<open>
  \<open>mgpio_probe_desc use_lookup cls a\<close>: the return value, the driver data, the new value of the shared
  pointer \<^verbatim>\<open>mgpio_class\<close> and the calls.
\<close>

definition mgpio_probe_desc ::
    "bool \<Rightarrow> kptr \<Rightarrow> desc_answers \<Rightarrow> int \<times> desc_dev option \<times> kptr \<times> kcall list" where
  "mgpio_probe_desc use_lookup cls a =
     (case probe_gpiod use_lookup a of
        (Inl e, calls) \<Rightarrow> (e, None, cls, calls)
      | (Inr lt, calls) \<Rightarrow>
          if IS_ERR (ans_gpiod a) then (PTR_ERR (ans_gpiod a), None, cls, calls @ drop_lt lt) else
          let calls = calls @ [Alloc_chrdev_region (ans_alloc a)] in
          if ans_alloc a \<noteq> 0 then (ans_alloc a, None, cls, calls @ drop_lt lt) else
          let calls = calls @ [Cdev_init, Cdev_add (ans_cdev_add a)] in
          if ans_cdev_add a \<noteq> 0
          then (ans_cdev_add a, None, cls, calls @ [Unregister_chrdev_region] @ drop_lt lt) else
          let (cls, calls) = (if cls = Null_ptr then (ans_class a, calls @ [Class_create (ans_class a)])
            else (cls, calls)) in
          if IS_ERR cls
          then (PTR_ERR cls, None, Null_ptr,
            calls @ [Cdev_del, Unregister_chrdev_region] @ drop_lt lt)
          else (0, Some \<lparr>desc_state = 0, has_lt = lt\<rparr>, cls,
            calls @ [Device_create (ans_device a), Set_drvdata]))"

text \<open>\<^verbatim>\<open>mgpio_remove\<close>: the new value of \<^verbatim>\<open>mgpio_class\<close> and the calls.\<close>

definition mgpio_remove_desc :: "desc_dev \<Rightarrow> kptr \<times> kcall list" where
  "mgpio_remove_desc mdev =
     (Null_ptr, drop_lt (has_lt mdev) @
       [Device_destroy, Cdev_del, Unregister_chrdev_region, Class_destroy])"

section \<open>The module\<close>

record desc_module_answers =
  ans_driver :: int
  ans_pdev :: kptr

text \<open>The return value, \<^verbatim>\<open>pdev_self\<close> and the calls.\<close>

definition mgpio_init_desc :: "bool \<Rightarrow> desc_module_answers \<Rightarrow> int \<times> kptr \<times> kcall list" where
  "mgpio_init_desc use_lookup a =
     (let calls = [Platform_driver_register (ans_driver a)] in
      if ans_driver a \<noteq> 0 then (ans_driver a, Null_ptr, calls) else
      if use_lookup then
        let calls = calls @ [Platform_device_register (ans_pdev a)] in
        if IS_ERR (ans_pdev a)
        then (PTR_ERR (ans_pdev a), ans_pdev a, calls @ [Platform_driver_unregister])
        else (0, ans_pdev a, calls)
      else (0, Null_ptr, calls))"

definition mgpio_exit_desc :: "bool \<Rightarrow> kptr \<Rightarrow> kcall list" where
  "mgpio_exit_desc use_lookup pdev_self =
     (if use_lookup \<and> pdev_self \<noteq> Null_ptr \<and> \<not> IS_ERR pdev_self
      then [Platform_device_unregister] else []) @ [Platform_driver_unregister]"

section \<open>Resources of one device and of the module\<close>

text \<open>
  \<^verbatim>\<open>devm_gpiod_get\<close> returns a descriptor or an error code; the other pointers are as for any
  character device.
\<close>

definition desc_answers_ok :: "desc_answers \<Rightarrow> bool" where
  "desc_answers_ok a \<longleftrightarrow> cdev_answers_ok a \<and> ptr_ok (ans_gpiod a) \<and> ans_gpiod a \<noteq> Null_ptr"

definition desc_bind :: "bool \<Rightarrow> desc_answers \<Rightarrow> int \<times> kcall list" where
  "desc_bind lk a = (case mgpio_probe_desc lk Null_ptr a of (ret, _, _, calls) \<Rightarrow> (ret, calls))"

lemmas desc_defs = desc_bind_def mgpio_probe_desc_def probe_gpiod_def drop_lt_def

definition lt_resource :: "bool \<Rightarrow> kresource list" where
  "lt_resource lt = (if lt then [Lookup_table] else [])"

lemma probe_gpiod_cases:
  "probe_gpiod lk a = (Inl e, calls) \<Longrightarrow> e < 0 \<and> unwinds h calls = Some h"
  "probe_gpiod lk a = (Inr lt, calls) \<Longrightarrow>
    lt = (lk \<and> \<not> ans_of_node a) \<and> unwinds h calls = Some (lt_resource lt @ h)"
  by (auto simp: probe_gpiod_def lt_resource_def ENOMEM_def ENODEV_def Let_def split: if_splits)

lemma drop_lt_unwinds: "unwinds (lt_resource lt @ h) (drop_lt lt) = Some h"
  by (simp add: lt_resource_def drop_lt_def)

lemma desc_bind_failed:
  assumes "desc_answers_ok a" "fst (desc_bind lk a) \<noteq> 0"
  shows "unwinds [] (snd (desc_bind lk a)) = Some []"
proof -
  obtain r calls where g: "probe_gpiod lk a = (r, calls)" by fastforce
  show ?thesis
  proof (cases r)
    case (Inl e)
    then show ?thesis
      using g probe_gpiod_cases(1) [of lk a e calls "[]"] by (simp add: desc_bind_def mgpio_probe_desc_def)
  next
    case (Inr lt)
    with g have "unwinds [] calls = Some (lt_resource lt)"
      using probe_gpiod_cases(2) [of lk a lt calls "[]"] by simp
    then show ?thesis
      using g Inr assms drop_lt_unwinds [of lt "[]"]
      by (cases "ans_gpiod a"; cases "ans_alloc a = 0"; cases "ans_cdev_add a = 0"; cases "ans_class a";
          simp add: desc_bind_def mgpio_probe_desc_def unwinds_append desc_answers_ok_def
            cdev_answers_ok_def)
  qed
qed

lemma desc_bind_bound:
  assumes "desc_answers_ok a" "ans_device a = Ok_ptr" "fst (desc_bind lk a) = 0"
  shows "owned [] (snd (desc_bind lk a))
    = Some (cdev_resources @ lt_resource (lk \<and> \<not> ans_of_node a))"
proof -
  obtain r calls where g: "probe_gpiod lk a = (r, calls)" by fastforce
  show ?thesis
  proof (cases r)
    case (Inl e)
    then show ?thesis
      using g assms(3) probe_gpiod_cases(1) [of lk a e calls "[]"]
      by (simp add: desc_bind_def mgpio_probe_desc_def)
  next
    case (Inr lt)
    with g have "owned [] calls = Some (lt_resource lt)" "lt = (lk \<and> \<not> ans_of_node a)"
      using probe_gpiod_cases(2) [of lk a lt calls "[]"] unwinds_owned by auto
    then show ?thesis
      using g Inr assms
      by (cases "ans_gpiod a"; cases "ans_alloc a = 0"; cases "ans_cdev_add a = 0"; cases "ans_class a";
          simp add: desc_bind_def mgpio_probe_desc_def owned_append desc_answers_ok_def
            cdev_answers_ok_def ptr_ok_def cdev_resources_def)
  qed
qed

lemma remove_releases:
  "owned (cdev_resources @ lt_resource lt) (snd (mgpio_remove_desc \<lparr>desc_state = v, has_lt = lt\<rparr>))
    = Some []"
  by (simp add: mgpio_remove_desc_def drop_lt_def lt_resource_def cdev_resources_def)

text \<open>
  A device from the device tree and one behind the lookup table keep the contract of a module's
  load and unload, provided \<^verbatim>\<open>device_create\<close> works.
\<close>

interpretation desc_tree: kernel_module
  "\<lambda>a. desc_answers_ok a \<and> ans_device a = Ok_ptr \<and> ans_of_node a" "desc_bind lk"
  "snd (mgpio_remove_desc \<lparr>desc_state = v, has_lt = False\<rparr>)" "cdev_resources @ lt_resource False"
  for lk v
  by unfold_locales
    (simp_all add: desc_bind_bound unwinds_owned [OF desc_bind_failed] remove_releases)

interpretation desc_lookup: kernel_module
  "\<lambda>a. desc_answers_ok a \<and> ans_device a = Ok_ptr \<and> \<not> ans_of_node a" "desc_bind True"
  "snd (mgpio_remove_desc \<lparr>desc_state = v, has_lt = True\<rparr>)" "cdev_resources @ lt_resource True"
  for v
  by unfold_locales
    (simp_all add: desc_bind_bound unwinds_owned [OF desc_bind_failed] remove_releases)

definition desc_load :: "bool \<Rightarrow> desc_module_answers \<Rightarrow> int \<times> kcall list" where
  "desc_load lk a = (case mgpio_init_desc lk a of (ret, _, calls) \<Rightarrow> (ret, calls))"

definition pdev_answer_ok :: "desc_module_answers \<Rightarrow> bool" where
  "pdev_answer_ok a \<longleftrightarrow> ptr_ok (ans_pdev a) \<and> ans_pdev a \<noteq> Null_ptr"

lemma desc_load_cases:
  assumes "pdev_answer_ok a"
  shows "owned [] (snd (desc_load lk a)) = Some (if fst (desc_load lk a) = 0
    then (if lk then [Platform_device] else []) @ [Platform_driver] else [])"
  using assms
  by (cases "ans_driver a = 0"; cases lk; cases "ans_pdev a";
      simp add: desc_load_def mgpio_init_desc_def pdev_answer_ok_def ptr_ok_def)

interpretation desc_module: kernel_module pdev_answer_ok "desc_load lk"
  "mgpio_exit_desc lk Ok_ptr" "(if lk then [Platform_device] else []) @ [Platform_driver]"
  for lk
  by unfold_locales (simp_all add: desc_load_cases mgpio_exit_desc_def)

section \<open>The parser\<close>

lemma desc_parse:
  assumes "length bs < DESC_KBUF"
  shows "c_string (overwrite (replicate DESC_KBUF NUL) bs) = Some (takeWhile (\<lambda>c. c \<noteq> NUL) bs)"
proof -
  obtain k where "DESC_KBUF - length bs = Suc k" using assms by (cases "DESC_KBUF - length bs") auto
  then show ?thesis by (simp add: overwrite_def c_string_prefix)
qed

text \<open>The level a command asks for.\<close>

definition desc_level :: "bytes \<Rightarrow> int option" where
  "desc_level cmd =
     (if take 1 cmd = ''1'' \<or> map tolower (take 2 cmd) = ''on'' then Some 1
      else if take 1 cmd = ''0'' \<or> map tolower (take 3 cmd) = ''off'' then Some 0 else None)"

section \<open>Properties\<close>

text \<open>
  What a \<^verbatim>\<open>write\<close> does, on every branch.  It takes at most 7 bytes and says so in its return
  value, accepts a leading "1" or "on" and a leading "0" or "off", drives the line with the lock
  held, and changes neither line nor state otherwise.
\<close>

theorem mgpio_write_desc_spec:
  assumes "len \<le> length buf"
  shows "mgpio_write_desc cfu mdev buf len =
    (let bs = take 7 (take len buf) in
     Some (if len = 0 then (0, mdev, [])
       else if cfu bs \<noteq> 0 then (- EFAULT, mdev, [])
       else (case desc_level (takeWhile (\<lambda>c. c \<noteq> NUL) bs) of
           None \<Rightarrow> (- EINVAL, mdev, [])
         | Some v \<Rightarrow> (int (length bs), mdev\<lparr>desc_state := v\<rparr>,
             [Mutex_lock, Gpiod_set_value v, Store_state v, Mutex_unlock]))))"
proof -
  define bs where "bs = take 7 (take len buf)"
  have n: "(if len > DESC_KBUF - 1 then DESC_KBUF - 1 else len) = length bs" "take (length bs) buf = bs"
    using assms by (simp_all add: bs_def DESC_KBUF_def min_def)
  have "length bs < DESC_KBUF" by (simp add: bs_def DESC_KBUF_def)
  note parse = desc_parse [OF this]
  have lower: "map tolower (take 2 ''on'') = ''on''" "map tolower (take 3 ''off'') = ''off''"
    "take 1 ''1'' = ''1''" "take 1 ''0'' = ''0''"
    by (simp_all add: tolower_def)
  show ?thesis
    unfolding bs_def [symmetric] Let_def mgpio_write_desc_def desc_store_def n parse strn_eq_def strncase_eq_def
      lower desc_level_def
    by simp
qed

theorem mgpio_write_desc_spec_witness:
  "mgpio_write_desc copies_all \<lparr>desc_state = 0, has_lt = True\<rparr> ''1234567890'' 10
    = Some (7, \<lparr>desc_state = 1, has_lt = True\<rparr>, [Mutex_lock, Gpiod_set_value 1, Store_state 1, Mutex_unlock])"
  using mgpio_write_desc_spec [of 10 "''1234567890''" copies_all "\<lparr>desc_state = 0, has_lt = True\<rparr>"]
  by (simp add: copies_all_def desc_level_def)

text \<open>
  A \<^verbatim>\<open>read\<close> does not look at the length the caller asked for.  It stores the level and the line
  end, two bytes, and claims two, even for a buffer of one byte or none; a caller with room enough
  gets the line's level.
\<close>

theorem mgpio_read_desc_ignores_len:
  assumes "v \<in> {0, 1}"
  shows "mgpio_read_desc copies_all v mdev len 0 =
    (2, 2, mdev\<lparr>desc_state := v\<rparr>, (if v = 1 then ''1'' else ''0'') @ [CHR 0x0A])"
  using assms
  by (auto simp: mgpio_read_desc_def copies_all_def show_int_def show_nat_digit digit_char_def)

theorem mgpio_read_desc_ignores_len_witness:
  "(1::nat) < length (snd (snd (snd
    (mgpio_read_desc copies_all 1 \<lparr>desc_state = 0, has_lt = False\<rparr> 1 0))))"
  using mgpio_read_desc_ignores_len [of 1 "\<lparr>desc_state = 0, has_lt = False\<rparr>" 1] by simp

text \<open>
  Binding and unbinding one device, with the device tree or with the lookup table.  A failed
  probe unwinds in reverse order, an unbinding gives back everything, and no series of bindings
  leaks or releases twice, as long as \<^verbatim>\<open>device_create\<close>, whose answer the driver ignores, succeeds.
\<close>

theorem mgpio_desc_bind_cycles_clean:
  assumes "list_all (\<lambda>a. desc_answers_ok a \<and> ans_device a = Ok_ptr \<and> ans_of_node a = (\<not> lt)) as"
  shows "owned [] (concat (map (load_cycle (desc_bind True)
      (snd (mgpio_remove_desc \<lparr>desc_state = v, has_lt = lt\<rparr>))) as)) = Some [] \<and>
    list_all (\<lambda>a. fst (desc_bind True a) = 0 \<or> unwinds [] (snd (desc_bind True a)) = Some []) as"
  using desc_tree.cycles_clean [of as True v] desc_lookup.cycles_clean [of as v] desc_bind_failed assms
  by (cases lt) (auto simp: list_all_iff)

theorem mgpio_desc_bind_cycles_clean_witness:
  "owned [] (concat (map (load_cycle (desc_bind True)
      (snd (mgpio_remove_desc \<lparr>desc_state = 1, has_lt = True\<rparr>)))
    [\<lparr>ans_alloc = 0, ans_cdev_add = 0, ans_class = Ok_ptr, ans_device = Ok_ptr, ans_mdev = Ok_ptr,
      ans_of_node = False, ans_lt = Ok_ptr, ans_gpiod = Ok_ptr\<rparr>])) = Some []"
  using mgpio_desc_bind_cycles_clean
    [of True "[\<lparr>ans_alloc = 0, ans_cdev_add = 0, ans_class = Ok_ptr, ans_device = Ok_ptr,
      ans_mdev = Ok_ptr, ans_of_node = False, ans_lt = Ok_ptr, ans_gpiod = Ok_ptr\<rparr>]" 1]
  by (simp add: desc_answers_ok_def cdev_answers_ok_def ptr_ok_def)

text \<open>
  The answer of \<^verbatim>\<open>device_create\<close> is dropped.  Whatever error it reports, a probe that got that
  far returns 0 and keeps the driver bound, without a device node.
\<close>

theorem mgpio_probe_desc_ignores_device_error:
  assumes "desc_answers_ok a" "ans_device a = Err_ptr e" "ans_mdev a = Ok_ptr" "ans_of_node a"
    "ans_gpiod a = Ok_ptr" "ans_alloc a = 0" "ans_cdev_add a = 0" "ans_class a = Ok_ptr"
  shows "fst (desc_bind lk a) = 0 \<and>
    owned [] (snd (desc_bind lk a)) = Some [Dev_class, Cdev, Chrdev_region]"
  using assms by (simp add: desc_bind_def mgpio_probe_desc_def probe_gpiod_def)

theorem mgpio_probe_desc_ignores_device_error_witness:
  "fst (desc_bind False \<lparr>ans_alloc = 0, ans_cdev_add = 0, ans_class = Ok_ptr,
      ans_device = Err_ptr (-17), ans_mdev = Ok_ptr, ans_of_node = True, ans_lt = Null_ptr,
      ans_gpiod = Ok_ptr\<rparr>) = 0"
  using mgpio_probe_desc_ignores_device_error
    [of "\<lparr>ans_alloc = 0, ans_cdev_add = 0, ans_class = Ok_ptr,
      ans_device = Err_ptr (-17), ans_mdev = Ok_ptr, ans_of_node = True, ans_lt = Null_ptr,
      ans_gpiod = Ok_ptr\<rparr>" "-17" False]
  by (simp add: desc_answers_ok_def cdev_answers_ok_def ptr_ok_def)

text \<open>
  The module's own load and unload are free of leaks for a fixed \<^verbatim>\<open>use_lookup\<close>; but the parameter
  can be written while the module is loaded, and an unload that sees it cleared unregisters the
  driver and leaves the platform device behind.
\<close>

lemma mgpio_desc_module_loads:
  assumes "list_all pdev_answer_ok as"
  shows "list_all (\<lambda>a. if fst (desc_load True a) = 0
      then owned [] (snd (desc_load True a) @ mgpio_exit_desc False Ok_ptr) = Some [Platform_device]
      else unwinds [] (snd (desc_load True a)) = Some []) as"
proof -
  have "if fst (desc_load True a) = 0
      then owned [] (snd (desc_load True a) @ mgpio_exit_desc False Ok_ptr) = Some [Platform_device]
      else unwinds [] (snd (desc_load True a)) = Some []" if "pdev_answer_ok a" for a
    using that by (cases "ans_driver a = 0"; cases "ans_pdev a";
        simp add: desc_load_def mgpio_init_desc_def mgpio_exit_desc_def pdev_answer_ok_def ptr_ok_def)
  then show ?thesis using assms by (simp only: list_all_iff) blast
qed

theorem mgpio_desc_module_cycles:
  assumes "list_all pdev_answer_ok as" "ans_driver a = 0" "ans_pdev a = Ok_ptr"
  shows "owned [] (concat (map (load_cycle (desc_load lk) (mgpio_exit_desc lk Ok_ptr)) as)) = Some [] \<and>
    owned [] (snd (desc_load True a) @ mgpio_exit_desc False Ok_ptr) = Some [Platform_device]"
  using desc_module.cycles_clean [OF assms(1)] assms(2,3)
  by (simp_all add: desc_load_def mgpio_init_desc_def mgpio_exit_desc_def)

theorem mgpio_desc_module_cycles_witness:
  "owned [] (snd (desc_load True \<lparr>ans_driver = 0, ans_pdev = Ok_ptr\<rparr>) @
    mgpio_exit_desc False Ok_ptr) = Some [Platform_device]"
  using mgpio_desc_module_cycles [of "[]" "\<lparr>ans_driver = 0, ans_pdev = Ok_ptr\<rparr>"] by simp

end
