(* ===== verification/Gpio_Callers.thy ===== *)
theory Gpio_Callers
  imports Gpio_Register Gpio_Integer Gpio_Descriptor
begin

text \<open>
  The three GPIO drivers under several callers at once.  A caller runs a file operation of the
  driver's table as a list of actions on what all callers share: the driver's mutex, the line, and
  the variable that remembers its level (\<^verbatim>\<open>gpio_state\<close>, \<^verbatim>\<open>mdev->state\<close>).  Between two actions any other
  caller may run.  The actions of a \<^verbatim>\<open>write\<close> are read off the calls of the operation's model, stores
  included; what a \<^verbatim>\<open>read\<close> tells or stores is computed by its model from the value it has loaded.
\<close>

section \<open>File operations\<close>

datatype file_op = F_open | F_release | F_read | F_write | F_llseek

text \<open>The fields each table sets.\<close>

definition mgpio_fops_reg :: "file_op set" where
  "mgpio_fops_reg = {F_open, F_release, F_write}"

definition mgpio_fops_int :: "file_op set" where
  "mgpio_fops_int = {F_write, F_read, F_open, F_release}"

definition mgpio_fops_desc :: "file_op set" where
  "mgpio_fops_desc = {F_open, F_read, F_write, F_release, F_llseek}"

section \<open>Actions\<close>

text \<open>
  \<open>Sample\<close> reads the line into a local variable and \<open>Keep f\<close> stores what \<open>f\<close> makes of it; \<open>Report f\<close> gives
  a reader the answer that \<open>f\<close> makes of the remembered level.
\<close>

datatype action = Acquire | Release | Drive int | Store int | Sample | Keep "int \<Rightarrow> int"
  | Report "int \<Rightarrow> bytes"

fun actions_of :: "kcall \<Rightarrow> action list" where
  "actions_of Mutex_lock = [Acquire]"
| "actions_of Mutex_unlock = [Release]"
| "actions_of (Gpio_set_value v) = [Drive v]"
| "actions_of (Gpiod_set_value v) = [Drive v]"
| "actions_of (Store_state v) = [Store v]"
| "actions_of (Writel w off) =
     (if bit w GPIO_NUM \<and> off = GPSET0_OFF then [Drive 1]
      else if bit w GPIO_NUM \<and> off = GPCLR0_OFF then [Drive 0] else [])"
| "actions_of _ = []"

definition program :: "kcall list \<Rightarrow> action list" where
  "program calls = concat (map actions_of calls)"

text \<open>The bytes a reader gets, and the value a reader of the descriptor driver leaves behind.\<close>

definition int_answer :: "user_copy \<Rightarrow> int_state \<Rightarrow> nat \<Rightarrow> nat \<Rightarrow> int \<Rightarrow> bytes" where
  "int_answer ctu st count ppos v = snd (snd (mgpio_read_int ctu (st\<lparr>gpio_state := v\<rparr>) count ppos))"

definition desc_kept :: "user_copy \<Rightarrow> desc_dev \<Rightarrow> nat \<Rightarrow> int \<Rightarrow> int" where
  "desc_kept ctu mdev len v = desc_state (fst (snd (snd (mgpio_read_desc ctu v mdev len 0))))"

text \<open>
  What the operations of each driver may do to the shared state, for any arguments.  A read of the
  descriptor driver behind the start of the file touches nothing.
\<close>

inductive reg_offers :: "action list \<Rightarrow> bool" where
  reg_write: "F_write \<in> mgpio_fops_reg \<Longrightarrow>
     mgpio_write_reg strim cfu kbuf0 ubuf len = Some (ret, calls) \<Longrightarrow> reg_offers (program calls)"

inductive int_offers :: "action list \<Rightarrow> bool" where
  int_write: "F_write \<in> mgpio_fops_int \<Longrightarrow>
     mgpio_write_int cfu kbuf0 st ubuf count = Some (ret, st', calls) \<Longrightarrow> int_offers (program calls)"
| int_read: "F_read \<in> mgpio_fops_int \<Longrightarrow> int_offers [Report (int_answer ctu st count ppos)]"

inductive desc_offers :: "action list \<Rightarrow> bool" where
  desc_write: "F_write \<in> mgpio_fops_desc \<Longrightarrow>
     mgpio_write_desc cfu mdev buf len = Some (ret, mdev', calls) \<Longrightarrow> desc_offers (program calls)"
| desc_read: "F_read \<in> mgpio_fops_desc \<Longrightarrow> desc_offers [Sample, Keep (desc_kept ctu mdev len)]"

section \<open>Callers\<close>

text \<open>
  \<open>orders\<close> lists the levels commanded by the callers that got the mutex, in the order in which they
  got it; \<open>told\<close> is the last answer each reader was given.
\<close>

record gpio_system =
  level :: int
  kept :: int
  holder :: "nat option"
  todo :: "nat \<Rightarrow> action list"
  sampled :: "nat \<Rightarrow> int"
  told :: "nat \<Rightarrow> bytes"
  orders :: "int list"

definition drives :: "action list \<Rightarrow> int list" where
  "drives as = concat (map (\<lambda>a. case a of Drive v \<Rightarrow> [v] | _ \<Rightarrow> []) as)"

definition stores :: "action list \<Rightarrow> int list" where
  "stores as = concat (map (\<lambda>a. case a of Store v \<Rightarrow> [v] | _ \<Rightarrow> []) as)"

text \<open>One action of caller \<open>i\<close>, who has \<open>rest\<close> still to do; \<open>None\<close> is to wait for the mutex.\<close>

fun act :: "nat \<Rightarrow> action list \<Rightarrow> action \<Rightarrow> gpio_system \<Rightarrow> gpio_system option" where
  "act i rest Acquire s = (if holder s = None
     then Some (s\<lparr>holder := Some i, orders := orders s @ drives rest\<rparr>) else None)"
| "act i rest Release s = Some (s\<lparr>holder := None\<rparr>)"
| "act i rest (Drive v) s = Some (s\<lparr>level := v\<rparr>)"
| "act i rest (Store v) s = Some (s\<lparr>kept := v\<rparr>)"
| "act i rest Sample s = Some (s\<lparr>sampled := (sampled s)(i := level s)\<rparr>)"
| "act i rest (Keep f) s = Some (s\<lparr>kept := f (sampled s i)\<rparr>)"
| "act i rest (Report f) s = Some (s\<lparr>told := (told s)(i := f (kept s))\<rparr>)"

inductive gpio_step :: "(action list \<Rightarrow> bool) \<Rightarrow> gpio_system \<Rightarrow> gpio_system \<Rightarrow> bool"
  for offers :: "action list \<Rightarrow> bool" where
  call: "todo s i = [] \<Longrightarrow> offers as \<Longrightarrow> gpio_step offers s (s\<lparr>todo := (todo s)(i := as)\<rparr>)"
| run: "todo s i = a # rest \<Longrightarrow> act i rest a (s\<lparr>todo := (todo s)(i := rest)\<rparr>) = Some t \<Longrightarrow>
     gpio_step offers s t"

text \<open>A loaded driver: nobody calls, the line has some level, and the variable remembers it.\<close>

definition gpio_loaded :: "int \<Rightarrow> gpio_system \<Rightarrow> bool" where
  "gpio_loaded v s \<longleftrightarrow> level s = v \<and> kept s = v \<and> holder s = None \<and> todo s = (\<lambda>_. []) \<and> orders s = []"

section \<open>The contract of a driver that locks\<close>

text \<open>
  What an operation may do: touch the mutex and the line not at all, or only in one region under the
  mutex.
\<close>

definition unlocked :: "action list \<Rightarrow> bool" where
  "unlocked as \<longleftrightarrow> list_all (\<lambda>a. a \<in> {Sample} \<union> range Keep \<union> range Report) as"

definition region :: "action list \<Rightarrow> bool" where
  "region as \<longleftrightarrow> (\<exists>b. as = b @ [Release] \<and> list_all (\<lambda>a. a \<in> range Drive \<union> range Store) b)"

lemma region_simps [simp]:
  "region (Drive v # as) \<longleftrightarrow> region as" "region (Store v # as) \<longleftrightarrow> region as"
  "region (Release # as) \<longleftrightarrow> as = []" "\<not> region []" "\<not> region (Acquire # as)"
  "\<not> region (Sample # as)" "\<not> region (Keep f # as)" "\<not> region (Report g # as)"
  by (auto simp: region_def Cons_eq_append_conv append_eq_Cons_conv)

lemma unlocked_simps [simp]:
  "unlocked []" "unlocked (Sample # as) \<longleftrightarrow> unlocked as" "unlocked (Keep f # as) \<longleftrightarrow> unlocked as"
  "unlocked (Report g # as) \<longleftrightarrow> unlocked as" "\<not> unlocked (Acquire # as)" "\<not> unlocked (Release # as)"
  "\<not> unlocked (Drive v # as)" "\<not> unlocked (Store v # as)"
  by (auto simp: unlocked_def)

lemma drives_simps [simp]:
  "drives [] = []" "drives (Drive v # as) = v # drives as" "drives (Store v # as) = drives as"
  "drives (Release # as) = drives as" "drives (Acquire # as) = drives as"
  by (simp_all add: drives_def)

lemma stores_simps [simp]:
  "stores [] = []" "stores (Drive v # as) = stores as" "stores (Store v # as) = v # stores as"
  "stores (Release # as) = stores as" "stores (Acquire # as) = stores as"
  by (simp_all add: stores_def)

definition keeps :: "action list \<Rightarrow> bool" where
  "keeps as \<longleftrightarrow> list_ex (\<lambda>a. a \<in> range Keep) as"

lemma keeps_simps [simp]:
  "\<not> keeps []" "keeps (Keep f # as)" "keeps (Drive v # as) \<longleftrightarrow> keeps as"
  "keeps (Store v # as) \<longleftrightarrow> keeps as" "keeps (Acquire # as) \<longleftrightarrow> keeps as"
  "keeps (Release # as) \<longleftrightarrow> keeps as" "keeps (Sample # as) \<longleftrightarrow> keeps as"
  "keeps (Report g # as) \<longleftrightarrow> keeps as"
  by (auto simp: keeps_def)

definition calm :: "action list \<Rightarrow> bool" where
  "calm as \<longleftrightarrow> unlocked as \<or> (\<exists>b. as = Acquire # b \<and> region b)"

lemma calm_simps [simp]:
  "calm []" "calm (Acquire # as) \<longleftrightarrow> region as" "calm (Sample # as) \<longleftrightarrow> unlocked as"
  "calm (Keep f # as) \<longleftrightarrow> unlocked as" "calm (Report g # as) \<longleftrightarrow> unlocked as" "\<not> calm (Release # as)"
  "\<not> calm (Drive v # as)" "\<not> calm (Store v # as)"
  by (auto simp: calm_def)

lemma unlocked_calm: "unlocked as \<Longrightarrow> calm as"
  by (simp add: calm_def)

text \<open>What the caller that holds the mutex has still to do.\<close>

definition pending :: "gpio_system \<Rightarrow> action list" where
  "pending s = (case holder s of None \<Rightarrow> [] | Some i \<Rightarrow> todo s i)"

definition shapes_ok :: "gpio_system \<Rightarrow> bool" where
  "shapes_ok s \<longleftrightarrow> (\<forall>i. if holder s = Some i then region (todo s i) else calm (todo s i))"

definition line_ok :: "int \<Rightarrow> gpio_system \<Rightarrow> bool" where
  "line_ok v s \<longleftrightarrow> shapes_ok s \<and> last (v # orders s) = last (level s # drives (pending s))"

lemma idle_not_holder: "shapes_ok s \<Longrightarrow> todo s i = [] \<Longrightarrow> holder s \<noteq> Some i"
  unfolding shapes_ok_def by (metis region_simps(4))

text \<open>One action keeps the shapes, and the level the pending actions will leave.\<close>

lemma shapes_ok_run:
  assumes "todo s i = a # rest" "act i rest a (s\<lparr>todo := (todo s)(i := rest)\<rparr>) = Some t" "shapes_ok s"
  shows "shapes_ok t"
proof -
  have here: "if holder s = Some i then region (a # rest) else calm (a # rest)"
    using assms(1,3) by (metis shapes_ok_def)
  have others: "if holder s = Some j then region (todo s j) else calm (todo s j)" for j
    using assms(3) by (simp add: shapes_ok_def)
  show ?thesis unfolding shapes_ok_def
  proof
    fix j
    show "if holder t = Some j then region (todo t j) else calm (todo t j)"
      using here others [of j] assms(2) by (cases a) (auto simp: unlocked_calm split: if_splits)
  qed
qed

lemma line_run:
  assumes "todo s i = a # rest" "act i rest a (s\<lparr>todo := (todo s)(i := rest)\<rparr>) = Some t" "shapes_ok s"
    and "last (v # orders s) = last (level s # drives (pending s))"
  shows "last (v # orders t) = last (level t # drives (pending t))"
proof -
  have here: "if holder s = Some i then region (a # rest) else calm (a # rest)"
    using assms(1,3) by (metis shapes_ok_def)
  show ?thesis
  proof (cases "holder s = Some i")
    case True
    with here assms(1,2,4) show ?thesis by (cases a) (auto simp: pending_def)
  next
    case False
    with here assms(2) have "a = Acquire \<and> holder s = None \<or> a = Sample \<or> a \<in> range Keep \<or> a \<in> range Report"
      by (cases a) (auto split: if_splits)
    then show ?thesis
      using False assms(2,4) by (elim disjE) (auto simp: pending_def split: option.splits)
  qed
qed

locale locking_driver =
  fixes offers :: "action list \<Rightarrow> bool"
  assumes offered: "offers as \<Longrightarrow> calm as"
begin

lemma shapes_ok_step: "gpio_step offers s t \<Longrightarrow> shapes_ok s \<Longrightarrow> shapes_ok t"
proof (induction rule: gpio_step.induct)
  case (call s i as)
  then show ?case using offered idle_not_holder [of s i] by (simp add: shapes_ok_def)
next
  case (run s i a rest t)
  then show ?case by (rule shapes_ok_run)
qed

lemma line_ok_step: "gpio_step offers s t \<Longrightarrow> line_ok v s \<Longrightarrow> line_ok v t"
proof (induction rule: gpio_step.induct)
  case (call s i as)
  then have "pending (s\<lparr>todo := (todo s)(i := as)\<rparr>) = pending s"
    using idle_not_holder [of s i] by (auto simp: line_ok_def pending_def split: option.splits)
  moreover have "shapes_ok (s\<lparr>todo := (todo s)(i := as)\<rparr>)"
    using call shapes_ok_step [OF gpio_step.call] by (simp add: line_ok_def)
  ultimately show ?case using call by (simp add: line_ok_def)
next
  case (run s i a rest t)
  then show ?case
    using shapes_ok_run [OF run(1,2)] line_run [OF run(1,2)] by (simp add: line_ok_def)
qed

lemma line_ok_reachable: "reach (gpio_loaded v) (gpio_step offers) s \<Longrightarrow> line_ok v s"
proof (induction rule: reach.induct)
  case (reach_init s)
  then show ?case by (simp add: gpio_loaded_def line_ok_def shapes_ok_def pending_def)
qed (rule line_ok_step)

lemma line_follows_orders:
  assumes "reach (gpio_loaded v) (gpio_step offers) s" "holder s = None"
  shows "level s = last (v # orders s)"
  using line_ok_reachable [OF assms(1)] assms(2) by (simp add: line_ok_def pending_def)

lemma only_holder_drives:
  assumes "reach (gpio_loaded v) (gpio_step offers) s" "todo s i = Drive w # rest"
  shows "holder s = Some i"
  using line_ok_reachable [OF assms(1)] assms(2) unfolding line_ok_def shapes_ok_def
  by (metis calm_simps(7))

text \<open>Nobody waits for ever: the holder can go on, and without a holder everybody can.\<close>

lemma holder_goes_on:
  assumes "reach (gpio_loaded v) (gpio_step offers) s" "holder s = Some i"
  shows "\<exists>a rest t. todo s i = a # rest \<and> act i rest a (s\<lparr>todo := (todo s)(i := rest)\<rparr>) = Some t"
proof -
  have "region (todo s i)"
    using line_ok_reachable [OF assms(1)] assms(2) by (simp add: line_ok_def shapes_ok_def)
  then obtain a rest where "todo s i = a # rest" "region (a # rest)" by (cases "todo s i") auto
  then show ?thesis by (cases a) auto
qed

end

locale remembering_driver = locking_driver +
  assumes stores_what_it_drives: "offers (Acquire # b) \<Longrightarrow> stores b = drives b"
    and never_keeps: "offers as \<Longrightarrow> \<not> keeps as"
begin

definition memory_ok :: "gpio_system \<Rightarrow> bool" where
  "memory_ok s \<longleftrightarrow> last (kept s # stores (pending s)) = last (level s # drives (pending s)) \<and>
     (\<forall>i. \<not> keeps (todo s i)) \<and> (\<forall>i b. todo s i = Acquire # b \<longrightarrow> stores b = drives b)"

lemma memory_ok_step: "gpio_step offers s t \<Longrightarrow> line_ok v s \<Longrightarrow> memory_ok s \<Longrightarrow> memory_ok t"
proof (induction rule: gpio_step.induct)
  case (call s i as)
  then have "holder s \<noteq> Some i" by (simp add: line_ok_def idle_not_holder)
  with call show ?case
    using stores_what_it_drives never_keeps
    by (auto simp: memory_ok_def pending_def split: option.splits)
next
  case (run s i a rest t)
  then have shape: "if holder s = Some i then region (a # rest) else calm (a # rest)"
    by (metis line_ok_def shapes_ok_def)
  have no_keep: "\<not> keeps (a # rest)" using run by (metis memory_ok_def)
  have "rest = Acquire # b \<Longrightarrow> False" for b using shape by (cases a) (auto split: if_splits)
  with run shape no_keep show ?case
    by (cases a) (auto simp: memory_ok_def pending_def split: option.splits if_splits)
qed

lemma memory_ok_reachable: "reach (gpio_loaded v) (gpio_step offers) s \<Longrightarrow> memory_ok s"
proof (induction rule: reach.induct)
  case (reach_init s)
  then show ?case by (simp add: gpio_loaded_def memory_ok_def pending_def)
next
  case (reach_step s t)
  then show ?case using memory_ok_step line_ok_reachable by blast
qed

lemma memory_is_level:
  assumes "reach (gpio_loaded v) (gpio_step offers) s" "holder s = None"
  shows "kept s = level s"
  using memory_ok_reachable [OF assms(1)] assms(2) by (simp add: memory_ok_def pending_def)

end

section \<open>The three drivers\<close>

lemma bit27: "bit (push_bit GPIO_NUM 1 :: 32 word) GPIO_NUM"
  by (simp add: GPIO_NUM_def bit_push_bit_iff)

lemma reg_program:
  assumes "reg_offers as"
  shows "as \<in> {[], [Acquire, Release], [Acquire, Drive 0, Release], [Acquire, Drive 1, Release]}"
  using assms
  by (cases rule: reg_offers.cases)
    (auto simp: mgpio_write_reg_def Let_def program_def gpio27_on_def gpio27_off_def bit27
      GPSET0_OFF_def GPCLR0_OFF_def split: if_splits bind_splits)

lemma int_program:
  assumes "int_offers as"
  shows "(\<exists>f. as = [Report f]) \<or> as \<in> {[], [Acquire, Release],
    [Acquire, Drive 0, Store 0, Release], [Acquire, Drive 1, Store 1, Release]}"
  using assms
  by (cases rule: int_offers.cases)
    (auto simp: mgpio_write_int_def int_store_def Let_def program_def split: if_splits bind_splits)

lemma desc_program:
  assumes "desc_offers as"
  shows "(\<exists>f. as = [Sample, Keep f]) \<or> as \<in> {[], [Acquire, Drive 0, Store 0, Release],
    [Acquire, Drive 1, Store 1, Release]}"
  using assms
  by (cases rule: desc_offers.cases)
    (auto simp: mgpio_write_desc_def desc_store_def Let_def program_def split: if_splits bind_splits)

interpretation reg_callers: locking_driver reg_offers
  by unfold_locales (drule reg_program, auto)

interpretation desc_callers: locking_driver desc_offers
  by unfold_locales (drule desc_program, auto)

interpretation int_callers: remembering_driver int_offers
  by unfold_locales (drule int_program, auto)+

lemma int_answer_told:
  assumes "4 \<le> count" "\<forall>bs. ctu bs = 0"
  shows "int_answer ctu st count 0 v = (if v = 0 then ''off'' else ''on'') @ [CHR 0x0A]"
  using assms by (simp add: int_answer_def mgpio_read_int_def state_text_def Let_def)

text \<open>The stores among the calls of a write are what it does to the variable.\<close>

lemma write_stores:
  "mgpio_write_int cfu kbuf0 st ubuf count = Some (ret, st', calls) \<Longrightarrow>
    gpio_state st' = last (gpio_state st # stores (program calls))"
  "mgpio_write_desc cfu mdev buf len = Some (ret, mdev', calls) \<Longrightarrow>
    desc_state mdev' = last (desc_state mdev # stores (program calls))"
  by (auto simp: mgpio_write_int_def int_store_def mgpio_write_desc_def desc_store_def Let_def
      program_def split: if_splits bind_splits)

section \<open>Properties\<close>

text \<open>
  C24: the mutex makes callers take turns.  In every interleaving of any number of callers of the three
  drivers, a line moves only by the hand of the mutex's holder, who can always go on; whenever the
  mutex is free, the line has the level ordered by the last caller that got it, or its first level.
  The integer driver then remembers exactly that level, and a reader that asks from the start of the
  file with room for four bytes is told "on" or "off" by it; and what the variable holds after a write
  is what the write's stores say, in both drivers that have one.
\<close>

theorem gpio_callers_serialised:
  assumes "reach (gpio_loaded v) (gpio_step reg_offers) r"
    and "reach (gpio_loaded 0) (gpio_step int_offers) s"
    and "reach (gpio_loaded 0) (gpio_step desc_offers) d"
  shows "(holder r = None \<longrightarrow> level r = last (v # orders r)) \<and>
    (holder d = None \<longrightarrow> level d = last (0 # orders d)) \<and>
    (holder s = None \<longrightarrow> level s = last (0 # orders s) \<and> kept s = level s \<and>
      (\<forall>i rest t ctu st count. 4 \<le> count \<and> (\<forall>bs. ctu bs = 0) \<and>
        act i rest (Report (int_answer ctu st count 0)) s = Some t \<longrightarrow>
        told t i = (if level s = 0 then ''off'' else ''on'') @ [CHR 0x0A])) \<and>
    (\<forall>x \<in> {r, s, d}. \<forall>i.
      (\<forall>w rest. todo x i = Drive w # rest \<longrightarrow> holder x = Some i) \<and>
      (holder x = Some i \<longrightarrow> (\<exists>a rest. todo x i = a # rest \<and>
        act i rest a (x\<lparr>todo := (todo x)(i := rest)\<rparr>) \<noteq> None))) \<and>
    (\<forall>cfu kbuf0 st ubuf count ret st' calls. mgpio_write_int cfu kbuf0 st ubuf count = Some (ret, st', calls)
      \<longrightarrow> gpio_state st' = last (gpio_state st # stores (program calls))) \<and>
    (\<forall>cfu mdev buf len ret mdev' calls. mgpio_write_desc cfu mdev buf len = Some (ret, mdev', calls)
      \<longrightarrow> desc_state mdev' = last (desc_state mdev # stores (program calls)))"
proof (intro conjI)
  show "\<forall>x \<in> {r, s, d}. \<forall>i. (\<forall>w rest. todo x i = Drive w # rest \<longrightarrow> holder x = Some i) \<and>
      (holder x = Some i \<longrightarrow> (\<exists>a rest. todo x i = a # rest \<and>
        act i rest a (x\<lparr>todo := (todo x)(i := rest)\<rparr>) \<noteq> None))"
    using reg_callers.only_holder_drives [OF assms(1)] reg_callers.holder_goes_on [OF assms(1)]
      int_callers.only_holder_drives [OF assms(2)] int_callers.holder_goes_on [OF assms(2)]
      desc_callers.only_holder_drives [OF assms(3)] desc_callers.holder_goes_on [OF assms(3)]
    by fastforce
  show "holder s = None \<longrightarrow> level s = last (0 # orders s) \<and> kept s = level s \<and>
      (\<forall>i rest t ctu st count. 4 \<le> count \<and> (\<forall>bs. ctu bs = 0) \<and>
        act i rest (Report (int_answer ctu st count 0)) s = Some t \<longrightarrow>
        told t i = (if level s = 0 then ''off'' else ''on'') @ [CHR 0x0A])"
    using int_callers.line_follows_orders [OF assms(2)] int_callers.memory_is_level [OF assms(2)]
    by (auto simp: int_answer_told)
qed (use reg_callers.line_follows_orders [OF assms(1)] desc_callers.line_follows_orders [OF assms(3)]
    write_stores in blast)+

text \<open>A system of one reader, caller 0, and one writer, caller 1.\<close>

definition two_callers ::
    "int \<Rightarrow> int \<Rightarrow> nat option \<Rightarrow> action list \<Rightarrow> action list \<Rightarrow> int list \<Rightarrow> gpio_system" where
  "two_callers l k h t0 t1 os = \<lparr>level = l, kept = k, holder = h,
     todo = (\<lambda>_. [])(0 := t0, Suc 0 := t1), sampled = (\<lambda>_. 0), told = (\<lambda>_. []), orders = os\<rparr>"

lemma two_callers_loaded: "gpio_loaded 0 (two_callers 0 0 None [] [] [])"
  by (simp add: gpio_loaded_def two_callers_def fun_eq_iff)

lemma writer_program:
  "desc_offers [Acquire, Drive 1, Store 1, Release]" "int_offers [Acquire, Drive 1, Store 1, Release]"
proof -
  have "mgpio_write_desc copies_all \<lparr>desc_state = 0, has_lt = True\<rparr> ''1'' 1 =
      Some (1, \<lparr>desc_state = 1, has_lt = True\<rparr>, [Mutex_lock, Gpiod_set_value 1, Store_state 1, Mutex_unlock])"
    by (simp add: mgpio_write_desc_spec copies_all_def desc_level_def)
  from desc_write [OF _ this] show "desc_offers [Acquire, Drive 1, Store 1, Release]"
    by (simp add: mgpio_fops_desc_def program_def)
  have "int_command ''on'' = ''on''" by (simp add: int_command_def trimmed_char_def)
  then have "mgpio_write_int copies_all (replicate BUF_LEN NUL) int_statics ''on'' 2 =
      Some (2, int_statics\<lparr>gpio_state := 1\<rparr>, [Mutex_lock, Gpio_set_value 1, Store_state 1, Mutex_unlock])"
    using mgpio_write_int_result [of "replicate BUF_LEN NUL" 2 "''on''" copies_all int_statics]
    by (simp add: copies_all_def strncase_eq_def)
  from int_write [OF _ this] show "int_offers [Acquire, Drive 1, Store 1, Release]"
    by (simp add: mgpio_fops_int_def program_def)
qed

text \<open>Caller 1 writes "1" from start to end, whatever caller 0 is at.\<close>

lemma writer_run:
  assumes "offers [Acquire, Drive 1, Store 1, Release]"
    and "reach I (gpio_step offers) (two_callers l k None t0 [] os)"
  shows "reach I (gpio_step offers) (two_callers 1 1 None t0 [] (os @ [1]))"
proof -
  let ?w = "[Acquire, Drive 1, Store 1, Release]" and ?step = "gpio_step offers"
  have "?step (two_callers l k None t0 [] os) (two_callers l k None t0 ?w os)"
    using gpio_step.call [where s = "two_callers l k None t0 [] os" and i = 1 and offers = offers]
      assms(1) by (simp add: two_callers_def)
  moreover have "?step (two_callers l k None t0 ?w os) (two_callers l k (Some 1) t0 (tl ?w) (os @ [1]))"
    by (rule gpio_step.run [of _ 1 Acquire "tl ?w"]) (simp_all add: two_callers_def)
  moreover have "?step (two_callers l k (Some 1) t0 (tl ?w) (os @ [1]))
      (two_callers 1 k (Some 1) t0 [Store 1, Release] (os @ [1]))"
    by (rule gpio_step.run [of _ 1 "Drive 1" "[Store 1, Release]"]) (simp_all add: two_callers_def)
  moreover have "?step (two_callers 1 k (Some 1) t0 [Store 1, Release] (os @ [1]))
      (two_callers 1 1 (Some 1) t0 [Release] (os @ [1]))"
    by (rule gpio_step.run [of _ 1 "Store 1" "[Release]"]) (simp_all add: two_callers_def)
  moreover have "?step (two_callers 1 1 (Some 1) t0 [Release] (os @ [1]))
      (two_callers 1 1 None t0 [] (os @ [1]))"
    by (rule gpio_step.run [of _ 1 Release "[]"]) (simp_all add: two_callers_def)
  ultimately show ?thesis using assms(2) by (meson reach.reach_step)
qed

theorem gpio_callers_serialised_witness:
  "level (two_callers 1 1 None [] [] [1]) = last (0 # orders (two_callers 1 1 None [] [] [1]))"
proof -
  let ?s0 = "two_callers 0 0 None [] [] []"
  have start: "reach (gpio_loaded 0) T ?s0" for T by (rule reach_init) (rule two_callers_loaded)
  have "reach (gpio_loaded 0) (gpio_step desc_offers) (two_callers 1 1 None [] [] ([] @ [1]))"
    by (rule writer_run) (rule writer_program start)+
  with gpio_callers_serialised [OF start start, of "two_callers 1 1 None [] [] [1]"]
  show ?thesis by (simp add: two_callers_def)
qed

text \<open>
  The descriptor driver can remember the wrong level for good.  A reader takes its sample without the
  mutex and stores it later; a writer in between has moved the line, and when both are done, with
  nobody in the driver any more, the line is high and \<^verbatim>\<open>mdev->state\<close> is 0.
\<close>

theorem desc_state_goes_stale:
  "\<exists>s. reach (gpio_loaded 0) (gpio_step desc_offers) s \<and> (\<forall>i. todo s i = []) \<and> holder s = None \<and>
    orders s = [1] \<and> level s = 1 \<and> kept s = 0"
proof -
  let ?step = "gpio_step desc_offers"
  let ?keep = "Keep (desc_kept copies_all \<lparr>desc_state = 0, has_lt = True\<rparr> 4)"
  have kept: "desc_kept copies_all \<lparr>desc_state = 0, has_lt = True\<rparr> 4 0 = 0"
    by (simp add: desc_kept_def mgpio_read_desc_def copies_all_def Let_def)
  have read: "desc_offers [Sample, ?keep]"
    by (rule desc_offers.desc_read) (simp add: mgpio_fops_desc_def)
  have "?step (two_callers 0 0 None [] [] []) (two_callers 0 0 None [Sample, ?keep] [] [])"
    using gpio_step.call [where s = "two_callers 0 0 None [] [] []" and i = 0 and offers = desc_offers] read
    by (simp add: two_callers_def fun_upd_twist [of 0 "Suc 0"])
  moreover have "?step (two_callers 0 0 None [Sample, ?keep] [] []) (two_callers 0 0 None [?keep] [] [])"
    by (rule gpio_step.run [of _ 0 Sample "[?keep]"]) (simp_all add: two_callers_def fun_eq_iff)
  ultimately have "reach (gpio_loaded 0) ?step (two_callers 0 0 None [?keep] [] [])"
    using two_callers_loaded by (meson reach.intros)
  with writer_run [where offers = desc_offers] writer_program(1)
  have "reach (gpio_loaded 0) ?step (two_callers 1 1 None [?keep] [] [1])"
    by (metis append_Nil)
  moreover have "?step (two_callers 1 1 None [?keep] [] [1]) (two_callers 1 0 None [] [] [1])"
    by (rule gpio_step.run [of _ 0 ?keep "[]"]) (simp_all add: two_callers_def fun_eq_iff kept)
  ultimately have "reach (gpio_loaded 0) ?step (two_callers 1 0 None [] [] [1])"
    by (rule reach.reach_step)
  then show ?thesis by (intro exI [of _ "two_callers 1 0 None [] [] [1]"]) (simp add: two_callers_def)
qed

end
