(* ===== verification/Device_Files.thy ===== *)
theory Device_Files
  imports Char_Device Gpio_Callers
begin

text \<open>
  The four devices as files.  A caller reaches an operation through the driver's \<^verbatim>\<open>file_operations\<close>, the
  kernel keeps the position of the open file between two calls, and a client such as \<^verbatim>\<open>cat\<close> or the
  shell repeats a call until it has everything: it reads until \<^verbatim>\<open>read\<close> answers 0, and writes on behind
  the bytes a \<^verbatim>\<open>write\<close> took.  Whether that ends, and with what, depends on the driver's treatment of
  the position and of the length.
\<close>

section \<open>Calls through the table\<close>

definition mydevice_fops :: "file_op set" where
  "mydevice_fops = {F_open, F_release, F_read, F_write}"

text \<open>The answer of the kernel for an operation the table does not set is \<^verbatim>\<open>EINVAL\<close>.\<close>

definition vfs_read ::
    "file_op set \<Rightarrow> (nat \<Rightarrow> nat \<Rightarrow> int \<times> nat \<times> bytes) \<Rightarrow> nat \<Rightarrow> nat \<Rightarrow> int \<times> nat \<times> bytes" where
  "vfs_read fops rd len pos = (if F_read \<in> fops then rd len pos else (- EINVAL, pos, []))"

definition vfs_write ::
    "file_op set \<Rightarrow> (bytes \<Rightarrow> (int \<times> 'a) option) \<Rightarrow> bytes \<Rightarrow> (int \<times> 'a option) option" where
  "vfs_write fops w bs = (if F_write \<in> fops
     then map_option (\<lambda>(n, x). (n, Some x)) (w bs) else Some (- EINVAL, None))"

text \<open>The operations of the drivers in the form the kernel calls them, on one open file.\<close>

definition mydevice_read :: "nat \<Rightarrow> nat \<Rightarrow> int \<times> nat \<times> bytes" where
  "mydevice_read = vfs_read mydevice_fops (my_read copies_all)"

definition mydevice_write :: "bytes \<Rightarrow> bytes \<Rightarrow> (int \<times> bytes option option) option" where
  "mydevice_write kbuf0 = vfs_write mydevice_fops (\<lambda>bs. my_write copies_all kbuf0 bs (length bs))"

definition int_read :: "int_state \<Rightarrow> nat \<Rightarrow> nat \<Rightarrow> int \<times> nat \<times> bytes" where
  "int_read st = vfs_read mgpio_fops_int (mgpio_read_int copies_all st)"

definition desc_read :: "int \<Rightarrow> desc_dev \<Rightarrow> nat \<Rightarrow> nat \<Rightarrow> int \<times> nat \<times> bytes" where
  "desc_read v mdev = vfs_read mgpio_fops_desc (\<lambda>len pos.
     case mgpio_read_desc copies_all v mdev len pos of (n, pos', _, bs) \<Rightarrow> (n, pos', bs))"

definition desc_write :: "desc_dev \<Rightarrow> bytes \<Rightarrow> (int \<times> kcall list option) option" where
  "desc_write mdev = vfs_write mgpio_fops_desc (\<lambda>bs.
     map_option (\<lambda>(n, _, calls). (n, calls)) (mgpio_write_desc copies_all mdev bs (length bs)))"

section \<open>Clients\<close>

text \<open>
  Reading until \<^verbatim>\<open>read\<close> answers 0 or an error, with a buffer of \<open>len\<close> bytes; the last answer and what was
  read.  A driver that never answers 0 makes this \<open>None\<close>.
\<close>

partial_function (option) read_all ::
    "(nat \<Rightarrow> nat \<Rightarrow> int \<times> nat \<times> bytes) \<Rightarrow> nat \<Rightarrow> nat \<Rightarrow> (int \<times> bytes) option" where
  "read_all rd len pos = (case rd len pos of (n, pos', bs) \<Rightarrow>
     if n \<le> 0 then Some (n, [])
     else do { (e, more) \<leftarrow> read_all rd len pos'; Some (e, bs @ more) })"

text \<open>Writing until all is taken or \<^verbatim>\<open>write\<close> fails: whether all was taken, and the effects in order.\<close>

partial_function (option) write_all ::
    "(bytes \<Rightarrow> (int \<times> 'a) option) \<Rightarrow> bytes \<Rightarrow> (bool \<times> 'a list) option" where
  "write_all w bs = (if bs = [] then Some (True, [])
     else do {
       (n, x) \<leftarrow> w bs;
       (if n < 0 then Some (False, [x])
        else do { (all, xs) \<leftarrow> write_all w (drop (nat n) bs); Some (all, x # xs) })
     })"

section \<open>The contract of a file that ends\<close>

text \<open>
  \<open>stop pos\<close> are the positions a client comes to.  At the end of the content \<^verbatim>\<open>read\<close> answers 0, and
  before it a client whose buffer has \<open>least\<close> bytes gets some of the rest.
\<close>

locale ending_file =
  fixes rd :: "nat \<Rightarrow> nat \<Rightarrow> int \<times> nat \<times> bytes" and content :: bytes and least :: nat
    and stop :: "nat \<Rightarrow> bool"
  assumes stop_start: "stop 0"
    and rd_end: "length content \<le> pos \<Longrightarrow> rd len pos = (0, pos, [])"
    and rd_some: "stop pos \<Longrightarrow> pos < length content \<Longrightarrow> least \<le> len \<Longrightarrow>
      \<exists>k > 0. pos + k \<le> length content \<and> stop (pos + k) \<and>
        rd len pos = (int k, pos + k, take k (drop pos content))"
begin

lemma read_all_rest:
  "stop pos \<Longrightarrow> pos \<le> length content \<Longrightarrow> least \<le> len \<Longrightarrow>
    read_all rd len pos = Some (0, drop pos content)"
proof (induction "length content - pos" arbitrary: pos rule: less_induct)
  case less
  show ?case
  proof (cases "pos < length content")
    case False
    then have "rd len pos = (0, pos, [])" by (simp add: rd_end)
    then show ?thesis using False less.prems by (subst read_all.simps) simp
  next
    case True
    from rd_some [OF less.prems(1) this less.prems(3)] obtain k where k: "0 < k"
      "pos + k \<le> length content" "stop (pos + k)" "rd len pos = (int k, pos + k, take k (drop pos content))"
      by blast
    have "read_all rd len (pos + k) = Some (0, drop (pos + k) content)"
      using k True less.prems(3) by (intro less.hyps) simp_all
    moreover have "take k (drop pos content) @ drop (pos + k) content = drop pos content"
      by (metis append_take_drop_id drop_drop add.commute)
    ultimately show ?thesis using k by (subst read_all.simps) simp
  qed
qed

lemma reads_content: "least \<le> len \<Longrightarrow> read_all rd len 0 = Some (0, content)"
  using read_all_rest [of 0 len] stop_start by simp

end

lemma fops_read [simp]: "F_read \<in> mydevice_fops" "F_read \<in> mgpio_fops_int" "F_read \<in> mgpio_fops_desc"
  "F_read \<notin> mgpio_fops_reg"
  by (simp_all add: mydevice_fops_def mgpio_fops_int_def mgpio_fops_desc_def mgpio_fops_reg_def)

interpretation greeting_file: ending_file mydevice_read greet 1 "\<lambda>_. True"
proof
  fix pos len :: nat
  assume "pos < length greet" "1 \<le> len"
  then show "\<exists>k > 0. pos + k \<le> length greet \<and> True \<and>
      mydevice_read len pos = (int k, pos + k, take k (drop pos greet))"
    by (intro exI [of _ "min len (length greet - pos)"])
      (auto simp: mydevice_read_def vfs_read_def my_read_law min_def)
qed (simp_all add: mydevice_read_def vfs_read_def my_read_law)

interpretation state_file: ending_file "int_read st" "state_text (gpio_state st)" "length (state_text (gpio_state st))"
  "\<lambda>pos. pos \<in> {0, length (state_text (gpio_state st))}" for st
  by unfold_locales
    (auto simp: int_read_def vfs_read_def mgpio_read_int_def Let_def copies_all_def state_text_def)

text \<open>The text of a level, as far as the driver's buffer of four bytes holds it.\<close>

definition level_text :: "int \<Rightarrow> bytes" where
  "level_text v = take 3 (show_int v @ [CHR 0x0A])"

lemma desc_read_law: "desc_read v mdev len pos =
    (if pos \<noteq> 0 then (0, pos, []) else (int (length (level_text v)), length (level_text v), level_text v))"
  by (simp add: desc_read_def vfs_read_def mgpio_read_desc_def Let_def copies_all_def level_text_def)

lemma level_text_ne: "level_text v \<noteq> []"
  by (simp add: level_text_def)

interpretation level_file: ending_file "desc_read v mdev" "level_text v" 0
  "\<lambda>pos. pos \<in> {0, length (level_text v)}" for v mdev
proof (unfold_locales, goal_cases)
  case (2 pos len)
  then show ?case by (cases pos) (simp_all add: desc_read_law level_text_ne)
qed (auto simp: desc_read_law level_text_ne)

section \<open>Writing\<close>

text \<open>A write of the character device takes at most 255 bytes, and a text is logged piece by piece.\<close>

lemma mydevice_write_law:
  assumes "length kbuf0 = KBUF_SIZE" "NUL \<notin> set bs"
  shows "mydevice_write kbuf0 bs = Some (int (min (length bs) 255), Some (Some (take 255 bs)))"
proof -
  have "NUL \<notin> set (take 255 bs)" using assms(2) by (auto dest: in_set_takeD)
  then have "takeWhile (\<lambda>c. c \<noteq> NUL) (take 255 bs) = take 255 bs" by (auto simp: takeWhile_eq_all_conv)
  moreover have "take (min (length bs) 255) bs = take 255 bs" by (simp add: min_def)
  ultimately show ?thesis
    using my_write_safe [OF assms(1) order_refl, of copies_all bs]
    by (simp add: mydevice_write_def vfs_write_def mydevice_fops_def copies_all_def Let_def)
qed

lemma mydevice_write_all:
  assumes "length kbuf0 = KBUF_SIZE"
  shows "NUL \<notin> set bs \<Longrightarrow> \<exists>ds. write_all (mydevice_write kbuf0) bs = Some (True, map (\<lambda>d. Some (Some d)) ds) \<and>
    concat ds = bs \<and> (\<forall>d \<in> set ds. d \<noteq> [] \<and> length d \<le> 255)"
proof (induction "length bs" arbitrary: bs rule: less_induct)
  case less
  show ?case
  proof (cases "bs = []")
    case True
    then show ?thesis by (subst write_all.simps) (auto intro: exI [of _ "[]"])
  next
    case False
    let ?rest = "drop 255 bs"
    have "NUL \<notin> set ?rest" using less.prems by (auto dest: in_set_dropD)
    then obtain ds where ds: "write_all (mydevice_write kbuf0) ?rest = Some (True, map (\<lambda>d. Some (Some d)) ds)"
      "concat ds = ?rest" "\<forall>d \<in> set ds. d \<noteq> [] \<and> length d \<le> 255"
      using less.hyps [of ?rest] False by auto
    have "drop (nat (int (min (length bs) 255))) bs = ?rest" by (simp add: min_def)
    then have "write_all (mydevice_write kbuf0) bs =
        Some (True, map (\<lambda>d. Some (Some d)) (take 255 bs # ds))"
      using False mydevice_write_law [OF assms less.prems] ds(1) by (subst write_all.simps) simp
    then show ?thesis using ds(2,3) False by (intro exI [of _ "take 255 bs # ds"]) simp
  qed
qed

text \<open>The descriptor driver takes at most 7 bytes, as one command.\<close>

lemma desc_write_law:
  assumes "bs \<noteq> []" "NUL \<notin> set bs"
  shows "desc_write mdev bs = Some (case desc_level (take 7 bs) of
      None \<Rightarrow> (- EINVAL, Some [])
    | Some v \<Rightarrow> (int (min (length bs) 7), Some [Mutex_lock, Gpiod_set_value v, Store_state v, Mutex_unlock]))"
proof -
  have "NUL \<notin> set (take 7 bs)" using assms(2) by (auto dest: in_set_takeD)
  then have tw: "takeWhile (\<lambda>c. c \<noteq> NUL) (take 7 bs) = take 7 bs" by (auto simp: takeWhile_eq_all_conv)
  then show ?thesis
    using mgpio_write_desc_spec [of "length bs" bs copies_all mdev] assms(1)
    by (simp add: tw desc_write_def vfs_write_def mgpio_fops_desc_def copies_all_def Let_def split: option.split)
qed

lemma desc_write_short:
  assumes "bs \<noteq> []" "NUL \<notin> set bs" "length bs \<le> 7" "desc_level bs = Some v"
  shows "write_all (desc_write mdev) bs = Some (True, [Some [Mutex_lock, Gpiod_set_value v, Store_state v, Mutex_unlock]])"
proof -
  have "write_all (desc_write mdev) [] = Some (True, [])" by (subst write_all.simps) simp
  then show ?thesis using assms desc_write_law [OF assms(1,2), of mdev]
    by (subst write_all.simps) simp
qed

lemma desc_write_long:
  assumes "7 < length bs" "NUL \<notin> set bs" "desc_level (take 7 bs) = Some v"
  shows "write_all (desc_write mdev) bs =
    map_option (\<lambda>(all, xs). (all, Some [Mutex_lock, Gpiod_set_value v, Store_state v, Mutex_unlock] # xs))
      (write_all (desc_write mdev) (drop 7 bs))"
proof -
  have "bs \<noteq> []" using assms(1) by auto
  then show ?thesis using assms desc_write_law [of bs mdev]
    by (subst write_all.simps) (cases "write_all (desc_write mdev) (drop 7 bs)"; auto)
qed

lemma desc_write_refused:
  assumes "bs \<noteq> []" "NUL \<notin> set bs" "desc_level (take 7 bs) = None"
  shows "write_all (desc_write mdev) bs = Some (False, [Some []])"
  using assms desc_write_law [OF assms(1,2), of mdev] by (subst write_all.simps) (simp add: EINVAL_def)

section \<open>Properties\<close>

text \<open>
  C25: reading a device ends.  A client that reads until it gets 0, with any buffer of at least four
  bytes, gets from each device that can be read its text, once and whole: the greeting, the state the
  integer driver remembers, the level of the line; the register driver has no \<^verbatim>\<open>read\<close>, and the call
  fails.
\<close>

theorem device_files_end:
  assumes "4 \<le> len"
  shows "read_all mydevice_read len 0 = Some (0, greet) \<and>
    read_all (int_read st) len 0 = Some (0, state_text (gpio_state st)) \<and>
    read_all (desc_read v mdev) len 0 = Some (0, level_text v) \<and>
    read_all (vfs_read mgpio_fops_reg rd) len 0 = Some (- EINVAL, [])"
proof -
  have "read_all (vfs_read mgpio_fops_reg rd) len 0 = Some (- EINVAL, [])"
    by (subst read_all.simps) (simp add: vfs_read_def EINVAL_def)
  moreover have "length (state_text (gpio_state st)) \<le> len" using assms by (simp add: state_text_def)
  ultimately show ?thesis
    using assms by (simp add: greeting_file.reads_content state_file.reads_content level_file.reads_content)
qed

theorem device_files_end_witness:
  "read_all mydevice_read 4096 0 = Some (0, greet) \<and>
    read_all (int_read int_loaded) 4096 0 = Some (0, ''off'' @ [CHR 0x0A])"
  using device_files_end [of 4096 int_loaded] by (simp add: state_text_def)

text \<open>
  C26: writing to a device in full.  A client that writes on behind what a \<^verbatim>\<open>write\<close> took has its text
  logged by the character device complete and in order, in pieces of at most 255 bytes.  The
  descriptor driver switches the line for a command of at most 7 bytes; of a longer one it takes 7 bytes
  and reads the rest as a command of its own, so that an unknown rest makes the client fail although
  the line was switched, and a known one switches it again.
\<close>

theorem device_files_written:
  assumes "length kbuf0 = KBUF_SIZE" "NUL \<notin> set bs"
    and "cmd \<noteq> []" "length cmd \<le> 7" "NUL \<notin> set cmd" "desc_level cmd = Some v"
    and "rest \<noteq> []" "length rest \<le> 7" "NUL \<notin> set rest"
  shows "(\<exists>ds. write_all (mydevice_write kbuf0) bs = Some (True, map (\<lambda>d. Some (Some d)) ds) \<and>
      concat ds = bs \<and> (\<forall>d \<in> set ds. d \<noteq> [] \<and> length d \<le> 255)) \<and>
    write_all (desc_write mdev) cmd = Some (True, [Some [Mutex_lock, Gpiod_set_value v, Store_state v, Mutex_unlock]]) \<and>
    (length cmd = 7 \<longrightarrow> write_all (desc_write mdev) (cmd @ rest) = (case desc_level rest of
        None \<Rightarrow> Some (False, [Some [Mutex_lock, Gpiod_set_value v, Store_state v, Mutex_unlock], Some []])
      | Some w \<Rightarrow> Some (True, [Some [Mutex_lock, Gpiod_set_value v, Store_state v, Mutex_unlock],
          Some [Mutex_lock, Gpiod_set_value w, Store_state w, Mutex_unlock]])))"
proof -
  have "write_all (desc_write mdev) (cmd @ rest) = (case desc_level rest of
      None \<Rightarrow> Some (False, [Some [Mutex_lock, Gpiod_set_value v, Store_state v, Mutex_unlock], Some []])
    | Some w \<Rightarrow> Some (True, [Some [Mutex_lock, Gpiod_set_value v, Store_state v, Mutex_unlock],
        Some [Mutex_lock, Gpiod_set_value w, Store_state w, Mutex_unlock]]))" if "length cmd = 7"
  proof -
    have "7 < length (cmd @ rest)" using that assms(7) by (cases rest) simp_all
    from desc_write_long [OF this] have "write_all (desc_write mdev) (cmd @ rest) =
        map_option (\<lambda>(all, xs). (all, Some [Mutex_lock, Gpiod_set_value v, Store_state v, Mutex_unlock] # xs))
          (write_all (desc_write mdev) rest)"
      using assms that by simp
    then show ?thesis
      using desc_write_refused [of rest mdev] desc_write_short [of rest _ mdev] assms
      by (cases "desc_level rest") simp_all
  qed
  then show ?thesis using mydevice_write_all [OF assms(1,2)] desc_write_short assms by blast
qed

theorem device_files_written_witness:
  "write_all (desc_write \<lparr>desc_state = 0, has_lt = True\<rparr>) ''on, please'' =
     Some (False, [Some [Mutex_lock, Gpiod_set_value 1, Store_state 1, Mutex_unlock], Some []]) \<and>
   (\<exists>ds. write_all (mydevice_write (replicate 256 NUL)) (replicate 300 (CHR ''a'')) =
      Some (True, map (\<lambda>d. Some (Some d)) ds) \<and> concat ds = replicate 300 (CHR ''a''))"
proof -
  have "desc_level ''on, ple'' = Some 1" "desc_level ''ase'' = None" by code_simp+
  then show ?thesis
    using device_files_written [of "replicate 256 NUL" "replicate 300 (CHR ''a'')" "''on, ple''" 1 "''ase''"
        "\<lparr>desc_state = 0, has_lt = True\<rparr>"]
    by (auto simp: KBUF_SIZE_def)
qed

end
