(* ===== verification/Peer_Table.thy ===== *)
theory Peer_Table
  imports Slot_Array C_Library
begin

text \<open>
  The peer table of the chat program in \<^verbatim>\<open>mock-prj-01\<close>: the records of \<^verbatim>\<open>peer.h\<close> and
  \<^verbatim>\<open>chatapp.h\<close>, \<^verbatim>\<open>peer.c\<close>, and the operations of \<^verbatim>\<open>chatapp.c\<close> that run under the table's mutex:
  \<^verbatim>\<open>chatapp_add_peer\<close>, \<^verbatim>\<open>chatapp_list_peers\<close>, \<^verbatim>\<open>chatapp_send_message\<close>,
  \<^verbatim>\<open>chatapp_disconnect_peer\<close> and the scan of a peer thread that lost its connection.  Every call to
  the system is recorded in order; a line of output is recorded as its bytes.  \<open>Send\<close> carries the
  flags of \<^verbatim>\<open>send\<close>; \<open>Signal\<close> would set what a signal does, and no function of the program makes
  this call.
\<close>

section \<open>System calls\<close>

datatype sys =
    Lock | Unlock | Mutex_initialized | Mutex_destroyed
  | Socket int | Reuse_address int | Bind int int int | Listen int int int
  | Accept int int | Connect int int int
  | Close int | Send int bytes int | Recv int int | Signal int int
  | Malloc bool | Free
  | Pthread_create int | Pthread_cancel int | Pthread_join int
  | Print bytes | Perror bytes

text \<open>
  The lock is taken only when free and given back at the end, and messages leave only while it is
  held.
\<close>

fun lock_discipline :: "bool \<Rightarrow> sys list \<Rightarrow> bool" where
  "lock_discipline held [] \<longleftrightarrow> \<not> held"
| "lock_discipline held (Lock # cs) \<longleftrightarrow> \<not> held \<and> lock_discipline True cs"
| "lock_discipline held (Unlock # cs) \<longleftrightarrow> held \<and> lock_discipline False cs"
| "lock_discipline held (Send fd m flags # cs) \<longleftrightarrow> held \<and> lock_discipline held cs"
| "lock_discipline held (c # cs) \<longleftrightarrow> lock_discipline held cs"

lemma lock_discipline_append:
  "lock_discipline held cs \<Longrightarrow> lock_discipline False ds \<Longrightarrow> lock_discipline held (cs @ ds)"
  by (induction held cs rule: lock_discipline.induct) auto

section \<open>Peers\<close>

definition INET_ADDRSTRLEN :: nat where "INET_ADDRSTRLEN = 16"
definition MAX_MSG_LEN :: nat where "MAX_MSG_LEN = 100"
definition MAX_PEERS :: nat where "MAX_PEERS = 10"

record peer =
  id_of :: int
  sockfd :: int
  ip :: bytes
  port :: int
  thread_id :: int
  active :: int

definition peer_init :: "peer \<Rightarrow> peer" where
  "peer_init p = p\<lparr>id_of := 0, sockfd := -1, port := 0, thread_id := 0, active := 0,
     ip := replicate INET_ADDRSTRLEN NUL\<rparr>"

definition peer_set :: "peer \<Rightarrow> int \<Rightarrow> int \<Rightarrow> bytes \<Rightarrow> int \<Rightarrow> int \<Rightarrow> peer" where
  "peer_set p i fd addr pt tid =
     (let p = p\<lparr>id_of := i, sockfd := fd, port := pt, thread_id := tid, active := 1\<rparr>;
          p = p\<lparr>ip := strncpy_field INET_ADDRSTRLEN addr\<rparr>
      in p\<lparr>ip := (ip p)[INET_ADDRSTRLEN - 1 := NUL]\<rparr>)"

section \<open>The application\<close>

record chatapp =
  peers :: "peer list"
  next_peer_id :: int
  server_port :: int
  listener_socket :: int
  running :: int
  listener_tid :: int

subsection \<open>Adding\<close>

text \<open>\<^verbatim>\<open>for (i...) if (!app->peers[i].active) { peer_set(...); ...return id; }\<close>\<close>

fun add_peer_scan :: "int \<times> int \<times> bytes \<times> int \<times> int \<Rightarrow> peer list \<Rightarrow> peer list option" where
  "add_peer_scan v [] = None"
| "add_peer_scan (i, fd, addr, pt, tid) (p # ps) =
     (if active p = 0 then Some (peer_set p i fd addr pt tid # ps)
      else map_option ((#) p) (add_peer_scan (i, fd, addr, pt, tid) ps))"

definition chatapp_add_peer ::
    "chatapp \<Rightarrow> int \<Rightarrow> bytes \<Rightarrow> int \<Rightarrow> int \<Rightarrow> int \<times> chatapp \<times> sys list" where
  "chatapp_add_peer app fd addr pt tid =
     (if next_peer_id app > INT_MAX - 1
      then (-1, app, [Lock, Print (''[-] Peer ID limit reached.'' @ [CHR 0x0A]), Unlock])
      else case add_peer_scan (next_peer_id app, fd, addr, pt, tid) (peers app) of
          Some ps \<Rightarrow> (next_peer_id app,
            app\<lparr>peers := ps, next_peer_id := next_peer_id app + 1\<rparr>, [Lock, Unlock])
        | None \<Rightarrow> (-1, app, [Lock, Unlock]))"

subsection \<open>Listing\<close>

definition peer_line :: "peer \<Rightarrow> bytes option" where
  "peer_line p = do {
     addr \<leftarrow> c_string (ip p);
     Some (show_int (id_of p) @ [CHR 0x09] @ addr @ [CHR 0x09] @ show_int (port p) @ [CHR 0x0A])
   }"

fun list_scan :: "peer list \<Rightarrow> sys list option" where
  "list_scan [] = Some []"
| "list_scan (p # ps) =
     (if active p \<noteq> 0
      then do { l \<leftarrow> peer_line p; ls \<leftarrow> list_scan ps; Some (Print l # ls) }
      else list_scan ps)"

definition chatapp_list_peers :: "chatapp \<Rightarrow> sys list option" where
  "chatapp_list_peers app = do {
     ls \<leftarrow> list_scan (peers app);
     Some ([Print (''ID'' @ [CHR 0x09] @ ''IP Address'' @ [CHR 0x09] @ ''Port'' @ [CHR 0x0A]), Lock]
       @ ls @ [Unlock])
   }"

subsection \<open>Sending\<close>

fun send_scan :: "int \<Rightarrow> bytes \<Rightarrow> peer list \<Rightarrow> sys list option" where
  "send_scan i msg [] = None"
| "send_scan i msg (p # ps) =
     (if active p \<noteq> 0 \<and> id_of p = i then Some [Send (sockfd p) msg 0] else send_scan i msg ps)"

definition chatapp_send_message :: "chatapp \<Rightarrow> int \<Rightarrow> bytes \<Rightarrow> int \<times> sys list" where
  "chatapp_send_message app i msg =
     (case send_scan i msg (peers app) of
        Some calls \<Rightarrow> (0, [Lock] @ calls @ [Unlock])
      | None \<Rightarrow> (-1, [Lock, Unlock,
          Print (''[-] No such connection ID '' @ show_int i @ [CHR 0x0A])]))"

subsection \<open>Disconnecting\<close>

fun disconnect_scan :: "int \<Rightarrow> peer list \<Rightarrow> (peer list \<times> sys list) option" where
  "disconnect_scan i [] = None"
| "disconnect_scan i (p # ps) =
     (if active p \<noteq> 0 \<and> id_of p = i
      then Some (p\<lparr>active := 0\<rparr> # ps, [Close (sockfd p), Pthread_cancel (thread_id p),
        Print (''[x] Terminated connection ID '' @ show_int i @ [CHR 0x0A])])
      else map_option (\<lambda>(ps', calls). (p # ps', calls)) (disconnect_scan i ps))"

definition chatapp_disconnect_peer :: "chatapp \<Rightarrow> int \<Rightarrow> int \<times> chatapp \<times> sys list" where
  "chatapp_disconnect_peer app i =
     (case disconnect_scan i (peers app) of
        Some (ps, calls) \<Rightarrow> (0, app\<lparr>peers := ps\<rparr>, [Lock] @ calls @ [Unlock])
      | None \<Rightarrow> (-1, app, [Lock, Unlock,
          Print (''[-] ID '' @ show_int i @ '' not found'' @ [CHR 0x0A])]))"

text \<open>The loop of \<^verbatim>\<open>peer_handle_thread\<close> that drops the entry of a lost connection.\<close>

fun drop_scan :: "int \<Rightarrow> peer list \<Rightarrow> peer list" where
  "drop_scan fd [] = []"
| "drop_scan fd (p # ps) =
     (if active p \<noteq> 0 \<and> sockfd p = fd then p\<lparr>active := 0\<rparr> # ps else p # drop_scan fd ps)"

section \<open>The table as an array of slots\<close>

abbreviation vacant_peer :: "peer \<Rightarrow> bool" where
  "vacant_peer p \<equiv> active p = 0"

definition peer_entry :: "int \<times> int \<times> bytes \<times> int \<times> int \<Rightarrow> peer" where
  "peer_entry v = (case v of (i, fd, addr, pt, tid) \<Rightarrow>
     \<lparr>id_of = i, sockfd = fd, ip = (strncpy_field INET_ADDRSTRLEN addr)[INET_ADDRSTRLEN - 1 := NUL],
      port = pt, thread_id = tid, active = 1\<rparr>)"

lemma peer_set_entry: "peer_set p i fd addr pt tid = peer_entry (i, fd, addr, pt, tid)"
  by (cases p) (simp add: peer_set_def peer_entry_def)

definition add_loop :: "int \<times> int \<times> bytes \<times> int \<times> int \<Rightarrow> peer list \<Rightarrow> peer list" where
  "add_loop v ps = (case add_peer_scan v ps of None \<Rightarrow> ps | Some ps' \<Rightarrow> ps')"

definition disconnect_loop :: "int \<Rightarrow> peer list \<Rightarrow> peer list" where
  "disconnect_loop i ps = (case disconnect_scan i ps of None \<Rightarrow> ps | Some (ps', _) \<Rightarrow> ps')"

lemma add_scan_first:
  "add_peer_scan v ps = map_option (\<lambda>i. ps[i := peer_entry v]) (first_index vacant_peer ps)"
  by (induction v ps rule: add_peer_scan.induct) (auto simp: peer_set_entry option.map_comp comp_def)

lemma disconnect_scan_first:
  "disconnect_scan i ps = map_option (\<lambda>k. (ps[k := (ps ! k)\<lparr>active := 0\<rparr>],
      [Close (sockfd (ps ! k)), Pthread_cancel (thread_id (ps ! k)),
       Print (''[x] Terminated connection ID '' @ show_int i @ [CHR 0x0A])]))
    (first_index (\<lambda>p. active p \<noteq> 0 \<and> id_of p = i) ps)"
  by (induction ps) (auto simp: option.map_comp comp_def)

lemma send_scan_first:
  "send_scan i msg ps = map_option (\<lambda>k. [Send (sockfd (ps ! k)) msg 0])
    (first_index (\<lambda>p. active p \<noteq> 0 \<and> id_of p = i) ps)"
  by (induction ps) (auto simp: option.map_comp comp_def)

lemma drop_scan_first:
  "drop_scan fd ps = (case first_index (\<lambda>p. active p \<noteq> 0 \<and> sockfd p = fd) ps of
     None \<Rightarrow> ps | Some k \<Rightarrow> ps[k := (ps ! k)\<lparr>active := 0\<rparr>])"
  by (induction ps) (auto split: option.splits)

interpretation by_id: slot_array vacant_peer peer_entry add_loop
  "\<lambda>i p. active p \<noteq> 0 \<and> id_of p = i" "\<lambda>p. p\<lparr>active := 0\<rparr>" disconnect_loop
  by unfold_locales
    (simp_all add: add_loop_def add_scan_first disconnect_loop_def disconnect_scan_first
      peer_entry_def split: option.split prod.split)

interpretation by_fd: slot_array vacant_peer peer_entry add_loop
  "\<lambda>fd p. active p \<noteq> 0 \<and> sockfd p = fd" "\<lambda>p. p\<lparr>active := 0\<rparr>" drop_scan
  by unfold_locales
    (simp_all add: add_loop_def add_scan_first drop_scan_first peer_entry_def
      split: option.split prod.split)

section \<open>Invariant\<close>

definition peer_ok :: "int \<Rightarrow> peer \<Rightarrow> bool" where
  "peer_ok n p \<longleftrightarrow> active p \<noteq> 0 \<longrightarrow>
     active p = 1 \<and> 1 \<le> id_of p \<and> id_of p < n \<and>
     length (ip p) = INET_ADDRSTRLEN \<and> NUL \<in> set (ip p)"

definition distinct_ids :: "peer list \<Rightarrow> bool" where
  "distinct_ids ps \<longleftrightarrow> (\<forall>j < length ps. \<forall>k < length ps.
     active (ps ! j) \<noteq> 0 \<and> active (ps ! k) \<noteq> 0 \<and> id_of (ps ! j) = id_of (ps ! k) \<longrightarrow> j = k)"

definition table_ok :: "chatapp \<Rightarrow> bool" where
  "table_ok app \<longleftrightarrow> length (peers app) = MAX_PEERS \<and> 1 \<le> next_peer_id app \<and>
     next_peer_id app \<le> INT_MAX \<and> list_all (peer_ok (next_peer_id app)) (peers app) \<and>
     distinct_ids (peers app)"

lemma table_okD:
  assumes "table_ok app"
  shows "length (peers app) = MAX_PEERS" "1 \<le> next_peer_id app" "next_peer_id app \<le> INT_MAX"
    "distinct_ids (peers app)" "p \<in> set (peers app) \<Longrightarrow> peer_ok (next_peer_id app) p"
  using assms by (auto simp: table_ok_def list_all_iff)

lemma peer_ok_mono: "peer_ok n p \<Longrightarrow> n \<le> m \<Longrightarrow> peer_ok m p"
  by (auto simp: peer_ok_def)

lemma peer_ok_entry: "1 \<le> i \<Longrightarrow> i < n \<Longrightarrow> peer_ok n (peer_entry (i, fd, addr, pt, tid))"
proof -
  assume i: "1 \<le> i" "i < n"
  have "NUL \<in> set ((strncpy_field INET_ADDRSTRLEN addr)[INET_ADDRSTRLEN - 1 := NUL])"
    by (rule set_update_memI) (simp add: INET_ADDRSTRLEN_def)
  then show ?thesis using i by (simp add: peer_ok_def peer_entry_def)
qed

lemma distinct_ids_clear: "distinct_ids ps \<Longrightarrow> distinct_ids (ps[k := (ps ! k)\<lparr>active := 0\<rparr>])"
  unfolding distinct_ids_def
  by (cases "k < length ps") (auto simp: nth_list_update split: if_splits)

lemma distinct_ids_set:
  assumes "distinct_ids ps" "\<forall>q \<in> set ps. active q \<noteq> 0 \<longrightarrow> id_of q \<noteq> id_of p"
  shows "distinct_ids (ps[k := p])"
  using assms unfolding distinct_ids_def
  by (cases "k < length ps") (auto simp: nth_list_update split: if_splits)

lemma table_ok_clear:
  assumes "table_ok app" "k < length (peers app)"
  shows "table_ok (app\<lparr>peers := (peers app)[k := (peers app ! k)\<lparr>active := 0\<rparr>]\<rparr>)"
proof -
  have "peer_ok n (p\<lparr>active := 0\<rparr>)" for n p by (simp add: peer_ok_def)
  then show ?thesis
    using assms distinct_ids_clear [of "peers app" k]
    by (auto simp: table_ok_def list_all_iff dest!: set_update_subset_insert [THEN subsetD])
qed

text \<open>The three operations that write the table keep the invariant.\<close>

lemma add_peer_ok:
  assumes "table_ok app"
  shows "table_ok (fst (snd (chatapp_add_peer app fd addr pt tid)))"
proof (cases "next_peer_id app > INT_MAX - 1 \<or> first_index vacant_peer (peers app) = None")
  case True
  then show ?thesis using assms by (auto simp: chatapp_add_peer_def add_scan_first)
next
  case False
  let ?n = "next_peer_id app"
  let ?e = "peer_entry (?n, fd, addr, pt, tid)"
  from False obtain k where k: "first_index vacant_peer (peers app) = Some k" by auto
  note ok = table_okD [OF assms]
  have "peer_ok (?n + 1) ?e" using ok(2) by (intro peer_ok_entry) auto
  moreover have "peer_ok (?n + 1) p" if "p \<in> set (peers app)" for p
    using ok(5) [OF that] by (rule peer_ok_mono) simp
  moreover have "distinct_ids ((peers app)[k := ?e])"
  proof (rule distinct_ids_set [OF ok(4)], intro ballI impI)
    fix q
    assume "q \<in> set (peers app)" "active q \<noteq> 0"
    then show "id_of q \<noteq> id_of ?e"
      using ok(5) [of q] by (simp add: peer_ok_def peer_entry_def)
  qed
  ultimately show ?thesis
    using False ok k
    by (auto simp: chatapp_add_peer_def add_scan_first table_ok_def list_all_iff
        dest!: set_update_subset_insert [THEN subsetD])
qed

lemma disconnect_peer_ok:
  assumes "table_ok app"
  shows "table_ok (fst (snd (chatapp_disconnect_peer app i)))"
  using assms
  by (auto simp: chatapp_disconnect_peer_def disconnect_scan_first table_ok_clear first_index_Some
      split: option.split)

lemma drop_scan_ok: "table_ok app \<Longrightarrow> table_ok (app\<lparr>peers := drop_scan fd (peers app)\<rparr>)"
  by (auto simp: drop_scan_first table_ok_clear first_index_Some split: option.split)

section \<open>Abstraction: a map from ids to connections\<close>

type_synonym connection = "int \<times> bytes \<times> int \<times> int"

definition peer_view :: "peer \<Rightarrow> connection" where
  "peer_view p = (sockfd p, takeWhile (\<lambda>c. c \<noteq> NUL) (ip p), port p, thread_id p)"

definition peer_map :: "peer list \<Rightarrow> int \<Rightarrow> connection option" where
  "peer_map ps i = map_option (\<lambda>k. peer_view (ps ! k))
     (first_index (\<lambda>p. active p \<noteq> 0 \<and> id_of p = i) ps)"

lemma peer_map_None: "peer_map ps i = None \<longleftrightarrow> (\<forall>p \<in> set ps. active p \<noteq> 0 \<longrightarrow> id_of p \<noteq> i)"
  by (auto simp: peer_map_def first_index_None)

lemma peer_map_at:
  assumes "distinct_ids ps" "k < length ps" "active (ps ! k) \<noteq> 0" "id_of (ps ! k) = i"
  shows "first_index (\<lambda>p. active p \<noteq> 0 \<and> id_of p = i) ps = Some k"
    and "peer_map ps i = Some (peer_view (ps ! k))"
proof -
  show first: "first_index (\<lambda>p. active p \<noteq> 0 \<and> id_of p = i) ps = Some k"
    unfolding first_index_Some using assms unfolding distinct_ids_def
    by (metis less_trans nat_neq_iff)
  show "peer_map ps i = Some (peer_view (ps ! k))" by (simp add: peer_map_def first)
qed

lemma peer_map_other:
  assumes "\<not> (active (ps ! k) \<noteq> 0 \<and> id_of (ps ! k) = i)" "\<not> (active p \<noteq> 0 \<and> id_of p = i)"
  shows "peer_map (ps[k := p]) i = peer_map ps i"
proof -
  have "map_option (\<lambda>j. peer_view (ps[k := p] ! j))
        (first_index (\<lambda>p. active p \<noteq> 0 \<and> id_of p = i) (ps[k := p]))
      = map_option (\<lambda>j. peer_view (ps ! j)) (first_index (\<lambda>p. active p \<noteq> 0 \<and> id_of p = i) ps)"
    using assms(1)
  proof (induction ps arbitrary: k)
    case Nil
    then show ?case by simp
  next
    case (Cons q ps)
    then show ?case using assms(2)
      by (cases k) (auto simp: option.map_comp comp_def)
  qed
  then show ?thesis by (simp add: peer_map_def)
qed

lemma peer_map_insert:
  assumes "distinct_ids ps" "k < length ps" "active (ps ! k) = 0" "peer_map ps (id_of p) = None"
    "active p \<noteq> 0"
  shows "peer_map (ps[k := p]) = (peer_map ps)(id_of p \<mapsto> peer_view p)"
proof
  fix i
  have "distinct_ids (ps[k := p])"
    using assms(1,4) by (intro distinct_ids_set) (auto simp: peer_map_None)
  then show "peer_map (ps[k := p]) i = ((peer_map ps)(id_of p \<mapsto> peer_view p)) i"
    using assms peer_map_at(2) [of "ps[k := p]" k i] peer_map_other [of ps k i p]
    by (cases "i = id_of p") auto
qed

lemma peer_map_clear:
  assumes "distinct_ids ps" "k < length ps" "active (ps ! k) \<noteq> 0"
  shows "peer_map (ps[k := (ps ! k)\<lparr>active := 0\<rparr>]) = (peer_map ps)(id_of (ps ! k) := None)"
proof
  fix i
  show "peer_map (ps[k := (ps ! k)\<lparr>active := 0\<rparr>]) i = ((peer_map ps)(id_of (ps ! k) := None)) i"
  proof (cases "i = id_of (ps ! k)")
    case True
    have "\<forall>q \<in> set (ps[k := (ps ! k)\<lparr>active := 0\<rparr>]). active q \<noteq> 0 \<longrightarrow> id_of q \<noteq> i"
    proof (intro ballI impI)
      fix q
      assume "q \<in> set (ps[k := (ps ! k)\<lparr>active := 0\<rparr>])" "active q \<noteq> 0"
      moreover from this obtain j where j: "j < length ps" "q = ps[k := (ps ! k)\<lparr>active := 0\<rparr>] ! j"
        by (auto simp: in_set_conv_nth)
      moreover from calculation have "j \<noteq> k" using assms(2) by auto
      ultimately have "j < length ps" "j \<noteq> k" "q = ps ! j" "active (ps ! j) \<noteq> 0" by simp_all
      then show "id_of q \<noteq> i" using assms True unfolding distinct_ids_def by blast
    qed
    then show ?thesis using True by (simp add: peer_map_None)
  next
    case False
    then show ?thesis using peer_map_other [of ps k i "(ps ! k)\<lparr>active := 0\<rparr>"] by simp
  qed
qed

lemma entry_view:
  assumes "NUL \<notin> set addr"
  shows "peer_view (peer_entry (i, fd, addr, pt, tid)) = (fd, take 15 addr, pt, tid)"
proof -
  have "\<exists>r. (strncpy_field INET_ADDRSTRLEN addr)[INET_ADDRSTRLEN - 1 := NUL] = take 15 addr @ NUL # r"
  proof (cases "length addr < 15")
    case True
    then have "16 - length addr = Suc (15 - length addr)" "15 - length addr = Suc (14 - length addr)"
      by arith+
    then show ?thesis using True
      by (simp add: strncpy_field_def INET_ADDRSTRLEN_def list_update_append)
  next
    case False
    then have "15 < length (strncpy_field 16 addr)" "take 15 (strncpy_field 16 addr) = take 15 addr"
      by (simp_all add: strncpy_field_def min_def)
    then show ?thesis
      by (simp add: INET_ADDRSTRLEN_def upd_conv_take_nth_drop)
  qed
  moreover have "NUL \<notin> set (take 15 addr)" using assms by (auto dest: in_set_takeD)
  ultimately show ?thesis using assms
    by (auto simp: peer_view_def peer_entry_def takeWhile_append takeWhile_eq_all_conv)
qed

lemma lookup_calls:
  assumes "peer_map ps i = Some (fd, addr, pt, tid)"
  shows "send_scan i msg ps = Some [Send fd msg 0]"
    and "\<exists>k < length ps. active (ps ! k) \<noteq> 0 \<and> id_of (ps ! k) = i \<and>
      disconnect_scan i ps = Some (ps[k := (ps ! k)\<lparr>active := 0\<rparr>], [Close fd, Pthread_cancel tid,
        Print (''[x] Terminated connection ID '' @ show_int i @ [CHR 0x0A])])"
proof -
  obtain k where k: "first_index (\<lambda>p. active p \<noteq> 0 \<and> id_of p = i) ps = Some k"
    "peer_view (ps ! k) = (fd, addr, pt, tid)"
    using assms by (auto simp: peer_map_def)
  then show "send_scan i msg ps = Some [Send fd msg 0]"
    by (simp add: send_scan_first peer_view_def)
  show "\<exists>k < length ps. active (ps ! k) \<noteq> 0 \<and> id_of (ps ! k) = i \<and>
      disconnect_scan i ps = Some (ps[k := (ps ! k)\<lparr>active := 0\<rparr>], [Close fd, Pthread_cancel tid,
        Print (''[x] Terminated connection ID '' @ show_int i @ [CHR 0x0A])])"
    using first_index_SomeD(1,2) [OF k(1)] k
    by (intro exI [of _ k]) (simp add: disconnect_scan_first peer_view_def)
qed

lemma lookup_fails:
  assumes "peer_map ps i = None"
  shows "send_scan i msg ps = None" "disconnect_scan i ps = None"
  using assms by (simp_all add: peer_map_def send_scan_first disconnect_scan_first)

lemma add_peer_cases:
  assumes "table_ok app" "NUL \<notin> set addr"
  shows "chatapp_add_peer app fd addr pt tid = (-1, app, snd (snd (chatapp_add_peer app fd addr pt tid)))
      \<and> (next_peer_id app = INT_MAX \<or> (\<forall>p \<in> set (peers app). active p \<noteq> 0))
    \<or> (\<exists>ps. chatapp_add_peer app fd addr pt tid = (next_peer_id app,
          app\<lparr>peers := ps, next_peer_id := next_peer_id app + 1\<rparr>, [Lock, Unlock]) \<and>
        peer_map (peers app) (next_peer_id app) = None \<and>
        peer_map ps = (peer_map (peers app))(next_peer_id app \<mapsto> (fd, take 15 addr, pt, tid))
        \<and> next_peer_id app < INT_MAX \<and> (\<exists>p \<in> set (peers app). active p = 0))"
proof -
  note ok = table_okD [OF assms(1)]
  let ?n = "next_peer_id app"
  let ?e = "peer_entry (?n, fd, addr, pt, tid)"
  have fresh: "peer_map (peers app) ?n = None"
    unfolding peer_map_None
  proof (intro ballI impI)
    fix p
    assume "p \<in> set (peers app)" "active p \<noteq> 0"
    then show "id_of p \<noteq> ?n" using ok(5) [of p] by (simp add: peer_ok_def)
  qed
  show ?thesis
  proof (cases "?n > INT_MAX - 1")
    case True
    then show ?thesis using ok(3) by (simp add: chatapp_add_peer_def)
  next
    case lt: False
    show ?thesis
    proof (cases "first_index vacant_peer (peers app)")
      case None
      then have "\<forall>p \<in> set (peers app). active p \<noteq> 0" by (simp add: first_index_None)
      then show ?thesis using lt None by (simp add: chatapp_add_peer_def add_scan_first)
    next
      case (Some k)
      then have k: "k < length (peers app)" "active (peers app ! k) = 0"
        using first_index_SomeD by fast+
      have e: "id_of ?e = ?n" "active ?e \<noteq> 0" by (simp_all add: peer_entry_def)
      from peer_map_insert [OF ok(4) k, of ?e]
      have "peer_map ((peers app)[k := ?e])
          = (peer_map (peers app))(?n \<mapsto> (fd, take 15 addr, pt, tid))"
        unfolding e(1) using fresh e(2) by (simp add: entry_view [OF assms(2)])
      moreover have "\<exists>p \<in> set (peers app). active p = 0" using k by (metis nth_mem)
      ultimately show ?thesis using lt Some fresh
        by (intro disjI2 exI [of _ "(peers app)[k := ?e]"])
          (simp add: chatapp_add_peer_def add_scan_first)
    qed
  qed
qed

lemma add_peer_contract:
  assumes "table_ok app" "NUL \<notin> set addr"
  shows "case chatapp_add_peer app fd addr pt tid of (i, app', calls) \<Rightarrow>
    table_ok app' \<and> lock_discipline False calls \<and>
    (if next_peer_id app = INT_MAX \<or> (\<forall>p \<in> set (peers app). active p \<noteq> 0)
     then i = -1 \<and> app' = app
     else i = next_peer_id app \<and> next_peer_id app' = i + 1 \<and> peer_map (peers app) i = None \<and>
       peer_map (peers app') = (peer_map (peers app))(i \<mapsto> (fd, take 15 addr, pt, tid)))"
proof -
  have calls: "lock_discipline False (snd (snd (chatapp_add_peer app fd addr pt tid)))"
    by (simp add: chatapp_add_peer_def split: option.split)
  show ?thesis
    using add_peer_cases [OF assms, of fd pt tid] add_peer_ok [OF assms(1), of fd addr pt tid] calls
    by (cases "chatapp_add_peer app fd addr pt tid") auto
qed

section \<open>Properties\<close>

text \<open>A table of \<^verbatim>\<open>chatapp_setup\<close> before the first peer, for the concrete instances.\<close>

definition fresh_table :: chatapp where
  "fresh_table = \<lparr>peers = replicate MAX_PEERS (peer_init (peer_entry (0, 0, [], 0, 0))),
     next_peer_id = 1, server_port = 4000, listener_socket = 3, running = 1, listener_tid = 1\<rparr>"

lemma fresh_table_ok: "table_ok fresh_table"
  by (simp add: table_ok_def fresh_table_def distinct_ids_def peer_ok_def peer_init_def list_all_iff
      INT_MAX_def MAX_PEERS_def)

lemma fresh_table_empty: "peer_map (peers fresh_table) = Map.empty"
  by (rule ext) (simp add: peer_map_None fresh_table_def peer_init_def)

text \<open>
  C7: adding a peer.  The operation fails, changing nothing, exactly when the ids are used up or all
  ten slots are taken; otherwise the new connection gets the next id, which no other peer has, the
  table is extended at that id by the socket, the first 15 characters of the address, the port and
  the thread, and the invariant is kept.
\<close>

theorem chatapp_add_peer_spec:
  assumes "table_ok app" "NUL \<notin> set addr"
  shows "case chatapp_add_peer app fd addr pt tid of (i, app', calls) \<Rightarrow>
    table_ok app' \<and> lock_discipline False calls \<and>
    (if next_peer_id app = INT_MAX \<or> (\<forall>p \<in> set (peers app). active p \<noteq> 0)
     then i = -1 \<and> app' = app
     else i = next_peer_id app \<and> next_peer_id app' = i + 1 \<and> peer_map (peers app) i = None \<and>
       peer_map (peers app') = (peer_map (peers app))(i \<mapsto> (fd, take 15 addr, pt, tid)))"
  using assms by (rule add_peer_contract)

theorem chatapp_add_peer_spec_witness:
  "peer_map (peers (fst (snd (chatapp_add_peer fresh_table 5 ''10.0.0.2'' 4001 7)))) 1
    = Some (5, ''10.0.0.2'', 4001, 7)"
proof -
  have "\<exists>p \<in> set (peers fresh_table). active p = 0"
    by (simp add: fresh_table_def MAX_PEERS_def peer_init_def)
  then show ?thesis
    using chatapp_add_peer_spec [OF fresh_table_ok, of "''10.0.0.2''" 5 4001 7]
    by (auto simp: fresh_table_def INT_MAX_def split: prod.splits)
qed

text \<open>
  C6: sending and disconnecting refine lookup and deletion in the map of connections.  For a known
  id the message goes to that connection's socket only, and disconnecting closes the socket, cancels
  the thread and deletes exactly that id; for an unknown id both return -1 and change nothing.
\<close>

theorem chatapp_table_refines_map:
  assumes "table_ok app"
  shows "case peer_map (peers app) i of
      None \<Rightarrow> fst (chatapp_send_message app i msg) = -1 \<and>
        fst (snd (chatapp_disconnect_peer app i)) = app \<and> fst (chatapp_disconnect_peer app i) = -1
    | Some (fd, addr, pt, tid) \<Rightarrow>
        chatapp_send_message app i msg = (0, [Lock, Send fd msg 0, Unlock]) \<and>
        (\<exists>app' text. chatapp_disconnect_peer app i =
            (0, app', [Lock, Close fd, Pthread_cancel tid, Print text, Unlock]) \<and>
          table_ok app' \<and> peer_map (peers app') = (peer_map (peers app))(i := None))"
proof (cases "peer_map (peers app) i")
  case None
  then show ?thesis
    by (simp add: chatapp_send_message_def chatapp_disconnect_peer_def lookup_fails)
next
  case (Some v)
  obtain fd addr pt tid where v: "v = (fd, addr, pt, tid)" by (cases v)
  note look = lookup_calls [OF Some [unfolded v]]
  obtain k where k: "k < length (peers app)" "active (peers app ! k) \<noteq> 0"
    "id_of (peers app ! k) = i" "disconnect_scan i (peers app) = Some
      ((peers app)[k := (peers app ! k)\<lparr>active := 0\<rparr>], [Close fd, Pthread_cancel tid,
        Print (''[x] Terminated connection ID '' @ show_int i @ [CHR 0x0A])])"
    using look(2) by blast
  show ?thesis
    using Some v look(1) k table_ok_clear [OF assms k(1)]
      peer_map_clear [OF table_okD(4) [OF assms] k(1,2)]
    by (simp add: chatapp_send_message_def chatapp_disconnect_peer_def)
qed

definition one_peer :: chatapp where
  "one_peer = fst (snd (chatapp_add_peer fresh_table 5 ''10.0.0.2'' 4001 7))"

lemma one_peer_ok: "table_ok one_peer"
  unfolding one_peer_def by (rule add_peer_ok [OF fresh_table_ok])

lemma one_peer_map: "peer_map (peers one_peer) 1 = Some (5, ''10.0.0.2'', 4001, 7)"
  by code_simp

theorem chatapp_table_refines_map_witness:
  "chatapp_send_message one_peer 1 ''hello'' = (0, [Lock, Send 5 ''hello'' 0, Unlock])"
  using chatapp_table_refines_map [OF one_peer_ok, of 1 "''hello''"] one_peer_map by simp

text \<open>
  The listing is well defined, no address is read past the end of its buffer, and it prints
  one line for each connected peer, in the order of the slots, under the lock.
\<close>

theorem chatapp_list_peers_spec:
  assumes "table_ok app"
  shows "\<exists>header. chatapp_list_peers app = Some ([Print header, Lock] @
    map (\<lambda>p. Print (show_int (id_of p) @ [CHR 0x09] @ takeWhile (\<lambda>c. c \<noteq> NUL) (ip p) @ [CHR 0x09] @
      show_int (port p) @ [CHR 0x0A])) (filter (\<lambda>p. active p \<noteq> 0) (peers app)) @ [Unlock])"
proof -
  have "list_scan ps = Some (map (\<lambda>p. Print (show_int (id_of p) @ [CHR 0x09] @
      takeWhile (\<lambda>c. c \<noteq> NUL) (ip p) @ [CHR 0x09] @ show_int (port p) @ [CHR 0x0A]))
      (filter (\<lambda>p. active p \<noteq> 0) ps))"
    if "\<forall>p \<in> set ps. peer_ok (next_peer_id app) p" for ps
    using that by (induction ps) (auto simp: peer_line_def c_string_def peer_ok_def)
  then show ?thesis using table_okD(5) [OF assms] by (simp add: chatapp_list_peers_def)
qed

theorem chatapp_list_peers_spec_witness:
  "\<exists>header. chatapp_list_peers fresh_table = Some [Print header, Lock, Unlock]"
  using chatapp_list_peers_spec [OF fresh_table_ok]
  by (simp add: fresh_table_def peer_init_def)

end
