(* ===== verification/Chat_App.thy ===== *)
theory Chat_App
  imports Peer_Table
begin

text \<open>
  The rest of \<^verbatim>\<open>mock-prj-01/chatapp.c\<close>: start-up and shutdown, outgoing connections
  (\<^verbatim>\<open>chatapp_connect_peer\<close>), one turn of the listener thread, and the life of a peer thread with its
  cleanup handler.  The answers of the system are inputs; \<^verbatim>\<open>inet_pton\<close> is a parameter.  The functions
  that start a thread and then register the peer are split at that point, because the thread already
  runs while the registration is pending.
\<close>

section \<open>Start-up and shutdown\<close>

record setup_answers =
  ans_socket :: int
  ans_bind :: int
  ans_listen :: int

text \<open>\<open>Inl\<close> is \<^verbatim>\<open>exit(EXIT_FAILURE)\<close>; \<open>app0\<close> is the uninitialised structure.\<close>

definition chatapp_setup ::
    "setup_answers \<Rightarrow> chatapp \<Rightarrow> int \<Rightarrow> (int + chatapp) \<times> sys list" where
  "chatapp_setup a app0 pt =
     (let app = app0\<lparr>next_peer_id := 1, server_port := pt, running := 1\<rparr>;
          app = app\<lparr>peers := map peer_init (peers app)\<rparr>;
          app = app\<lparr>listener_socket := ans_socket a\<rparr>;
          calls = [Mutex_initialized, Socket (ans_socket a)] in
      if listener_socket app < 0 then (Inl 1, calls @ [Perror ''socket'']) else
      let fd = listener_socket app;
          calls = calls @ [Reuse_address fd, Bind fd (htons_port pt) (ans_bind a)] in
      if ans_bind a < 0 then (Inl 1, calls @ [Perror ''bind'']) else
      let calls = calls @ [Listen fd (int MAX_PEERS) (ans_listen a)] in
      if ans_listen a < 0 then (Inl 1, calls @ [Perror ''listen'']) else
      (Inr app, calls))"

definition chatapp_launch :: "int \<Rightarrow> int \<Rightarrow> chatapp \<Rightarrow> (int + chatapp) \<times> sys list" where
  "chatapp_launch created tid app =
     (let calls = [Print (''[INFO] Listening on port '' @ show_int (server_port app) @ ''...'' @ [CHR 0x0A]),
                   Pthread_create created] in
      if created \<noteq> 0
      then (Inl 1, calls @ [Perror ''pthread_create listener'', Close (listener_socket app)])
      else (Inr (app\<lparr>listener_tid := tid\<rparr>), calls))"

fun shutdown_scan :: "peer list \<Rightarrow> peer list \<times> sys list" where
  "shutdown_scan [] = ([], [])"
| "shutdown_scan (p # ps) =
     (let (ps', calls) = shutdown_scan ps in
      if active p \<noteq> 0
      then (p\<lparr>active := 0\<rparr> # ps', [Close (sockfd p), Pthread_cancel (thread_id p)] @ calls)
      else (p # ps', calls))"

definition chatapp_shutdown :: "chatapp \<Rightarrow> chatapp \<times> sys list" where
  "chatapp_shutdown app =
     (let app = app\<lparr>running := 0\<rparr>;
          (ps, calls) = shutdown_scan (peers app)
      in (app\<lparr>peers := ps\<rparr>,
          [Lock, Unlock, Close (listener_socket app), Pthread_join (listener_tid app), Lock] @ calls @
          [Unlock, Mutex_destroyed]))"

section \<open>Connections\<close>

text \<open>The lines both ways to a connection print.\<close>

definition text_connected :: "bytes \<Rightarrow> int \<Rightarrow> bytes" where
  "text_connected addr pt = ''[+] Connected to '' @ addr @ '':'' @ show_int pt @ [CHR 0x0A]"

definition text_established :: "int \<Rightarrow> bytes" where
  "text_established i = ''[ID '' @ show_int i @ ''] Connection established.'' @ [CHR 0x0A]"

definition text_list_full :: bytes where
  "text_list_full = ''[-] Connection list full.'' @ [CHR 0x0A]"

definition text_incoming :: "bytes \<Rightarrow> int \<Rightarrow> bytes" where
  "text_incoming addr pt = [CHR 0x0A] @ ''[+] New incoming connection from '' @ addr @ '':'' @
     show_int pt @ [CHR 0x0A]"

definition text_accepted :: "int \<Rightarrow> bytes" where
  "text_accepted i = ''[ID '' @ show_int i @ ''] Connection accepted.'' @ [CHR 0x0A]"

definition text_limit :: bytes where
  "text_limit = ''[-] Connection limit reached.'' @ [CHR 0x0A]"

record thread_answers =
  ans_malloc :: bool
  ans_create :: int
  ans_tid :: int

text \<open>
  Allocating the argument and starting the peer thread on an open socket.  \<open>None\<close> is failure, with
  the socket closed.
\<close>

definition start_thread :: "'a thread_answers_scheme \<Rightarrow> bytes \<Rightarrow> int \<Rightarrow> int option \<times> sys list" where
  "start_thread a what fd =
     (let calls = [Malloc (ans_malloc a)] in
      if \<not> ans_malloc a then (None, calls @ [Perror ''malloc'', Close fd]) else
      let calls = calls @ [Pthread_create (ans_create a)] in
      if ans_create a \<noteq> 0 then (None, calls @ [Perror what, Close fd, Free])
      else (Some (ans_tid a), calls))"

record connect_answers = thread_answers +
  ans_sock :: int
  ans_connect :: int

definition connect_open ::
    "(bytes \<Rightarrow> int) \<Rightarrow> connect_answers \<Rightarrow> bytes \<Rightarrow> int \<Rightarrow> (int \<times> int) option \<times> sys list" where
  "connect_open inet_pton a addr pt =
     (let fd = ans_sock a; calls = [Socket fd] in
      if fd < 0 then (None, calls @ [Perror ''socket'']) else
      if inet_pton addr \<noteq> 1
      then (None, calls @ [Print (''Invalid IP address'' @ [CHR 0x0A]), Close fd]) else
      let calls = calls @ [Connect fd (htons_port pt) (ans_connect a)] in
      if ans_connect a < 0 then (None, calls @ [Perror ''connect'', Close fd]) else
      let calls = calls @ [Print (text_connected addr pt)];
          (started, calls2) = start_thread a ''pthread_create connect'' fd
      in (map_option (Pair fd) started, calls @ calls2))"

definition connect_register ::
    "chatapp \<Rightarrow> int \<Rightarrow> bytes \<Rightarrow> int \<Rightarrow> int \<Rightarrow> int \<times> chatapp \<times> sys list" where
  "connect_register app fd addr pt tid =
     (case chatapp_add_peer app fd addr pt tid of (i, app, calls) \<Rightarrow>
        if i = -1
        then (-1, app, calls @ [Print text_list_full, Close fd,
               Pthread_cancel tid])
        else (i, app, calls @ [Print (text_established i)]))"

definition chatapp_connect_peer ::
    "(bytes \<Rightarrow> int) \<Rightarrow> connect_answers \<Rightarrow> chatapp \<Rightarrow> bytes \<Rightarrow> int \<Rightarrow> int \<times> chatapp \<times> sys list" where
  "chatapp_connect_peer inet_pton a app addr pt =
     (case connect_open inet_pton a addr pt of
        (None, calls) \<Rightarrow> (-1, app, calls)
      | (Some (fd, tid), calls) \<Rightarrow>
          (case connect_register app fd addr pt tid of (i, app, calls2) \<Rightarrow> (i, app, calls @ calls2)))"

section \<open>The listener thread\<close>

record accept_answers = thread_answers +
  ans_accept :: int
  ans_addr :: bytes
  ans_port :: int

definition listen_accept ::
    "accept_answers \<Rightarrow> chatapp \<Rightarrow> (int \<times> int) option \<times> sys list" where
  "listen_accept a app =
     (let fd = ans_accept a; calls = [Accept (listener_socket app) fd] in
      if fd < 0 then (None, calls @ [Perror ''accept'']) else
      let calls = calls @ [Print (text_incoming (ans_addr a) (ans_port a))];
          (started, calls2) = start_thread a ''pthread_create peer'' fd
      in (map_option (Pair fd) started, calls @ calls2))"

definition listen_register ::
    "chatapp \<Rightarrow> int \<Rightarrow> bytes \<Rightarrow> int \<Rightarrow> int \<Rightarrow> chatapp \<times> sys list" where
  "listen_register app fd addr pt tid =
     (case chatapp_add_peer app fd addr pt tid of (i, app, calls) \<Rightarrow>
        if i = -1
        then (app, calls @ [Print text_limit, Close fd,
               Pthread_cancel tid])
        else (app, calls @ [Print (text_accepted i)]))"

text \<open>One turn of the loop; \<open>None\<close> is the \<^verbatim>\<open>break\<close> that ends the thread.\<close>

definition listen_thread_turn :: "accept_answers \<Rightarrow> chatapp \<Rightarrow> chatapp option \<times> sys list" where
  "listen_thread_turn a app =
     (let calls = [Lock, Unlock] in
      if running app = 0 then (None, calls) else
      case listen_accept a app of
        (None, calls2) \<Rightarrow> (Some app, calls @ calls2)
      | (Some (fd, tid), calls2) \<Rightarrow>
          (case listen_register app fd (ans_addr a) (ans_port a) tid of (app, rest) \<Rightarrow>
             (Some app, calls @ calls2 @ rest)))"

section \<open>The peer thread\<close>

definition peer_cleanup :: "int \<Rightarrow> sys list" where
  "peer_cleanup fd = (if fd \<ge> 0 then [Close fd] else [])"

text \<open>
  One turn on the answer \<open>n\<close> of \<^verbatim>\<open>recv\<close>, which delivered \<open>data\<close>: the application, the calls and
  whether the loop ends.  \<open>None\<close> is an access outside \<^verbatim>\<open>buffer\<close>.
\<close>

definition peer_turn ::
    "chatapp \<Rightarrow> int \<Rightarrow> int \<times> bytes \<Rightarrow> (chatapp \<times> sys list \<times> bool) option" where
  "peer_turn app fd answer =
     (let (n, data) = answer; buffer = replicate (MAX_MSG_LEN + 1) NUL in
      if n \<le> 0
      then Some (app\<lparr>peers := drop_scan fd (peers app)\<rparr>,
        [Recv fd n, Print (''[-] A peer disconnected.'' @ [CHR 0x0A]), Lock, Unlock, Close fd], True)
      else do {
        buffer \<leftarrow> buf_put (overwrite buffer data) n NUL;
        s \<leftarrow> c_string buffer;
        Some (app, [Recv fd n,
          Print ([CHR 0x0A] @ ''[Message received]: '' @ s @ [CHR 0x0A] @ ''> '')], False)
      })"

text \<open>The thread on a series of answers; the flag says whether it has ended, with its cleanup run.\<close>

fun peer_handle_thread ::
    "chatapp \<Rightarrow> int \<Rightarrow> (int \<times> bytes) list \<Rightarrow> (chatapp \<times> sys list \<times> bool) option" where
  "peer_handle_thread app fd [] = Some (app, [], False)"
| "peer_handle_thread app fd (r # rs) = do {
     (app', calls, ended) \<leftarrow> peer_turn app fd r;
     (if ended then Some (app', calls @ peer_cleanup fd, True)
      else do {
        (app'', calls2, fin) \<leftarrow> peer_handle_thread app' fd rs;
        Some (app'', calls @ calls2, fin)
      })
   }"

text \<open>What the handler of the thread \<open>tid\<close> on \<open>fd\<close> calls when these calls cancel the thread.\<close>

definition cancelled_cleanups :: "int \<Rightarrow> int \<Rightarrow> sys list \<Rightarrow> sys list" where
  "cancelled_cleanups tid fd calls =
     (if Pthread_cancel tid \<in> set calls then peer_cleanup fd else [])"

lemma cancelled_cleanups_count:
  "0 \<le> fd \<Longrightarrow> cancelled_cleanups tid fd calls =
    (if count_list calls (Pthread_cancel tid) = 0 then [] else [Close fd])"
  by (auto simp: cancelled_cleanups_def peer_cleanup_def count_list_0_iff)

section \<open>Shared facts\<close>

lemma peer_init_inactive: "active (peer_init p) = 0"
  by (simp add: peer_init_def)

lemma setup_contract:
  assumes "length (peers app0) = MAX_PEERS"
  shows "if ans_socket a < 0 \<or> ans_bind a < 0 \<or> ans_listen a < 0
    then fst (chatapp_setup a app0 pt) = Inl 1
    else \<exists>app. fst (chatapp_setup a app0 pt) = Inr app \<and> table_ok app \<and>
      peer_map (peers app) = Map.empty \<and> next_peer_id app = 1 \<and> running app = 1 \<and>
      listener_socket app = ans_socket a \<and>
      Bind (ans_socket a) (pt mod 65536) (ans_bind a) \<in> set (snd (chatapp_setup a app0 pt))"
proof -
  have "distinct_ids (map peer_init ps)" "peer_map (map peer_init ps) = Map.empty"
    "list_all (peer_ok n) (map peer_init ps)" for ps n
    by (auto simp: distinct_ids_def peer_init_inactive peer_map_None peer_ok_def list_all_iff)
  then show ?thesis using assms
    by (auto simp: chatapp_setup_def Let_def table_ok_def INT_MAX_def htons_port_def)
qed

section \<open>Properties\<close>

text \<open>
  Start-up.  When the three socket calls succeed, the table satisfies its invariant and is
  empty, the first id is 1 and the listener is bound to the low 16 bits of the port; when one fails,
  the program exits with a failure and calls nothing after it.
\<close>

theorem chatapp_setup_spec:
  assumes "length (peers app0) = MAX_PEERS"
  shows "if ans_socket a < 0 \<or> ans_bind a < 0 \<or> ans_listen a < 0
    then fst (chatapp_setup a app0 pt) = Inl 1
    else \<exists>app. fst (chatapp_setup a app0 pt) = Inr app \<and> table_ok app \<and>
      peer_map (peers app) = Map.empty \<and> next_peer_id app = 1 \<and> running app = 1 \<and>
      listener_socket app = ans_socket a \<and>
      Bind (ans_socket a) (pt mod 65536) (ans_bind a) \<in> set (snd (chatapp_setup a app0 pt))"
  using assms by (rule setup_contract)

theorem chatapp_setup_spec_witness:
  "\<exists>app. fst (chatapp_setup \<lparr>ans_socket = 3, ans_bind = 0, ans_listen = 0\<rparr> fresh_table 70000) = Inr app \<and>
    table_ok app"
  using chatapp_setup_spec [of fresh_table "\<lparr>ans_socket = 3, ans_bind = 0, ans_listen = 0\<rparr>" 70000]
  by (auto simp: fresh_table_def)

text \<open>The accounting of sockets and threads that the two ways to a connection share.\<close>

lemma start_thread_calls:
  "case start_thread a what fd of
     (None, calls) \<Rightarrow> count_list calls (Close fd) = 1 \<and> count_list calls (Pthread_create 0) = 0 \<and>
       (\<forall>k. count_list calls (Pthread_cancel k) = 0) \<and> lock_discipline False calls
   | (Some tid, calls) \<Rightarrow> count_list calls (Close fd) = 0 \<and> count_list calls (Pthread_create 0) = 1 \<and>
       (\<forall>k. count_list calls (Pthread_cancel k) = 0) \<and> lock_discipline False calls"
  by (simp add: start_thread_def Let_def)

lemma add_peer_calls:
  "count_list (snd (snd (chatapp_add_peer app fd addr pt tid))) (Close k) = 0"
  "count_list (snd (snd (chatapp_add_peer app fd addr pt tid))) (Pthread_create k) = 0"
  "count_list (snd (snd (chatapp_add_peer app fd addr pt tid))) (Pthread_cancel k) = 0"
  "lock_discipline False (snd (snd (chatapp_add_peer app fd addr pt tid)))"
  by (simp_all add: chatapp_add_peer_def split: option.split)

text \<open>
  C8: connecting.  Every attempt that got a socket either leaves it open, with a thread running on it
  and the table extended by the connection under the next id, or returns -1 with the table unchanged.
  In that case the function closes the socket exactly once, and cancels the thread if it was started.
  The cleanup handler of a cancelled thread closes the number again: over both, the socket is closed
  once when no thread was started and twice when one was.  Which value stands for success is left open (\<^verbatim>\<open>chatapp.h\<close> promises 0,
  \<^verbatim>\<open>chatapp.c\<close> the id, which the code returns), and so is where the address leads: that a connection
  to oneself is refused, as \<^verbatim>\<open>README.md\<close> has it, is not in the code.
\<close>

theorem chatapp_connect_peer_accounts:
  assumes "table_ok app" "NUL \<notin> set addr" "0 \<le> ans_sock a"
  shows "case chatapp_connect_peer inet_pton a app addr pt of (i, app', calls) \<Rightarrow>
    table_ok app' \<and> lock_discipline False calls \<and>
    (if i = -1 then app' = app \<and> count_list calls (Close (ans_sock a)) = 1 \<and>
       count_list calls (Pthread_create 0) = count_list calls (Pthread_cancel (ans_tid a)) \<and>
       count_list (calls @ cancelled_cleanups (ans_tid a) (ans_sock a) calls) (Close (ans_sock a))
         = 1 + count_list calls (Pthread_create 0)
     else count_list calls (Close (ans_sock a)) = 0 \<and>
       count_list calls (Pthread_create 0) = 1 \<and> cancelled_cleanups (ans_tid a) (ans_sock a) calls = [] \<and>
       peer_map (peers app') = (peer_map (peers app))
         (next_peer_id app \<mapsto> (ans_sock a, take 15 addr, pt, ans_tid a)))"
proof (cases "connect_open inet_pton a addr pt")
  case (Pair opened calls)
  note start = start_thread_calls [where a = a and what = "''pthread_create connect''" and fd = "ans_sock a"]
  show ?thesis
  proof (cases opened)
    case None
    then show ?thesis
      using Pair start assms
      by (auto simp: chatapp_connect_peer_def connect_open_def Let_def cancelled_cleanups_count
          split: if_splits option.splits prod.splits)
  next
    case (Some v)
    then obtain st_calls where st: "v = (ans_sock a, ans_tid a)"
      "start_thread a ''pthread_create connect'' (ans_sock a) = (Some (ans_tid a), st_calls)"
      "count_list calls (Close (ans_sock a)) = 0" "count_list calls (Pthread_create 0) = 1"
      "count_list calls (Pthread_cancel (ans_tid a)) = 0" "lock_discipline False calls"
      using Pair start assms
      by (auto simp: connect_open_def start_thread_def Let_def split: if_splits)
    note add = add_peer_contract [OF assms(1,2), of "ans_sock a" pt "ans_tid a"]
    obtain i app' more_calls where
      a: "chatapp_add_peer app (ans_sock a) addr pt (ans_tid a) = (i, app', more_calls)"
      by (cases "chatapp_add_peer app (ans_sock a) addr pt (ans_tid a)")
    have "0 < next_peer_id app" using table_okD(2) [OF assms(1)] by simp
    then show ?thesis
      using Pair Some st add a add_peer_calls [of app "ans_sock a" addr pt "ans_tid a"]
      by (auto simp: chatapp_connect_peer_def connect_register_def lock_discipline_append
          cancelled_cleanups_count [OF assms(3)]
          split: if_splits)
  qed
qed

definition connect_example :: connect_answers where
  "connect_example = \<lparr>ans_malloc = True, ans_create = 0, ans_tid = 8, ans_sock = 6, ans_connect = 0\<rparr>"

theorem chatapp_connect_peer_accounts_witness:
  "table_ok (fst (snd (chatapp_connect_peer (\<lambda>_. 1) connect_example one_peer ''10.0.0.3'' 4002)))"
  using chatapp_connect_peer_accounts [OF one_peer_ok, where addr = "''10.0.0.3''" and
      a = connect_example and inet_pton = "\<lambda>_. 1" and pt = 4002]
  by (simp add: connect_example_def split: prod.splits)

text \<open>
  C9: one turn of the listener.  A cleared running flag ends the thread before the next \<^verbatim>\<open>accept\<close>; a
  failed \<^verbatim>\<open>accept\<close> changes nothing; an accepted socket is either registered, open and with a thread,
  or closed exactly once with its thread, if any, cancelled.
\<close>

theorem listen_thread_turn_spec:
  assumes "table_ok app" "NUL \<notin> set (ans_addr a)"
  shows "lock_discipline False (snd (listen_thread_turn a app)) \<and>
    (if running app = 0 then listen_thread_turn a app = (None, [Lock, Unlock])
     else \<exists>app' calls. listen_thread_turn a app = (Some app', calls) \<and> table_ok app' \<and>
       (if ans_accept a < 0 then app' = app
        else (app' = app \<and> count_list calls (Close (ans_accept a)) = 1 \<and>
            count_list calls (Pthread_create 0) = count_list calls (Pthread_cancel (ans_tid a))) \<or>
          (count_list calls (Close (ans_accept a)) = 0 \<and> count_list calls (Pthread_create 0) = 1 \<and>
            peer_map (peers app') = (peer_map (peers app))
              (next_peer_id app \<mapsto> (ans_accept a, take 15 (ans_addr a), ans_port a, ans_tid a)))))"
proof (cases "running app = 0 \<or> ans_accept a < 0")
  case True
  then show ?thesis
    using assms(1) by (auto simp: listen_thread_turn_def listen_accept_def Let_def)
next
  case False
  note start = start_thread_calls
    [where a = a and what = "''pthread_create peer''" and fd = "ans_accept a"]
  show ?thesis
  proof (cases "start_thread a ''pthread_create peer'' (ans_accept a)")
    case (Pair started calls)
    show ?thesis
    proof (cases started)
      case None
      then show ?thesis using False Pair start assms(1)
        by (simp add: listen_thread_turn_def listen_accept_def)
    next
      case (Some tid)
      have tid: "tid = ans_tid a"
        using Pair Some by (auto simp: start_thread_def Let_def split: if_splits)
      note add = add_peer_contract [OF assms, of "ans_accept a" "ans_port a" "ans_tid a"]
      obtain i app' add_calls where
        a: "chatapp_add_peer app (ans_accept a) (ans_addr a) (ans_port a) (ans_tid a) = (i, app', add_calls)"
        by (cases "chatapp_add_peer app (ans_accept a) (ans_addr a) (ans_port a) (ans_tid a)")
      have "0 < next_peer_id app" using table_okD(2) [OF assms(1)] by simp
      then show ?thesis
        using False Pair Some tid start add a
          add_peer_calls [of app "ans_accept a" "ans_addr a" "ans_port a" "ans_tid a"]
        by (auto simp: listen_thread_turn_def listen_accept_def listen_register_def Let_def
            lock_discipline_append split: if_splits)
    qed
  qed
qed

theorem listen_thread_turn_spec_witness:
  "\<exists>app'. fst (listen_thread_turn \<lparr>ans_malloc = False, ans_create = 0, ans_tid = 8, ans_accept = 6,
      ans_addr = ''10.0.0.3'', ans_port = 4002\<rparr> one_peer) = Some app' \<and> table_ok app'"
proof -
  have "running one_peer = 1" by code_simp
  then show ?thesis
    using listen_thread_turn_spec [OF one_peer_ok, of "\<lparr>ans_malloc = False, ans_create = 0,
      ans_tid = 8, ans_accept = 6, ans_addr = ''10.0.0.3'', ans_port = 4002\<rparr>"]
    by (auto split: if_splits)
qed

lemma peer_turn_message:
  assumes "m \<noteq> []" "length m \<le> MAX_MSG_LEN" "NUL \<notin> set m"
  shows "peer_turn app fd (int (length m), m) = Some (app, [Recv fd (int (length m)),
      Print ([CHR 0x0A] @ ''[Message received]: '' @ m @ [CHR 0x0A] @ ''> '')], False)"
proof -
  have "length m < length (replicate (MAX_MSG_LEN + 1) NUL)" using assms(2) by simp
  from overwrite_terminated [OF this] obtain r where
    "buf_put (overwrite (replicate (MAX_MSG_LEN + 1) NUL) m) (int (length m)) NUL = Some (m @ NUL # r)"
    by blast
  then show ?thesis using assms
    by (simp add: peer_turn_def Let_def c_string_append)
qed

text \<open>
  The life of a peer thread.  Each message of at most 100 bytes is printed whole and never
  leaves the buffer; when the connection ends, the entry with this socket is dropped under the lock
  and the thread ends.  It closes its socket twice: once itself and once more in the cleanup handler
  that \<^verbatim>\<open>pthread_cleanup_pop(1)\<close> runs.
\<close>

theorem peer_handle_thread_life:
  assumes "list_all (\<lambda>m. m \<noteq> [] \<and> length m \<le> MAX_MSG_LEN \<and> NUL \<notin> set m) ms" "n \<le> 0" "0 \<le> fd"
  shows "\<exists>bye. peer_handle_thread app fd (map (\<lambda>m. (int (length m), m)) ms @ [(n, rest)]) =
    Some (app\<lparr>peers := drop_scan fd (peers app)\<rparr>,
      concat (map (\<lambda>m. [Recv fd (int (length m)),
        Print ([CHR 0x0A] @ ''[Message received]: '' @ m @ [CHR 0x0A] @ ''> '')]) ms) @
      [Recv fd n, Print bye, Lock, Unlock, Close fd, Close fd], True)"
  using assms(1)
proof (induction ms)
  case Nil
  then show ?case using assms(2,3) by (simp add: peer_turn_def peer_cleanup_def)
next
  case (Cons m ms)
  then show ?case
    using peer_turn_message [of m app fd] by auto
qed

theorem peer_handle_thread_life_witness:
  "\<exists>app' calls. peer_handle_thread one_peer 5 [(2, ''hi''), (0, [])] = Some (app', calls, True) \<and>
    count_list calls (Close 5) = 2"
  using peer_handle_thread_life [of "[''hi'']" 0 5 one_peer "[]"] by (auto simp: MAX_MSG_LEN_def)

lemma shutdown_scan_run:
  "shutdown_scan ps = (map (\<lambda>p. p\<lparr>active := 0\<rparr>) ps,
    concat (map (\<lambda>p. [Close (sockfd p), Pthread_cancel (thread_id p)])
      (filter (\<lambda>p. active p \<noteq> 0) ps)))"
  by (induction ps) auto

lemma closing_calls:
  "lock_discipline True (concat (map (\<lambda>p. [Close (sockfd p), Pthread_cancel (thread_id p)]) ps) @
    [Unlock, Mutex_destroyed])"
  by (induction ps) auto

text \<open>
  Shutdown.  Afterwards no peer is active and the running flag is clear; the listener is closed
  and joined first, and every peer that was active gets its socket closed and its thread cancelled,
  in the order of the table and under the lock.
\<close>

theorem chatapp_shutdown_spec:
  "case chatapp_shutdown app of (app', calls) \<Rightarrow>
    running app' = 0 \<and> filter (\<lambda>p. active p \<noteq> 0) (peers app') = [] \<and> lock_discipline False calls \<and>
    calls = [Lock, Unlock, Close (listener_socket app), Pthread_join (listener_tid app), Lock] @
      concat (map (\<lambda>p. [Close (sockfd p), Pthread_cancel (thread_id p)])
        (filter (\<lambda>p. active p \<noteq> 0) (peers app))) @ [Unlock, Mutex_destroyed]"
  by (simp add: chatapp_shutdown_def shutdown_scan_run closing_calls filter_empty_conv)

end
