(* ===== verification/Chat_System.thy ===== *)
theory Chat_System
  imports Chat_App
begin

text \<open>
  The chat program of \<^verbatim>\<open>mock-prj-01\<close> as a system of threads: the main thread that connects and
  disconnects, the listener, and one thread for each connection.  The steps are the parts of the
  functions of \<open>Chat_App\<close> between two points where other threads may run: a region under the mutex is
  one step, and starting a peer thread, registering it, the last \<^verbatim>\<open>recv\<close> of its life, dropping its
  entry, and each of the two \<^verbatim>\<open>close\<close> calls at its end are steps of their own.  Listing and sending
  change no state and need no step;
  \<^verbatim>\<open>chatapp_shutdown\<close> is no step either, because \<^verbatim>\<open>main\<close> calls it behind a loop that never ends.
\<close>

section \<open>State\<close>

text \<open>
  A peer thread waits in \<^verbatim>\<open>recv\<close>, is about to take the lock and drop its entry (\<open>Doomed\<close>: with a
  cancellation pending), is about to close its socket, or runs its cleanup handler.
\<close>

datatype peer_pc = In_recv | Dropping | Doomed | Closing | In_cleanup

record chat_system =
  app :: chatapp
  threads :: "int \<Rightarrow> (peer_pc \<times> int) option"
  main_pending :: "(int \<times> bytes \<times> int \<times> int) option"
  listen_pending :: "(int \<times> bytes \<times> int \<times> int) option"
  open_fds :: "int set"

text \<open>
  What a call does to the descriptors and threads of the process.  A cancelled thread runs its cleanup
  handler at the next cancellation point: \<^verbatim>\<open>recv\<close> when it waits there, and otherwise its own \<^verbatim>\<open>close\<close>,
  which is then not made.  To close a descriptor that is not open is an error without effect.
\<close>

fun perform :: "sys \<Rightarrow> chat_system \<Rightarrow> chat_system" where
  "perform (Close fd) s = s\<lparr>open_fds := open_fds s - {fd}\<rparr>"
| "perform (Socket fd) s = (if 0 \<le> fd then s\<lparr>open_fds := insert fd (open_fds s)\<rparr> else s)"
| "perform (Accept l fd) s = (if 0 \<le> fd then s\<lparr>open_fds := insert fd (open_fds s)\<rparr> else s)"
| "perform (Pthread_cancel tid) s = (case threads s tid of
     Some (In_recv, fd) \<Rightarrow> s\<lparr>threads := (threads s)(tid \<mapsto> (In_cleanup, fd))\<rparr>
   | Some (Dropping, fd) \<Rightarrow> s\<lparr>threads := (threads s)(tid \<mapsto> (Doomed, fd))\<rparr>
   | Some (Closing, fd) \<Rightarrow> s\<lparr>threads := (threads s)(tid \<mapsto> (In_cleanup, fd))\<rparr>
   | _ \<Rightarrow> s)"
| "perform _ s = s"

definition performs :: "sys list \<Rightarrow> chat_system \<Rightarrow> chat_system" where
  "performs calls s = fold perform calls s"

lemma perform_app [simp]: "app (perform c s) = app s"
  by (cases "(c, s)" rule: perform.cases) (auto split: option.splits peer_pc.splits)

lemma performs_app [simp]: "app (performs calls s) = app s"
  by (induction calls arbitrary: s) (simp_all add: performs_def)

section \<open>Steps\<close>

definition chat_start :: "chat_system \<Rightarrow> bool" where
  "chat_start s \<longleftrightarrow> (\<exists>a app0 pt tid app1. length (peers app0) = MAX_PEERS \<and>
     fst (chatapp_setup a app0 pt) = Inr app1 \<and> fst (chatapp_launch 0 tid app1) = Inr (app s)) \<and>
     threads s = (\<lambda>_. None) \<and> main_pending s = None \<and> listen_pending s = None \<and>
     open_fds s = {listener_socket (app s)}"

inductive chat_step :: "chat_system \<Rightarrow> chat_system \<Rightarrow> bool" where
  accept_connection:
    "listen_pending s = None \<Longrightarrow> running (app s) \<noteq> 0 \<Longrightarrow> NUL \<notin> set (ans_addr a) \<Longrightarrow>
     ans_accept a \<notin> open_fds s \<Longrightarrow> threads s (ans_tid a) = None \<Longrightarrow>
     listen_accept a (app s) = (Some (fd, tid), calls) \<Longrightarrow>
     chat_step s ((performs calls s)\<lparr>threads := (threads s)(tid \<mapsto> (In_recv, fd)),
       listen_pending := Some (fd, ans_addr a, ans_port a, tid)\<rparr>)"
| accept_fails:
    "listen_pending s = None \<Longrightarrow> running (app s) \<noteq> 0 \<Longrightarrow> ans_accept a \<notin> open_fds s \<Longrightarrow>
     listen_accept a (app s) = (None, calls) \<Longrightarrow> chat_step s (performs calls s)"
| register_accepted:
    "listen_pending s = Some (fd, addr, pt, tid) \<Longrightarrow>
     listen_register (app s) fd addr pt tid = (app', calls) \<Longrightarrow>
     chat_step s (performs calls (s\<lparr>app := app', listen_pending := None\<rparr>))"
| connect_opens:
    "main_pending s = None \<Longrightarrow> NUL \<notin> set addr \<Longrightarrow>
     ans_sock a \<notin> open_fds s \<Longrightarrow> threads s (ans_tid a) = None \<Longrightarrow>
     connect_open pton a addr pt = (Some (fd, tid), calls) \<Longrightarrow>
     chat_step s ((performs calls s)\<lparr>threads := (threads s)(tid \<mapsto> (In_recv, fd)),
       main_pending := Some (fd, addr, pt, tid)\<rparr>)"
| connect_fails:
    "main_pending s = None \<Longrightarrow> ans_sock a \<notin> open_fds s \<Longrightarrow>
     connect_open pton a addr pt = (None, calls) \<Longrightarrow> chat_step s (performs calls s)"
| register_connected:
    "main_pending s = Some (fd, addr, pt, tid) \<Longrightarrow>
     connect_register (app s) fd addr pt tid = (r, app', calls) \<Longrightarrow>
     chat_step s (performs calls (s\<lparr>app := app', main_pending := None\<rparr>))"
| disconnect:
    "main_pending s = None \<Longrightarrow> chatapp_disconnect_peer (app s) i = (r, app', calls) \<Longrightarrow>
     chat_step s (performs calls (s\<lparr>app := app'\<rparr>))"
| receive_message:
    "threads s tid = Some (In_recv, fd) \<Longrightarrow>
     peer_turn (app s) fd answer = Some (app', calls, False) \<Longrightarrow>
     chat_step s (s\<lparr>app := app'\<rparr>)"
| connection_lost:
    "threads s tid = Some (In_recv, fd) \<Longrightarrow>
     peer_turn (app s) fd answer = Some (app', calls, True) \<Longrightarrow>
     chat_step s (s\<lparr>threads := (threads s)(tid \<mapsto> (Dropping, fd))\<rparr>)"
| entry_dropped:
    "threads s tid = Some (pc, fd) \<Longrightarrow> pc = Dropping \<or> pc = Doomed \<Longrightarrow>
     peer_turn (app s) fd answer = Some (app', calls, True) \<Longrightarrow>
     chat_step s (s\<lparr>app := app',
       threads := (threads s)(tid \<mapsto> (if pc = Doomed then In_cleanup else Closing, fd))\<rparr>)"
| peer_closes:
    "threads s tid = Some (Closing, fd) \<Longrightarrow>
     chat_step s (performs [Close fd] (s\<lparr>threads := (threads s)(tid \<mapsto> (In_cleanup, fd))\<rparr>))"
| cleanup_runs:
    "threads s tid = Some (In_cleanup, fd) \<Longrightarrow>
     chat_step s (performs (peer_cleanup fd) (s\<lparr>threads := (threads s)(tid := None)\<rparr>))"

section \<open>Invariant\<close>

text \<open>
  What a step may do to the table: keep it, add the next id, or drop some ids; \<open>later\<close> is closed
  under steps.
\<close>

definition later :: "chatapp \<Rightarrow> chatapp \<Rightarrow> bool" where
  "later a b \<longleftrightarrow> next_peer_id a \<le> next_peer_id b \<and>
     (\<forall>i < next_peer_id a. peer_map (peers b) i \<in> {None, peer_map (peers a) i})"

lemma later_refl: "later a a"
  by (simp add: later_def)

lemma later_trans: "later a b \<Longrightarrow> later b c \<Longrightarrow> later a c"
  unfolding later_def by (metis (no_types, lifting) insert_iff less_le_trans order_trans singletonD)

lemma later_clear:
  assumes "table_ok a" "k < length (peers a)"
  shows "later a (a\<lparr>peers := (peers a)[k := (peers a ! k)\<lparr>active := 0\<rparr>]\<rparr>)"
proof (cases "active (peers a ! k) = 0")
  case True
  then have "(peers a ! k)\<lparr>active := 0\<rparr> = peers a ! k" by (cases "peers a ! k") simp
  then have "(peers a)[k := (peers a ! k)\<lparr>active := 0\<rparr>] = peers a" by simp
  then show ?thesis by (simp only: later_def) simp
next
  case False
  then show ?thesis
    using peer_map_clear [OF table_okD(4) [OF assms(1)] assms(2)] by (simp add: later_def)
qed

lemma drop_later:
  "table_ok a \<Longrightarrow> later a (a\<lparr>peers := drop_scan fd (peers a)\<rparr>)"
  by (auto simp: drop_scan_first later_refl later_clear first_index_Some split: option.split)

lemma disconnect_later:
  "table_ok a \<Longrightarrow> later a (fst (snd (chatapp_disconnect_peer a i)))"
  by (auto simp: chatapp_disconnect_peer_def disconnect_scan_first later_refl later_clear
      first_index_Some split: option.split)

lemma add_later:
  assumes "table_ok a" "NUL \<notin> set addr"
  shows "later a (fst (snd (chatapp_add_peer a fd addr pt tid)))"
  using add_peer_contract [OF assms, of fd pt tid]
  by (auto simp: later_def split: prod.splits if_splits)

definition addr_ok :: "(int \<times> bytes \<times> int \<times> int) option \<Rightarrow> bool" where
  "addr_ok w \<longleftrightarrow> (case w of None \<Rightarrow> True | Some (fd, addr, pt, tid) \<Rightarrow> NUL \<notin> set addr)"

definition chat_ok :: "chat_system \<Rightarrow> bool" where
  "chat_ok s \<longleftrightarrow> table_ok (app s) \<and> addr_ok (main_pending s) \<and> addr_ok (listen_pending s)"

lemma perform_pending [simp]:
  "main_pending (perform c s) = main_pending s" "listen_pending (perform c s) = listen_pending s"
  by (cases "(c, s)" rule: perform.cases; auto split: option.splits peer_pc.splits)+

lemma performs_pending [simp]:
  "main_pending (performs calls s) = main_pending s"
  "listen_pending (performs calls s) = listen_pending s"
  by (induction calls arbitrary: s) (simp_all add: performs_def)

lemma register_app:
  "fst (listen_register a fd addr pt tid) = fst (snd (chatapp_add_peer a fd addr pt tid))"
  "fst (snd (connect_register a fd addr pt tid)) = fst (snd (chatapp_add_peer a fd addr pt tid))"
  by (simp_all add: listen_register_def connect_register_def split: prod.split)

lemma peer_turn_app:
  "peer_turn a fd answer = Some (a', calls, ended) \<Longrightarrow>
    a' = (if ended then a\<lparr>peers := drop_scan fd (peers a)\<rparr> else a)"
  by (auto simp: peer_turn_def Let_def bind_eq_Some_conv split: if_splits prod.splits)

lemma chat_step_ok:
  assumes "chat_step s t" "chat_ok s"
  shows "chat_ok t \<and> later (app s) (app t)"
  using assms
proof (cases rule: chat_step.cases)
  case (register_accepted fd addr pt tid app' calls)
  then have "app' = fst (snd (chatapp_add_peer (app s) fd addr pt tid))" "NUL \<notin> set addr"
    using register_app(1) [of "app s" fd addr pt tid] assms(2) by (auto simp: chat_ok_def addr_ok_def)
  then show ?thesis using register_accepted assms(2) add_peer_ok add_later
    by (simp add: chat_ok_def addr_ok_def)
next
  case (register_connected fd addr pt tid r app' calls)
  then have "app' = fst (snd (chatapp_add_peer (app s) fd addr pt tid))" "NUL \<notin> set addr"
    using register_app(2) [of "app s" fd addr pt tid] assms(2) by (auto simp: chat_ok_def addr_ok_def)
  then show ?thesis using register_connected assms(2) add_peer_ok add_later
    by (simp add: chat_ok_def addr_ok_def)
next
  case (disconnect i r app' calls)
  then have "app' = fst (snd (chatapp_disconnect_peer (app s) i))" by simp
  then show ?thesis using disconnect assms(2)
      disconnect_peer_ok [of "app s" i] disconnect_later [of "app s" i]
    by (simp add: chat_ok_def addr_ok_def)
next
  case (receive_message tid fd answer app' calls)
  then show ?thesis using assms(2) peer_turn_app [OF receive_message(3)]
    by (simp add: later_refl)
next
  case (entry_dropped tid pc fd answer app' calls)
  then show ?thesis using assms(2) peer_turn_app [OF entry_dropped(4)]
    by (simp add: chat_ok_def drop_scan_ok drop_later)
qed (auto simp: chat_ok_def addr_ok_def later_refl)

lemma chat_start_ok: "chat_start s \<Longrightarrow> chat_ok s"
proof -
  assume "chat_start s"
  then obtain a app0 pt tid app1 where
    start: "length (peers app0) = MAX_PEERS" "fst (chatapp_setup a app0 pt) = Inr app1"
      "fst (chatapp_launch 0 tid app1) = Inr (app s)"
    and empty: "main_pending s = None" "listen_pending s = None"
    unfolding chat_start_def by blast
  have "table_ok app1"
    using start(2) setup_contract [OF start(1), of a pt] by (auto simp: chatapp_setup_def Let_def split: if_splits)
  moreover have "app s = app1\<lparr>listener_tid := tid\<rparr>" using start(3) by (simp add: chatapp_launch_def)
  ultimately show ?thesis using empty by (simp add: chat_ok_def addr_ok_def table_ok_def)
qed

interpretation chat: inductive_invariant chat_start chat_step chat_ok
  by unfold_locales (simp_all add: chat_start_ok chat_step_ok)

section \<open>Example runs\<close>

text \<open>A system whose main thread has no registration pending.\<close>

definition chat_at ::
    "chatapp \<Rightarrow> (int \<Rightarrow> (peer_pc \<times> int) option) \<Rightarrow> (int \<times> bytes \<times> int \<times> int) option \<Rightarrow> int set \<Rightarrow> chat_system"
  where "chat_at a th w fds =
    \<lparr>app = a, threads = th, main_pending = None, listen_pending = w, open_fds = fds\<rparr>"

lemma chat_zero_start: "chat_start (chat_at fresh_table (\<lambda>_. None) None {3})"
proof -
  have 1: "fst (chatapp_setup \<lparr>ans_socket = 3, ans_bind = 0, ans_listen = 0\<rparr> fresh_table 4000)
      = Inr fresh_table"
    by (simp add: chatapp_setup_def fresh_table_def peer_init_def Let_def)
  have 2: "fst (chatapp_launch 0 1 fresh_table) = Inr fresh_table"
    by (simp add: chatapp_launch_def fresh_table_def)
  have 3: "length (peers fresh_table) = MAX_PEERS" "listener_socket fresh_table = 3"
    by (simp_all add: fresh_table_def)
  show ?thesis unfolding chat_start_def chat_at_def chat_system.simps
    by (intro conjI exI, rule 3(1), rule 1, rule 2) (simp_all add: 3(2))
qed

text \<open>What a successful \<^verbatim>\<open>accept\<close> and a successful registration do to the system.\<close>

lemma accept_run:
  assumes "running ap \<noteq> 0" "NUL \<notin> set addr" "0 \<le> fd" "fd \<notin> F" "th tid = None"
  shows "chat_step (chat_at ap th None F)
    (chat_at ap (th(tid \<mapsto> (In_recv, fd))) (Some (fd, addr, pt, tid)) (insert fd F))"
proof -
  define a where "a = \<lparr>ans_malloc = True, ans_create = 0, ans_tid = tid, ans_accept = fd,
    ans_addr = addr, ans_port = pt\<rparr>"
  have l: "listen_accept a (app (chat_at ap th None F)) = (Some (fd, tid),
      [Accept (listener_socket ap) fd, Print (text_incoming addr pt), Malloc True, Pthread_create 0])"
    using assms(3) by (simp add: listen_accept_def start_thread_def a_def chat_at_def)
  from chat_step.accept_connection [OF _ _ _ _ _ l] assms
  show ?thesis by (simp add: a_def performs_def chat_at_def)
qed

lemma register_run:
  assumes "chatapp_add_peer ap fd addr pt tid = (i, ap', [Lock, Unlock])" "i \<noteq> -1"
  shows "chat_step (chat_at ap th (Some (fd, addr, pt, tid)) F) (chat_at ap' th None F)"
proof -
  have "listen_register ap fd addr pt tid = (ap', [Lock, Unlock, Print (text_accepted i)])"
    using assms by (simp add: listen_register_def)
  with chat_step.register_accepted [of "chat_at ap th (Some (fd, addr, pt, tid)) F" fd addr pt tid]
  show ?thesis by (simp add: performs_def chat_at_def)
qed

lemma turn_ends:
  "\<exists>calls. peer_turn ap fd (0, []) = Some (ap\<lparr>peers := drop_scan fd (peers ap)\<rparr>, calls, True)"
  by (simp add: peer_turn_def)

lemma lost_run:
  assumes "th tid = Some (In_recv, fd)"
  shows "chat_step (chat_at ap th w F) (chat_at ap (th(tid \<mapsto> (Dropping, fd))) w F)"
  using turn_ends [of ap fd] assms chat_step.connection_lost [of "chat_at ap th w F" tid fd "(0, [])"]
  by (auto simp: chat_at_def)

lemma drop_run:
  assumes "th tid = Some (Dropping, fd)"
  shows "chat_step (chat_at ap th w F)
    (chat_at (ap\<lparr>peers := drop_scan fd (peers ap)\<rparr>) (th(tid \<mapsto> (Closing, fd))) w F)"
  using turn_ends [of ap fd] assms
    chat_step.entry_dropped [of "chat_at ap th w F" tid Dropping fd "(0, [])"]
  by (auto simp: chat_at_def)

lemma closes_run:
  assumes "th tid = Some (Closing, fd)"
  shows "chat_step (chat_at ap th w F) (chat_at ap (th(tid \<mapsto> (In_cleanup, fd))) w (F - {fd}))"
  using assms chat_step.peer_closes [of "chat_at ap th w F" tid fd]
  by (simp add: performs_def chat_at_def)

lemma cleanup_run:
  assumes "th tid = Some (In_cleanup, fd)" "0 \<le> fd"
  shows "chat_step (chat_at ap th w F) (chat_at ap (th(tid := None)) w (F - {fd}))"
  using assms chat_step.cleanup_runs [of "chat_at ap th w F" tid fd]
  by (simp add: performs_def peer_cleanup_def chat_at_def)

lemma add_first: "chatapp_add_peer fresh_table 5 ''10.0.0.2'' 4001 7 = (1, one_peer, [Lock, Unlock])"
  by code_simp

lemma drop_none: "fresh_table\<lparr>peers := drop_scan 5 (peers fresh_table)\<rparr> = fresh_table"
  by code_simp

definition lost_peer :: chatapp where
  "lost_peer = one_peer\<lparr>peers := drop_scan 5 (peers one_peer)\<rparr>"

definition second_peer :: chatapp where
  "second_peer = fst (snd (chatapp_add_peer lost_peer 5 ''10.0.0.3'' 4002 8))"

lemma add_second: "chatapp_add_peer lost_peer 5 ''10.0.0.3'' 4002 8 = (2, second_peer, [Lock, Unlock])"
  by code_simp

lemma second_map: "peer_map (peers second_peer) 2 = Some (5, ''10.0.0.3'', 4002, 8)"
  by code_simp

lemma example_fields: "running fresh_table = 1" "running lost_peer = 1" "next_peer_id one_peer = 2"
  by code_simp+

text \<open>The peer hangs up between the start of its thread and its registration.\<close>

lemma stale_run:
  "reach chat_start chat_step (chat_at one_peer (\<lambda>_. None) None {3})"
proof -
  let ?w = "Some (5, ''10.0.0.2'', 4001, 7)"
  have "reach chat_start chat_step (chat_at fresh_table (\<lambda>_. None) None {3})"
    by (rule reach_init) (rule chat_zero_start)
  then have "reach chat_start chat_step
      (chat_at fresh_table ((\<lambda>_. None)(7 \<mapsto> (In_recv, 5))) ?w (insert 5 {3}))"
    by (rule reach_step) (rule accept_run, simp_all add: example_fields)
  then have "reach chat_start chat_step (chat_at fresh_table
      ((\<lambda>_. None)(7 \<mapsto> (In_recv, 5), 7 \<mapsto> (Dropping, 5))) ?w (insert 5 {3}))"
    by (rule reach_step) (rule lost_run, simp)
  then have "reach chat_start chat_step (chat_at (fresh_table\<lparr>peers := drop_scan 5 (peers fresh_table)\<rparr>)
      ((\<lambda>_. None)(7 \<mapsto> (In_recv, 5), 7 \<mapsto> (Dropping, 5), 7 \<mapsto> (Closing, 5))) ?w (insert 5 {3}))"
    by (rule reach_step) (rule drop_run, simp)
  then have "reach chat_start chat_step (chat_at fresh_table
      ((\<lambda>_. None)(7 \<mapsto> (In_recv, 5), 7 \<mapsto> (Dropping, 5), 7 \<mapsto> (Closing, 5), 7 \<mapsto> (In_cleanup, 5)))
      ?w (insert 5 {3} - {5}))"
    unfolding drop_none by (rule reach_step) (rule closes_run, simp)
  then have "reach chat_start chat_step (chat_at fresh_table
      ((\<lambda>_. None)(7 \<mapsto> (In_recv, 5), 7 \<mapsto> (Dropping, 5), 7 \<mapsto> (Closing, 5), 7 \<mapsto> (In_cleanup, 5),
        7 := None)) ?w (insert 5 {3} - {5} - {5}))"
    by (rule reach_step) (rule cleanup_run, simp_all)
  then have "reach chat_start chat_step (chat_at one_peer
      ((\<lambda>_. None)(7 \<mapsto> (In_recv, 5), 7 \<mapsto> (Dropping, 5), 7 \<mapsto> (Closing, 5), 7 \<mapsto> (In_cleanup, 5),
        7 := None)) None (insert 5 {3} - {5} - {5}))"
    by (rule reach_step) (rule register_run [OF add_first], simp)
  moreover have "((\<lambda>_. None)(7 \<mapsto> (In_recv, 5), 7 \<mapsto> (Dropping, 5), 7 \<mapsto> (Closing, 5),
        7 \<mapsto> (In_cleanup, 5), 7 := None)) = ((\<lambda>_. None) :: int \<Rightarrow> (peer_pc \<times> int) option)"
    by (rule ext) simp
  moreover have "insert 5 {3} - {5} - {5} = {3 :: int}" by auto
  ultimately show ?thesis by (simp only:)
qed

text \<open>The first connection, registered and then lost.\<close>

abbreviation first_thread :: "int \<Rightarrow> (peer_pc \<times> int) option" where
  "first_thread \<equiv> (\<lambda>_. None)(7 \<mapsto> (In_recv, 5))"

lemma first_run: "reach chat_start chat_step (chat_at one_peer first_thread None (insert 5 {3}))"
proof -
  let ?w = "Some (5, ''10.0.0.2'', 4001, 7)"
  have "reach chat_start chat_step (chat_at fresh_table (\<lambda>_. None) None {3})"
    by (rule reach_init) (rule chat_zero_start)
  then have "reach chat_start chat_step (chat_at fresh_table first_thread ?w (insert 5 {3}))"
    by (rule reach_step) (rule accept_run, simp_all add: example_fields)
  then show ?thesis by (rule reach_step) (rule register_run [OF add_first], simp)
qed

lemma dropping_run: "reach chat_start chat_step
    (chat_at one_peer (first_thread(7 \<mapsto> (Dropping, 5))) None (insert 5 {3}))"
  using first_run by (rule reach_step) (rule lost_run, simp)

lemma first_lost: "chat_step (chat_at one_peer (first_thread(7 \<mapsto> (Dropping, 5))) None (insert 5 {3}))
    (chat_at lost_peer (first_thread(7 \<mapsto> (Dropping, 5), 7 \<mapsto> (Closing, 5))) None (insert 5 {3}))"
  unfolding lost_peer_def by (rule drop_run) simp

text \<open>The number of a closed socket is given to the next connection before the old thread's cleanup.\<close>

lemma reuse_run:
  "\<exists>th F. reach chat_start chat_step (chat_at second_peer th None F) \<and>
    th 7 = Some (In_cleanup, 5) \<and> th 8 = Some (In_recv, 5) \<and> 5 \<in> F"
proof -
  let ?v = "Some (5, ''10.0.0.3'', 4002, 8)"
  let ?t3 = "first_thread(7 \<mapsto> (Dropping, 5), 7 \<mapsto> (Closing, 5), 7 \<mapsto> (In_cleanup, 5))"
  let ?t4 = "?t3(8 \<mapsto> (In_recv, 5))"
  from dropping_run first_lost
  have "reach chat_start chat_step (chat_at lost_peer
      (first_thread(7 \<mapsto> (Dropping, 5), 7 \<mapsto> (Closing, 5))) None (insert 5 {3}))"
    by (rule reach_step)
  then have "reach chat_start chat_step (chat_at lost_peer ?t3 None (insert 5 {3} - {5}))"
    by (rule reach_step) (rule closes_run, simp)
  then have "reach chat_start chat_step (chat_at lost_peer ?t4 ?v (insert 5 (insert 5 {3} - {5})))"
    by (rule reach_step) (rule accept_run, simp_all add: example_fields)
  then have "reach chat_start chat_step (chat_at second_peer ?t4 None (insert 5 (insert 5 {3} - {5})))"
    by (rule reach_step) (rule register_run [OF add_second], simp)
  moreover have "?t4 7 = Some (In_cleanup, 5)" "?t4 8 = Some (In_recv, 5)" by simp_all
  ultimately show ?thesis by blast
qed

section \<open>Properties\<close>

text \<open>
  C1: in every interleaving of the main thread, the listener and the peer threads, the table keeps
  ten slots, the ids of the connected peers are distinct, positive and below the counter, the
  counter never exceeds INT_MAX, and every address is a terminated string.
\<close>

theorem chat_table_invariant:
  assumes "reach chat_start chat_step s"
  shows "length (peers (app s)) = 10 \<and> 1 \<le> next_peer_id (app s) \<and> next_peer_id (app s) \<le> INT_MAX \<and>
    list_all (\<lambda>p. active p = 0 \<or> 1 \<le> id_of p \<and> id_of p < next_peer_id (app s) \<and> NUL \<in> set (ip p))
      (peers (app s)) \<and>
    distinct_ids (peers (app s))"
proof -
  have "table_ok (app s)" using chat.holds_reachable [OF assms] by (simp add: chat_ok_def)
  then show ?thesis by (auto simp: table_ok_def MAX_PEERS_def list_all_iff peer_ok_def)
qed

theorem chat_table_invariant_witness:
  "distinct_ids (peers one_peer) \<and> next_peer_id one_peer \<le> INT_MAX"
  using chat_table_invariant [OF stale_run] by (simp add: chat_at_def)

text \<open>
  C2: ids are never reused.  From any reachable state on, an id handed out before either still
  stands for the same connection, the same socket, address, port and thread, or for none, and an id
  that was disconnected stays unknown for ever.
\<close>

theorem peer_ids_never_reused:
  assumes "reach chat_start chat_step s" "reach (\<lambda>x. x = s) chat_step t" "i < next_peer_id (app s)"
  shows "peer_map (peers (app t)) i \<in> {None, peer_map (peers (app s)) i}"
proof -
  from assms(2) have "chat_ok t \<and> later (app s) (app t)"
  proof (induction rule: reach.induct)
    case (reach_init x)
    then show ?case using chat.holds_reachable [OF assms(1)] by (simp add: later_refl)
  next
    case (reach_step x y)
    then show ?case using chat_step_ok later_trans by blast
  qed
  then show ?thesis using assms(3) by (simp add: later_def)
qed

theorem peer_ids_never_reused_witness:
  "peer_map (peers lost_peer) 1 \<in> {None, Some (5, ''10.0.0.2'', 4001, 7)}"
proof -
  let ?s = "chat_at one_peer (first_thread(7 \<mapsto> (Dropping, 5))) None (insert 5 {3})"
  have "reach (\<lambda>x. x = ?s) chat_step ?s" by (rule reach_init) simp
  then have "reach (\<lambda>x. x = ?s) chat_step (chat_at lost_peer
      (first_thread(7 \<mapsto> (Dropping, 5), 7 \<mapsto> (Closing, 5))) None (insert 5 {3}))"
    using first_lost by (rule reach_step)
  from peer_ids_never_reused [OF dropping_run this, of 1]
  show ?thesis by (simp add: chat_at_def example_fields one_peer_map del: fun_upd_apply)
qed

text \<open>
  C10: the registration race.  The thread of a connection runs before its entry is made.  If the
  other side hangs up in between, the thread finds no entry to drop, closes the socket and ends, and
  the registration then lists a peer that is gone: no thread is left to remove it, and a message to
  it goes to a descriptor that is not open, with \<^verbatim>\<open>chatapp_send_message\<close> reporting success.
\<close>

theorem registration_race_leaves_stale_peer:
  "\<exists>s fd addr pt tid. reach chat_start chat_step s \<and>
    peer_map (peers (app s)) 1 = Some (fd, addr, pt, tid) \<and>
    threads s = (\<lambda>_. None) \<and> fd \<notin> open_fds s \<and>
    (\<forall>msg. chatapp_send_message (app s) 1 msg = (0, [Lock, Send fd msg 0, Unlock]))"
proof -
  have "chatapp_send_message one_peer 1 msg = (0, [Lock, Send 5 msg 0, Unlock])" for msg
    by (simp add: chatapp_send_message_def lookup_calls(1) [OF one_peer_map])
  then show ?thesis using stale_run one_peer_map
    by (intro exI [of _ "chat_at one_peer (\<lambda>_. None) None {3}"] exI) (auto simp: chat_at_def)
qed

text \<open>
  C11: the second \<^verbatim>\<open>close\<close> of a peer thread can hit another connection.  The old thread has closed its
  socket, the number was given to the next connection, which is registered and whose thread waits in
  \<^verbatim>\<open>recv\<close> on the open socket, and the next step of the old thread, its cleanup handler, closes that
  socket and nothing else: the entry and the thread of the new connection stay as they were.
\<close>

theorem double_close_kills_connection:
  "\<exists>s t old new fd addr pt. reach chat_start chat_step s \<and> chat_step s t \<and> old \<noteq> new \<and>
    threads s old = Some (In_cleanup, fd) \<and> threads s new = Some (In_recv, fd) \<and> fd \<in> open_fds s \<and>
    peer_map (peers (app s)) 2 = Some (fd, addr, pt, new) \<and>
    app t = app s \<and> threads t = (threads s)(old := None) \<and> fd \<notin> open_fds t"
proof -
  obtain th F where r: "reach chat_start chat_step (chat_at second_peer th None F)"
    "th 7 = Some (In_cleanup, 5)" "th 8 = Some (In_recv, 5)" "5 \<in> F"
    using reuse_run by blast
  have c: "chat_step (chat_at second_peer th None F) (chat_at second_peer (th(7 := None)) None (F - {5}))"
    using r(2) by (rule cleanup_run) simp
  show ?thesis
    by (rule exI [of _ "chat_at second_peer th None F"],
        rule exI [of _ "chat_at second_peer (th(7 := None)) None (F - {5})"],
        rule exI [of _ 7], rule exI [of _ 8], rule exI [of _ 5],
        rule exI [of _ "''10.0.0.3''"], rule exI [of _ 4002])
      (use r c second_map in \<open>simp add: chat_at_def\<close>)
qed

end
