(* ===== verification/Commands.thy ===== *)
theory Commands
  imports Chat_App
begin

text \<open>
  The command line of the chat program: \<^verbatim>\<open>commands.c\<close>, \<^verbatim>\<open>utils.c\<close> and \<^verbatim>\<open>main.c\<close> of \<^verbatim>\<open>mock-prj-01\<close>.
  \<^verbatim>\<open>handle_commands\<close> calls five functions, \<^verbatim>\<open>connect_to_peer\<close>, \<^verbatim>\<open>list_connections\<close>,
  \<^verbatim>\<open>send_message\<close>, \<^verbatim>\<open>terminate_connection\<close> and \<^verbatim>\<open>close_all_connections\<close>, that no file of the
  repository defines; they are the fields of a \<open>backend\<close>, a parameter of the model.
\<close>

section \<open>Utilities\<close>

record ip_answers =
  ans_udp :: int
  ans_udp_connect :: int
  ans_getsockname :: int
  ans_local_ip :: bytes

definition get_local_ip :: "ip_answers \<Rightarrow> sys list" where
  "get_local_ip a =
     (let fd = ans_udp a; calls = [Socket fd] in
      if fd < 0 then calls @ [Perror ''socket''] else
      let calls = calls @ [Connect fd 80 (ans_udp_connect a)] in
      if ans_getsockname a < 0 then calls @ [Perror ''getsockname'', Close fd]
      else calls @ [Print (''Local IP: '' @ ans_local_ip a @ [CHR 0x0A]), Close fd])"

definition print_help :: "sys list" where
  "print_help = map (\<lambda>l. Print (l @ [CHR 0x0A]))
     [''Available commands:'',
      ''help                         : Display this help message'',
      ''myip                         : Display the IP address of this process'',
      ''myport                       : Display the port on which this process is listening'',
      ''connect <destination> <port> : Connect to the specified IP and port'',
      ''list                         : List all active connections'',
      ''send <connection id> <msg>   : Send a message to a specific connection'',
      ''terminate <connection id>    : Terminate a specific connection'',
      ''exit                         : Close all connections and terminate the program'']"

section \<open>Reading a command\<close>

definition MAX_CMD_LEN :: nat where "MAX_CMD_LEN = 256"

section \<open>Dispatch\<close>

record 's backend =
  connect_to_peer :: "'s \<Rightarrow> bytes \<Rightarrow> int \<Rightarrow> 's \<times> sys list"
  list_connections :: "'s \<Rightarrow> 's \<times> sys list"
  send_message :: "'s \<Rightarrow> int \<Rightarrow> bytes \<Rightarrow> 's \<times> sys list"
  terminate_connection :: "'s \<Rightarrow> int \<Rightarrow> 's \<times> sys list"
  close_all_connections :: "'s \<Rightarrow> 's \<times> sys list"
  port_of :: "'s \<Rightarrow> int"

datatype outcome = Next | Exited int

definition line_out :: "bytes \<Rightarrow> sys list" where
  "line_out l = [Print (l @ [CHR 0x0A])]"

text \<open>
  One command: the outcome, the new state and the calls.  \<open>None\<close> is a write past the end of the
  100-byte array \<^verbatim>\<open>msg\<close>, which \<^verbatim>\<open>%[^\n]\<close> fills without a width.
\<close>

definition run_command ::
    "'s backend \<Rightarrow> ip_answers \<Rightarrow> 's \<Rightarrow> bytes \<Rightarrow> (outcome \<times> 's \<times> sys list) option" where
  "run_command b ips s command =
     (if command = ''help'' then Some (Next, s, print_help)
      else if command = ''myip'' then Some (Next, s, get_local_ip ips)
      else if command = ''myport''
      then Some (Next, s, line_out (''Listening on port: '' @ show_int (port_of b s)))
      else if strn_eq 8 command ''connect '' then
        (case (do { (addr, r) \<leftarrow> scan_s 63 (drop 8 command); (pt, r) \<leftarrow> scan_d r; Some (addr, pt) }) of
           Some (addr, pt) \<Rightarrow> Some (Next, connect_to_peer b s addr pt)
         | None \<Rightarrow> Some (Next, s, line_out ''Usage: connect <destination> <port>''))
      else if command = ''list'' then Some (Next, list_connections b s)
      else if strn_eq 5 command ''send '' then
        (case (do { (i, r) \<leftarrow> scan_d (drop 5 command);
                    (msg, r) \<leftarrow> scan_not_nl (dropWhile isspace r); Some (i, msg) }) of
           Some (i, msg) \<Rightarrow>
             if length msg + 1 > MAX_MSG_LEN then None
             else Some (Next, send_message b s i msg)
         | None \<Rightarrow> Some (Next, s, line_out ''Usage: send <connection id> <message>''))
      else if strn_eq 10 command ''terminate '' then
        (case scan_d (drop 10 command) of
           Some (i, r) \<Rightarrow> Some (Next, terminate_connection b s i)
         | None \<Rightarrow> Some (Next, s, line_out ''Usage: terminate <connection id>''))
      else if command = ''exit'' then
        (case close_all_connections b s of (s, calls) \<Rightarrow> Some (Exited 0, s, calls))
      else Some (Next, s, line_out (''Unknown command. Type '' @ [CHR 0x27] @ ''help'' @ [CHR 0x27] @
        '' for a list of commands.'')))"

text \<open>
  \<open>handle_commands b ips n s inp\<close> is the loop for at most \<open>n\<close> turns on the standard input \<open>inp\<close>; the
  outcome \<open>Next\<close> says that the loop still runs.
\<close>

fun handle_commands ::
    "'s backend \<Rightarrow> ip_answers \<Rightarrow> nat \<Rightarrow> 's \<Rightarrow> bytes \<Rightarrow> (outcome \<times> 's \<times> sys list) option" where
  "handle_commands b ips 0 s inp = Some (Next, s, [])"
| "handle_commands b ips (Suc n) s inp =
     (case fgets MAX_CMD_LEN inp of
        None \<Rightarrow> do {
          (out, s', calls) \<leftarrow> handle_commands b ips n s inp;
          Some (out, s', Print ''>> '' # calls)
        }
      | Some (buf, inp') \<Rightarrow> do {
          (out, s', calls) \<leftarrow> run_command b ips s (chomp buf);
          (case out of
             Exited e \<Rightarrow> Some (Exited e, s', Print ''>> '' # calls)
           | Next \<Rightarrow> do {
               (out, s'', calls') \<leftarrow> handle_commands b ips n s' inp';
               Some (out, s'', Print ''>> '' # calls @ calls')
             })
        })"

text \<open>
  \<open>main\<close>, for \<open>n\<close> turns of the command loop, and its calls; \<open>Inl\<close> is the exit status before the loop.
  The call of \<^verbatim>\<open>chatapp_shutdown\<close> behind the loop is never reached, because the loop ends only in
  \<^verbatim>\<open>exit\<close>.
\<close>

definition chat_main ::
    "chatapp backend \<Rightarrow> ip_answers \<Rightarrow> setup_answers \<Rightarrow> int \<times> int \<Rightarrow> chatapp \<Rightarrow> bytes list \<Rightarrow> nat \<Rightarrow> bytes
      \<Rightarrow> ((int + outcome) \<times> sys list) option" where
  "chat_main b ips a launch app0 argv n inp =
     (if length argv \<noteq> 2
      then Some (Inl 1, [Print (''Usage: '' @ argv ! 0 @ '' <listening_port>'' @ [CHR 0x0A])])
      else case chatapp_setup a app0 (atoi (argv ! 1)) of
          (Inl e, calls) \<Rightarrow> Some (Inl e, calls)
        | (Inr app, calls) \<Rightarrow> (case chatapp_launch (fst launch) (snd launch) app of
            (Inl e, calls2) \<Rightarrow> Some (Inl e, calls @ calls2)
          | (Inr app, calls2) \<Rightarrow> map_option (\<lambda>(out, _, calls3). (Inr out, calls @ calls2 @ calls3))
              (handle_commands b ips n app inp)))"

section \<open>Shared facts\<close>

lemma isspace_blank [simp]: "isspace (CHR '' '')"
  by (simp add: isspace_def)

lemma not_isdigit_blank [simp]: "\<not> isdigit (CHR '' '')"
  by (simp add: isdigit_def digit_val_def)

section \<open>Properties\<close>

text \<open>A backend that records what it is asked for, for the concrete instances.\<close>

definition log_backend :: "bytes list backend" where
  "log_backend = \<lparr>connect_to_peer = (\<lambda>s addr pt. (addr # s, [])), list_connections = (\<lambda>s. (s, [])),
     send_message = (\<lambda>s i msg. (msg # s, [])), terminate_connection = (\<lambda>s i. (s, [])),
     close_all_connections = (\<lambda>s. ([], [])), port_of = (\<lambda>s. 4000)\<rparr>"

definition no_ip :: ip_answers where
  "no_ip = \<lparr>ans_udp = -1, ans_udp_connect = 0, ans_getsockname = 0, ans_local_ip = []\<rparr>"

text \<open>
  C13: the command "send <id> <message>".  For every id an \<^verbatim>\<open>int\<close> can hold and whatever text follows it on
  the line, the parser recovers the id exactly, and as the message the text without its leading white
  space, and hands both to \<^verbatim>\<open>send_message\<close>, when that message has at most 99 characters; when nothing
  is left, the usage is printed; and a message of 100 characters, which \<^verbatim>\<open>README.md\<close> allows, or more
  overruns the array for it.
\<close>

theorem send_command_spec:
  assumes "INT_MIN \<le> i" "i \<le> INT_MAX" "CHR 0x0A \<notin> set text" "NUL \<notin> set text"
  shows "run_command b ips s (''send '' @ show_int i @ CHR '' '' # text) =
    (let msg = dropWhile isspace text in
     if msg = [] then Some (Next, s, [Print (''Usage: send <connection id> <message>'' @ [CHR 0x0A])])
     else if length msg \<le> 99 then Some (Next, send_message b s i msg)
     else None)"
proof -
  have d: "scan_d (show_int i @ CHR '' '' # text) = Some (i, CHR '' '' # text)"
    using assms(1,2) by (intro scan_d_show_int) auto
  have "CHR 0x0A \<notin> set (dropWhile isspace text)" using assms(3) set_dropWhileD by fast
  then have "scan_not_nl (dropWhile isspace (CHR '' '' # text)) =
      (if dropWhile isspace text = [] then None else Some (dropWhile isspace text, []))"
    using scan_not_nl_line [of "dropWhile isspace text"]
    by (cases "dropWhile isspace text = []")
      (simp_all add: scan_not_nl_def Let_def del: dropWhile_eq_Nil_conv)
  with d show ?thesis by (simp add: run_command_def strn_eq_def MAX_MSG_LEN_def line_out_def Let_def)
qed

theorem send_command_spec_witness:
  "run_command log_backend no_ip [] (''send '' @ show_int 3 @ CHR '' '' # replicate 100 (CHR ''a'')) = None \<and>
   run_command log_backend no_ip [] (''send '' @ show_int 3 @ CHR '' '' # replicate 99 (CHR ''a''))
     = Some (Next, [replicate 99 (CHR ''a'')], [])"
  using send_command_spec [of 3 "replicate 100 (CHR ''a'')" log_backend no_ip "[]"]
    send_command_spec [of 3 "replicate 99 (CHR ''a'')" log_backend no_ip "[]"]
  by (simp add: INT_MIN_def INT_MAX_def isspace_def log_backend_def)

text \<open>
  The commands "connect <destination> <port>" and "terminate <id>" reach the backend with
  exactly the destination, of up to 63 characters, and the number that were typed.
\<close>

theorem connect_terminate_commands:
  assumes "INT_MIN \<le> n" "n \<le> INT_MAX" "addr \<noteq> []" "length addr \<le> 63" "\<forall>c \<in> set addr. \<not> isspace c"
  shows "run_command b ips s (''connect '' @ addr @ CHR '' '' # show_int n) =
      Some (Next, connect_to_peer b s addr n) \<and>
    run_command b ips s (''terminate '' @ show_int n) = Some (Next, terminate_connection b s n)"
proof -
  have "scan_s 63 (addr @ CHR '' '' # show_int n) = Some (addr, CHR '' '' # show_int n)"
    using assms(3-5) by (intro scan_s_word) auto
  moreover have "scan_d (show_int n) = Some (n, [])"
    using scan_d_show_int [OF assms(1,2), of "[]"] by simp
  moreover have "scan_d (CHR '' '' # show_int n) = scan_d (show_int n)"
    by (simp add: scan_d_def)
  ultimately show ?thesis by (simp add: run_command_def strn_eq_def)
qed

theorem connect_terminate_commands_witness:
  "run_command log_backend no_ip [] (''connect '' @ ''10.0.0.2'' @ CHR '' '' # show_int 4001)
    = Some (Next, [''10.0.0.2''], [])"
  using connect_terminate_commands [of 4001 "''10.0.0.2''" log_backend no_ip "[]"]
  by (simp add: INT_MIN_def INT_MAX_def isspace_def log_backend_def)

text \<open>A line that \<^verbatim>\<open>fgets\<close> reads in one piece, and whose message, if it is one, fits the array for it.\<close>

definition sent_text :: "bytes \<Rightarrow> (int \<times> bytes) option" where
  "sent_text l = do {
     (i, r) \<leftarrow> scan_d (drop 5 l);
     (msg, r) \<leftarrow> scan_not_nl (dropWhile isspace r);
     Some (i, msg)
   }"

definition safe_line :: "bytes \<Rightarrow> bool" where
  "safe_line l \<longleftrightarrow> CHR 0x0A \<notin> set l \<and> NUL \<notin> set l \<and> length l < 255 \<and>
     (strn_eq 5 l ''send '' \<longrightarrow> (case sent_text l of None \<Rightarrow> True | Some (i, msg) \<Rightarrow> length msg \<le> 99))"

lemma safe_message:
  assumes "safe_line l" "strn_eq 5 l ''send ''"
    "do { (i, r) \<leftarrow> scan_d (drop 5 l); (msg, r) \<leftarrow> scan_not_nl (dropWhile isspace r); Some (i, msg) }
      = Some (i, msg)"
  shows "\<not> length msg + 1 > MAX_MSG_LEN"
proof -
  have "sent_text l = Some (i, msg)" using assms(3) by (simp add: sent_text_def)
  then show ?thesis using assms(1,2) by (simp add: safe_line_def MAX_MSG_LEN_def)
qed

text \<open>The outcomes of a command that stays inside its buffers, with a rule for each construct.\<close>

definition returns :: "(outcome \<times> 's \<times> sys list) option \<Rightarrow> bool" where
  "returns r \<longleftrightarrow> (\<exists>out s calls. r = Some (out, s, calls) \<and> out \<in> {Next, Exited 0})"

lemma returns_if: "(c \<Longrightarrow> returns x) \<Longrightarrow> (\<not> c \<Longrightarrow> returns y) \<Longrightarrow> returns (if c then x else y)"
  by simp

lemma returns_option:
  "(v = None \<Longrightarrow> returns x) \<Longrightarrow> (\<And>w. v = Some w \<Longrightarrow> returns (f w)) \<Longrightarrow>
    returns (case v of None \<Rightarrow> x | Some w \<Rightarrow> f w)"
  by (cases v) simp_all

lemma returns_prod: "(\<And>x y. v = (x, y) \<Longrightarrow> returns (f x y)) \<Longrightarrow> returns (case v of (x, y) \<Rightarrow> f x y)"
  by (cases v) simp

lemma returns_Some: "returns (Some (Next, p))" "returns (Some (Exited 0, p))"
  by (cases p; simp add: returns_def)+

lemma safe_line_runs: "safe_line l \<Longrightarrow> returns (run_command b ips s l)"
  unfolding run_command_def
  by (intro returns_if returns_option returns_prod returns_Some)
    (use safe_message in blast)

text \<open>
  "exit" ends the program.  Whatever complete command lines come before it, none of which
  overruns the message array, the loop has exited with status 0 after at most one turn for each line.
\<close>

theorem exit_command_ends_loop:
  assumes "list_all safe_line ls"
  shows "\<exists>s' calls. handle_commands b ips (Suc (length ls)) s
    (concat (map (\<lambda>l. l @ [CHR 0x0A]) ls) @ ''exit'' @ [CHR 0x0A]) = Some (Exited 0, s', calls)"
  using assms
proof (induction ls arbitrary: s)
  case Nil
  have "run_command b ips s ''exit'' = (case close_all_connections b s of (s, calls) \<Rightarrow>
      Some (Exited 0, s, calls))"
    by (simp add: run_command_def strn_eq_def)
  moreover have "chomp (''exit'' @ [CHR 0x0A]) = ''exit''" by code_simp
  moreover have "fgets MAX_CMD_LEN (''exit'' @ [CHR 0x0A]) = Some (''exit'' @ [CHR 0x0A], [])"
    using fgets_line [of "''exit''" MAX_CMD_LEN "[]"] by (simp add: MAX_CMD_LEN_def)
  ultimately show ?case by (simp split: prod.split)
next
  case (Cons l ls)
  let ?rest = "concat (map (\<lambda>l. l @ [CHR 0x0A]) ls) @ ''exit'' @ [CHR 0x0A]"
  from Cons.prems have l: "safe_line l" by simp
  then have "fgets MAX_CMD_LEN (l @ CHR 0x0A # ?rest) = Some (l @ [CHR 0x0A], ?rest)"
    "chomp (l @ [CHR 0x0A]) = l"
    by (auto simp: safe_line_def MAX_CMD_LEN_def intro!: fgets_line chomp_line)
  moreover obtain out s1 c1 where "run_command b ips s l = Some (out, s1, c1)" "out \<in> {Next, Exited 0}"
    using safe_line_runs [OF l, of b ips s] unfolding returns_def by blast
  moreover obtain s2 c2 where
    "handle_commands b ips (Suc (length ls)) s1 ?rest = Some (Exited 0, s2, c2)"
    using Cons.IH [of s1] Cons.prems by auto
  ultimately show ?case by auto
qed

theorem exit_command_ends_loop_witness:
  "\<exists>s' calls. handle_commands log_backend no_ip 3 []
    (''list'' @ [CHR 0x0A] @ ''bogus'' @ [CHR 0x0A] @ ''exit'' @ [CHR 0x0A]) = Some (Exited 0, s', calls)"
  using exit_command_ends_loop [of "[''list'', ''bogus'']" log_backend no_ip "[]"]
  by (simp add: safe_line_def strn_eq_def numeral_3_eq_3)

text \<open>
  The end of the input does not end the program.  \<^verbatim>\<open>fgets\<close> returns NULL for ever, and the loop
  prints its prompt as often as it is given turns, without waiting and without exiting.
\<close>

theorem end_of_input_spins:
  "handle_commands b ips n s [] = Some (Next, s, replicate n (Print ''>> ''))"
  by (induction n) (simp_all add: fgets_def)

end
