(* ===== verification/Chat_Session.thy ===== *)
theory Chat_Session
  imports Chat_System Commands
begin

text \<open>
  The command line in front of the application.  \<^verbatim>\<open>commands.c\<close> calls five functions that no file
  defines; they are a backend of which only a contract is known, and the command loop is proved safe
  for every backend that keeps it.  That the contract can be kept is shown by the functions of
  \<^verbatim>\<open>chatapp.c\<close>, which have the same parameters under other names: they are one backend among others,
  not what the program is linked with.
\<close>

section \<open>The contract of a backend\<close>

text \<open>
  Every function, called with arguments that fit its parameters, keeps an invariant, moves the state
  along \<open>rel\<close> only, and gives the lock back; after \<^verbatim>\<open>close_all_connections\<close> the session is closed.
\<close>

locale chat_service =
  fixes b :: "'s backend" and ok :: "'s \<Rightarrow> bool" and rel :: "'s \<Rightarrow> 's \<Rightarrow> bool" and closed :: "'s \<Rightarrow> bool"
  assumes rel_refl: "rel s s"
    and rel_trans: "rel s t \<Longrightarrow> rel t u \<Longrightarrow> rel s u"
    and connect_ok: "ok s \<Longrightarrow> addr \<noteq> [] \<Longrightarrow> length addr \<le> 63 \<Longrightarrow> NUL \<notin> set addr \<Longrightarrow>
      connect_to_peer b s addr pt = (t, calls) \<Longrightarrow> ok t \<and> rel s t \<and> lock_discipline False calls"
    and list_ok: "ok s \<Longrightarrow> list_connections b s = (t, calls) \<Longrightarrow>
      ok t \<and> rel s t \<and> lock_discipline False calls"
    and send_ok: "ok s \<Longrightarrow> msg \<noteq> [] \<Longrightarrow> length msg \<le> 99 \<Longrightarrow> NUL \<notin> set msg \<Longrightarrow>
      send_message b s i msg = (t, calls) \<Longrightarrow> ok t \<and> rel s t \<and> lock_discipline False calls"
    and terminate_ok: "ok s \<Longrightarrow> terminate_connection b s i = (t, calls) \<Longrightarrow>
      ok t \<and> rel s t \<and> lock_discipline False calls"
    and close_ok: "ok s \<Longrightarrow> close_all_connections b s = (t, calls) \<Longrightarrow>
      ok t \<and> rel s t \<and> lock_discipline False calls \<and> closed t"
begin

text \<open>The code returns, with the outcome \<open>v\<close> and all that the contract promises.\<close>

definition yields :: "'s \<Rightarrow> outcome \<Rightarrow> (outcome \<times> 's \<times> sys list) option \<Rightarrow> bool" where
  "yields s v r \<longleftrightarrow> (\<exists>t calls. r = Some (v, t, calls) \<and> ok t \<and> rel s t \<and>
     lock_discipline False calls \<and> (v \<noteq> Next \<longrightarrow> closed t))"

text \<open>A rule for each construct of a command.\<close>

lemma yields_if: "(c \<Longrightarrow> yields s v x) \<Longrightarrow> (\<not> c \<Longrightarrow> yields s v y) \<Longrightarrow> yields s v (if c then x else y)"
  by simp

lemma yields_option:
  "(w = None \<Longrightarrow> yields s v x) \<Longrightarrow> (\<And>a. w = Some a \<Longrightarrow> yields s v (f a)) \<Longrightarrow>
    yields s v (case w of None \<Rightarrow> x | Some a \<Rightarrow> f a)"
  by (cases w) simp_all

lemma yields_prod: "(\<And>x y. p = (x, y) \<Longrightarrow> yields s v (f x y)) \<Longrightarrow> yields s v (case p of (x, y) \<Rightarrow> f x y)"
  by (cases p) simp

lemma yields_calls: "ok s \<Longrightarrow> lock_discipline False calls \<Longrightarrow> yields s Next (Some (Next, s, calls))"
  by (simp add: yields_def rel_refl)

lemma yields_next:
  "(\<And>t calls. r = (t, calls) \<Longrightarrow> ok t \<and> rel s t \<and> lock_discipline False calls) \<Longrightarrow>
    yields s Next (Some (Next, r))"
  by (cases r) (simp add: yields_def)

lemma yields_service:
  "ok s \<Longrightarrow> addr \<noteq> [] \<Longrightarrow> length addr \<le> 63 \<Longrightarrow> NUL \<notin> set addr \<Longrightarrow>
    yields s Next (Some (Next, connect_to_peer b s addr pt))"
  "ok s \<Longrightarrow> yields s Next (Some (Next, list_connections b s))"
  "ok s \<Longrightarrow> msg \<noteq> [] \<Longrightarrow> length msg \<le> 99 \<Longrightarrow> NUL \<notin> set msg \<Longrightarrow>
    yields s Next (Some (Next, send_message b s i msg))"
  "ok s \<Longrightarrow> yields s Next (Some (Next, terminate_connection b s i))"
  by (rule yields_next, rule connect_ok list_ok send_ok terminate_ok, assumption+)+

lemma scan_s_word_of:
  assumes "NUL \<notin> set s" "scan_s w s = Some (addr, r)"
  shows "addr \<noteq> []" "length addr \<le> w" "NUL \<notin> set addr"
proof -
  have addr: "addr = take w (takeWhile (\<lambda>c. \<not> isspace c) (dropWhile isspace s))" "addr \<noteq> []"
    using assms(2) by (auto simp: scan_s_def Let_def split: if_splits)
  then show "addr \<noteq> []" "length addr \<le> w" by simp_all
  have "set addr \<subseteq> set (takeWhile (\<lambda>c. \<not> isspace c) (dropWhile isspace s))"
    by (simp only: addr(1) set_take_subset)
  also have "\<dots> \<subseteq> set (dropWhile isspace s)" by (rule subsetI) (drule set_takeWhileD, simp)
  also have "\<dots> \<subseteq> set s" by (rule subsetI) (erule set_dropWhileD)
  finally show "NUL \<notin> set addr" using assms(1) by blast
qed

lemma sign_of_rest: "sign_of u = (sg, t) \<Longrightarrow> set t \<subseteq> set u"
  by (cases u) (auto split: if_splits)

lemma scan_d_rest: "scan_d s = Some (i, r) \<Longrightarrow> set r \<subseteq> set s"
proof -
  assume s: "scan_d s = Some (i, r)"
  obtain sg t where t: "sign_of (dropWhile isspace s) = (sg, t)" by fastforce
  have "set t \<subseteq> set (dropWhile isspace s)"
    using t by (rule sign_of_rest)
  also have "\<dots> \<subseteq> set s" by (rule subsetI) (erule set_dropWhileD)
  finally have "set t \<subseteq> set s" .
  moreover have "set r \<subseteq> set t"
    using s t by (auto simp: scan_d_def Let_def dest: in_set_dropD split: if_splits)
  ultimately show ?thesis by blast
qed

lemma sent_text_fits:
  assumes "safe_line l" "strn_eq 5 l ''send ''" "sent_text l = Some (i, msg)"
  shows "msg \<noteq> []" "length msg \<le> 99" "NUL \<notin> set msg"
proof -
  obtain r r' where r: "scan_d (drop 5 l) = Some (i, r)"
    "scan_not_nl (dropWhile isspace r) = Some (msg, r')"
    using assms(3) by (auto simp: sent_text_def bind_eq_Some_conv)
  then have m: "msg = takeWhile (\<lambda>c. c \<noteq> CHR 0x0A) (dropWhile isspace r)" "msg \<noteq> []"
    by (auto simp: scan_not_nl_def Let_def simp del: takeWhile_eq_Nil_iff split: if_splits)
  show "msg \<noteq> []" "length msg \<le> 99" using m(2) assms by (auto simp: safe_line_def)
  have "set msg \<subseteq> set r" unfolding m(1) by (auto dest: set_takeWhileD set_dropWhileD)
  also have "\<dots> \<subseteq> set (drop 5 l)" using r(1) by (rule scan_d_rest)
  also have "\<dots> \<subseteq> set l" by (rule set_drop_subset)
  finally show "NUL \<notin> set msg" using assms(1) by (auto simp: safe_line_def)
qed

lemma quiet_calls:
  "lock_discipline False (line_out l)" "lock_discipline False print_help"
  "lock_discipline False (get_local_ip ips)"
  by (simp_all add: line_out_def print_help_def get_local_ip_def Let_def)

lemma run_command_yields:
  assumes "ok s" "safe_line l" "l \<noteq> ''exit''"
  shows "yields s Next (run_command b ips s l)"
proof -
  have addr: "addr \<noteq> []" "length addr \<le> 63" "NUL \<notin> set addr"
    if "do { (addr, r) \<leftarrow> scan_s 63 (drop 8 l); (pt, r) \<leftarrow> scan_d r; Some (addr, pt) } = Some (addr, pt)"
    for addr pt
    using that assms(2) scan_s_word_of [of "drop 8 l" 63 addr]
    by (auto simp: bind_eq_Some_conv safe_line_def dest: in_set_dropD)
  have msg: "msg \<noteq> []" "length msg \<le> 99" "NUL \<notin> set msg" "\<not> MAX_MSG_LEN < length msg + 1"
    if "strn_eq 5 l ''send ''"
      "do { (i, r) \<leftarrow> scan_d (drop 5 l); (msg, r) \<leftarrow> scan_not_nl (dropWhile isspace r); Some (i, msg) }
        = Some (i, msg)"
    for i msg
    using sent_text_fits [OF assms(2) that(1), of i msg] that(2)
    by (auto simp: sent_text_def MAX_MSG_LEN_def)
  show ?thesis
    unfolding run_command_def using assms(3)
    by (intro yields_if yields_option yields_prod yields_calls yields_service assms(1) quiet_calls)
      (use addr msg in blast)+
qed

lemma exit_yields:
  assumes "ok s"
  shows "yields s (Exited 0) (run_command b ips s ''exit'')"
  using close_ok [OF assms] by (cases "close_all_connections b s") (simp add: run_command_def strn_eq_def yields_def)

theorem handle_commands_yields:
  assumes "ok s" "list_all safe_line ls"
  shows "yields s (if ''exit'' \<in> set (take n ls) then Exited 0 else Next)
    (handle_commands b ips n s (concat (map (\<lambda>l. l @ [CHR 0x0A]) ls)))"
  using assms
proof (induction n arbitrary: s ls)
  case 0
  then show ?case by (simp add: yields_calls)
next
  case (Suc n)
  show ?case
  proof (cases ls)
    case Nil
    with Suc.IH [OF Suc.prems] show ?thesis by (auto simp: fgets_def yields_def)
  next
    case (Cons l ls')
    let ?rest = "concat (map (\<lambda>l. l @ [CHR 0x0A]) ls')"
    have l: "safe_line l" and ls': "list_all safe_line ls'" using Suc.prems(2) Cons by simp_all
    have read: "fgets MAX_CMD_LEN (l @ CHR 0x0A # ?rest) = Some (l @ [CHR 0x0A], ?rest)"
      "chomp (l @ [CHR 0x0A]) = l"
      using l by (auto simp: safe_line_def MAX_CMD_LEN_def intro!: fgets_line chomp_line)
    show ?thesis
    proof (cases "l = ''exit''")
      case True
      with exit_yields [OF Suc.prems(1), of ips] read Cons show ?thesis by (auto simp: yields_def)
    next
      case False
      from run_command_yields [OF Suc.prems(1) l False, of ips] obtain t calls where
        t: "run_command b ips s l = Some (Next, t, calls)" "ok t" "rel s t" "lock_discipline False calls"
        by (auto simp: yields_def)
      from Suc.IH [OF t(2) ls'] t(1,3,4) read Cons False show ?thesis
        by (auto simp: yields_def lock_discipline_append dest: rel_trans)
    qed
  qed
qed

end

section \<open>The functions of chatapp.c as one such backend\<close>

text \<open>\<open>ans\<close> gives the answers of the system for a connection made in a state.\<close>

definition chatapp_backend ::
    "(bytes \<Rightarrow> int) \<Rightarrow> (chatapp \<Rightarrow> connect_answers) \<Rightarrow> chatapp backend" where
  "chatapp_backend inet_pton ans = \<lparr>
     connect_to_peer = (\<lambda>ap addr pt. snd (chatapp_connect_peer inet_pton (ans ap) ap addr pt)),
     list_connections = (\<lambda>ap. (ap, case chatapp_list_peers ap of None \<Rightarrow> [] | Some calls \<Rightarrow> calls)),
     send_message = (\<lambda>ap i msg. (ap, snd (chatapp_send_message ap i msg))),
     terminate_connection = (\<lambda>ap i. snd (chatapp_disconnect_peer ap i)),
     close_all_connections = chatapp_shutdown,
     port_of = server_port\<rparr>"

lemma connect_peer_app:
  "fst (snd (chatapp_connect_peer pton a ap addr pt)) \<in>
     {ap, fst (snd (chatapp_add_peer ap (ans_sock a) addr pt (ans_tid a)))}"
  by (auto simp: chatapp_connect_peer_def connect_open_def start_thread_def connect_register_def Let_def
      split: prod.splits option.splits if_splits)

lemma connect_peer_calls:
  "lock_discipline False (snd (snd (chatapp_connect_peer pton a ap addr pt)))"
  using add_peer_calls(4) [of ap "ans_sock a" addr pt "ans_tid a"]
  by (auto simp: chatapp_connect_peer_def connect_open_def start_thread_def connect_register_def Let_def
      lock_discipline_append split: prod.splits option.splits if_splits)

lemma list_scan_calls: "list_scan ps = Some ls \<Longrightarrow> lock_discipline True (ls @ [Unlock])"
  by (induction ps arbitrary: ls) (auto simp: bind_eq_Some_conv split: if_splits)

lemma list_peers_calls: "chatapp_list_peers ap = Some calls \<Longrightarrow> lock_discipline False calls"
  using list_scan_calls by (auto simp: chatapp_list_peers_def bind_eq_Some_conv)

lemma send_message_calls: "lock_discipline False (snd (chatapp_send_message ap i msg))"
proof -
  have "\<exists>fd. send_scan i msg ps = Some [Send fd msg 0]" if "send_scan i msg ps \<noteq> None" for ps
    using that by (induction ps) auto
  then show ?thesis by (fastforce simp: chatapp_send_message_def split: option.split)
qed

lemma disconnect_calls: "lock_discipline False (snd (snd (chatapp_disconnect_peer ap i)))"
proof -
  have "lock_discipline True (calls @ [Unlock])" if "disconnect_scan i ps = Some (ps', calls)" for ps ps' calls
    using that by (induction ps arbitrary: ps') (auto split: if_splits)
  then show ?thesis by (auto simp: chatapp_disconnect_peer_def split: option.split)
qed

text \<open>No peer is left and the flag of the listener is clear.\<close>

definition shut_down :: "chatapp \<Rightarrow> bool" where
  "shut_down ap \<longleftrightarrow> running ap = 0 \<and> list_all (\<lambda>p. active p = 0) (peers ap)"

lemma shutdown_ok:
  assumes "table_ok ap" "chatapp_shutdown ap = (ap', calls)"
  shows "table_ok ap' \<and> later ap ap' \<and> lock_discipline False calls \<and> shut_down ap'"
proof -
  have ap': "ap' = ap\<lparr>running := 0, peers := map (\<lambda>p. p\<lparr>active := 0\<rparr>) (peers ap)\<rparr>"
    and "lock_discipline False calls"
    using assms(2) by (auto simp: chatapp_shutdown_def shutdown_scan_run closing_calls)
  moreover have "peer_map (map (\<lambda>p. p\<lparr>active := 0\<rparr>) (peers ap)) i = None" for i
    by (auto simp: peer_map_None)
  moreover have "table_ok ap'"
    using assms(1) by (auto simp: ap' table_ok_def peer_ok_def distinct_ids_def list_all_iff)
  ultimately show ?thesis by (simp add: later_def shut_down_def list_all_iff)
qed

lemma backend_connects:
  assumes "table_ok s" "NUL \<notin> set addr"
    and "connect_to_peer (chatapp_backend pton ans) s addr pt = (t, calls)"
  shows "table_ok t \<and> later s t \<and> lock_discipline False calls"
  using connect_peer_app [of pton "ans s" s addr pt] connect_peer_calls [of pton "ans s" s addr pt]
    add_peer_ok [OF assms(1)] add_later [OF assms(1,2)] assms
  by (auto simp: chatapp_backend_def later_refl)

lemma backend_terminates:
  assumes "table_ok s" "terminate_connection (chatapp_backend pton ans) s i = (t, calls)"
  shows "table_ok t \<and> later s t \<and> lock_discipline False calls"
  using disconnect_peer_ok [of s i] disconnect_later [of s i] disconnect_calls [of s i] assms
  by (simp add: chatapp_backend_def)

lemma backend_talks:
  assumes "table_ok s"
  shows "list_connections (chatapp_backend pton ans) s = (t, calls) \<Longrightarrow>
      table_ok t \<and> later s t \<and> lock_discipline False calls"
    and "send_message (chatapp_backend pton ans) s i msg = (t, calls) \<Longrightarrow>
      table_ok t \<and> later s t \<and> lock_discipline False calls"
    and "close_all_connections (chatapp_backend pton ans) s = (t, calls) \<Longrightarrow>
      table_ok t \<and> later s t \<and> lock_discipline False calls \<and> shut_down t"
  using assms list_peers_calls send_message_calls shutdown_ok
  by (auto simp: chatapp_backend_def later_refl split: option.splits)

interpretation session: chat_service "chatapp_backend pton ans" table_ok later shut_down
  by unfold_locales (rule later_refl, erule (1) later_trans, erule (2) backend_connects,
    erule (1) backend_talks, erule (1) backend_talks, erule (1) backend_terminates,
    erule (1) backend_talks)

section \<open>Properties\<close>

text \<open>
  C12: nothing a user types breaks a sound backend.  Let the five functions that \<^verbatim>\<open>commands.c\<close> calls and
  no file defines be any that, given an address of 1 to 63 characters or a message of 1 to 99, keep an
  invariant, move the state along a preorder and give the lock back.  Then for any lines of at most 254
  characters whose messages, if they are "send" commands, have at most 99 characters (a longer one
  overruns its array), and for any number of turns, the loop returns: no array is overrun, the
  functions get only such arguments, the invariant, the order and the lock are kept over the whole
  session, and the program ends, with status 0 and all connections closed, exactly when one of the
  lines read is "exit".
\<close>

theorem command_session_safe:
  assumes "\<And>s. rel s s" "\<And>s t u. rel s t \<Longrightarrow> rel t u \<Longrightarrow> rel s u"
    and "\<And>s addr pt t calls. ok s \<Longrightarrow> addr \<noteq> [] \<Longrightarrow> length addr \<le> 63 \<Longrightarrow> NUL \<notin> set addr \<Longrightarrow>
      connect_to_peer b s addr pt = (t, calls) \<Longrightarrow> ok t \<and> rel s t \<and> lock_discipline False calls"
    and "\<And>s t calls. ok s \<Longrightarrow> list_connections b s = (t, calls) \<Longrightarrow>
      ok t \<and> rel s t \<and> lock_discipline False calls"
    and "\<And>s msg i t calls. ok s \<Longrightarrow> msg \<noteq> [] \<Longrightarrow> length msg \<le> 99 \<Longrightarrow> NUL \<notin> set msg \<Longrightarrow>
      send_message b s i msg = (t, calls) \<Longrightarrow> ok t \<and> rel s t \<and> lock_discipline False calls"
    and "\<And>s i t calls. ok s \<Longrightarrow> terminate_connection b s i = (t, calls) \<Longrightarrow>
      ok t \<and> rel s t \<and> lock_discipline False calls"
    and "\<And>s t calls. ok s \<Longrightarrow> close_all_connections b s = (t, calls) \<Longrightarrow>
      ok t \<and> rel s t \<and> lock_discipline False calls \<and> closed t"
    and "ok s" "list_all safe_line ls"
  shows "\<exists>t calls. handle_commands b ips n s (concat (map (\<lambda>l. l @ [CHR 0x0A]) ls)) =
      Some (if ''exit'' \<in> set (take n ls) then Exited 0 else Next, t, calls) \<and>
    ok t \<and> rel s t \<and> lock_discipline False calls \<and> (''exit'' \<in> set (take n ls) \<longrightarrow> closed t)"
proof -
  have service: "chat_service b ok rel closed"
    by (rule chat_service.intro) (fact assms)+
  show ?thesis
    using chat_service.handle_commands_yields [OF service assms(8,9), of n ips]
    by (auto simp: chat_service.yields_def [OF service])
qed

theorem command_session_safe_witness:
  "\<exists>ap calls. handle_commands (chatapp_backend (\<lambda>_. 1) (\<lambda>_. connect_example)) no_ip 2 one_peer
      (''send 1 hello'' @ [CHR 0x0A] @ ''exit'' @ [CHR 0x0A]) = Some (Exited 0, ap, calls) \<and>
    table_ok ap \<and> later one_peer ap \<and> lock_discipline False calls \<and> shut_down ap"
proof -
  let ?b = "chatapp_backend (\<lambda>_. 1) (\<lambda>_. connect_example)"
  have "list_all safe_line [''send 1 hello'', ''exit'']" by code_simp
  from command_session_safe [of later table_ok ?b shut_down, OF session.rel_refl session.rel_trans
      session.connect_ok session.list_ok session.send_ok session.terminate_ok session.close_ok
      one_peer_ok this, where ips = no_ip and n = 2]
  show ?thesis by simp
qed

end
