(* ===== verification/Chat_Link.thy ===== *)
theory Chat_Link
  imports Commands "HOL-Library.Sublist"
begin

text \<open>
  Two chat programs of \<^verbatim>\<open>mock-prj-01\<close> and the TCP connection between them.  What one side hands to
  \<^verbatim>\<open>send\<close> travels as a stream of bytes, of which a \<^verbatim>\<open>recv\<close> of the other side takes any piece.  A side can
  hang up, see the end of the stream, see an error, or be killed by SIGPIPE; the connection can be reset
  at any time, and then bytes that were not read yet may be lost; and another thread of either program
  can use the number of the socket for another connection, after which nothing is known any more.  The functions of \<^verbatim>\<open>chatapp.c\<close> enter through the contract of an endpoint, which the
  locale \<open>stream_peer\<close> states and an interpretation discharges.
\<close>

section \<open>The connection\<close>

datatype side = Caller | Callee

fun other :: "side \<Rightarrow> side" where
  "other Caller = Callee"
| "other Callee = Caller"

lemma other_other [simp]: "other (other p) = p"
  by (cases p) simp_all

lemma other_neq [simp]: "other p \<noteq> p" "p \<noteq> other p"
  by (cases p; simp)+

lemma neq_other: "q \<noteq> p \<Longrightarrow> q = other p"
  by (cases p; cases q) simp_all

text \<open>
  What a program does with one connection: what it sends for a message (\<open>None\<close>: it knows no such
  connection), with the bytes and whether a connection that is gone makes the call raise a deadly
  SIGPIPE; its state after an answer of \<^verbatim>\<open>recv\<close>, with the texts it prints and whether the thread ends; its
  state after the user closed the connection; and its other doings.
\<close>

record 's endpoint =
  say :: "'s \<Rightarrow> bytes \<Rightarrow> (bytes \<times> bool) option"
  hear :: "'s \<Rightarrow> int \<times> bytes \<Rightarrow> ('s \<times> bytes list \<times> bool) option"
  leave :: "'s \<Rightarrow> 's option"
  elsewhere :: "'s \<Rightarrow> 's \<Rightarrow> bool"

text \<open>
  How a side came to the end of the connection.  \<open>Cut\<close>: another thread of the same program has used the
  number of the socket for an earlier connection that had it: closed it a second time, read from it, or
  entered it in the table again.  \<open>Chat_System\<close> shows that the program can do so.
\<close>

datatype ending = Hung_up | Saw_end | Broke | Killed | Cut

text \<open>
  \<open>wire l p\<close> are the bytes on their way from side \<open>p\<close>, \<open>hand l p\<close> the piece that \<open>p\<close> has taken by \<^verbatim>\<open>recv\<close>
  and not printed yet.  \<open>broken\<close>: the connection has been reset.  \<open>said\<close> are the messages whose sending was
  reported as a success, \<open>shown\<close> the texts printed.
\<close>

record 's link =
  ends :: "side \<Rightarrow> 's"
  over :: "side \<Rightarrow> ending option"
  wire :: "side \<Rightarrow> bytes"
  hand :: "side \<Rightarrow> bytes"
  broken :: bool
  said :: "side \<Rightarrow> bytes list"
  shown :: "side \<Rightarrow> bytes list"

text \<open>
  The steps.  A message goes onto the wire only while the connection stands; to a side that has ended,
  or after a reset, it goes nowhere, whatever the program is told, and when the reset is known SIGPIPE
  may come.  The end of the stream is seen only behind all bytes and without a reset.  A thread that is
  cancelled by its own user may still print what it has in hand, or lose it.  After a cut anything can
  happen.
\<close>

inductive link_step :: "'s endpoint \<Rightarrow> 's link \<Rightarrow> 's link \<Rightarrow> bool" for e :: "'s endpoint" where
  says: "over l p = None \<Longrightarrow> over l (other p) = None \<Longrightarrow> \<not> broken l \<Longrightarrow> NUL \<notin> set m \<Longrightarrow>
     say e (ends l p) m = Some (bs, fatal) \<Longrightarrow>
     link_step e l (l\<lparr>wire := (wire l)(p := wire l p @ bs), said := (said l)(p := said l p @ [m])\<rparr>)"
| says_in_vain: "over l p = None \<Longrightarrow> over l (other p) \<noteq> None \<or> broken l \<Longrightarrow> NUL \<notin> set m \<Longrightarrow>
     say e (ends l p) m = Some (bs, fatal) \<Longrightarrow>
     link_step e l (l\<lparr>said := (said l)(p := said l p @ [m])\<rparr>)"
| says_killed: "over l p = None \<Longrightarrow> broken l \<Longrightarrow> say e (ends l p) m = Some (bs, True) \<Longrightarrow> bs \<noteq> [] \<Longrightarrow>
     link_step e l (l\<lparr>over := (over l)(p \<mapsto> Killed)\<rparr>)"
| resets: "\<forall>p. prefix (w p) (wire l p) \<Longrightarrow> link_step e l (l\<lparr>broken := True, wire := w\<rparr>)"
| takes: "over l p = None \<Longrightarrow> hand l p = [] \<Longrightarrow> 0 < n \<Longrightarrow> n \<le> MAX_MSG_LEN \<Longrightarrow>
     n \<le> length (wire l (other p)) \<Longrightarrow>
     link_step e l (l\<lparr>hand := (hand l)(p := take n (wire l (other p))),
       wire := (wire l)(other p := drop n (wire l (other p)))\<rparr>)"
| shows_piece: "over l p \<in> {None, Some Hung_up} \<Longrightarrow> hand l p \<noteq> [] \<Longrightarrow>
     hear e (ends l p) (int (length (hand l p)), hand l p) = Some (s, texts, False) \<Longrightarrow>
     link_step e l (l\<lparr>ends := (ends l)(p := s), shown := (shown l)(p := shown l p @ texts),
       hand := (hand l)(p := [])\<rparr>)"
| hears_end: "over l p = None \<Longrightarrow> hand l p = [] \<Longrightarrow> over l (other p) \<noteq> None \<Longrightarrow> \<not> broken l \<Longrightarrow>
     wire l (other p) = [] \<Longrightarrow> hear e (ends l p) (0, []) = Some (s, texts, True) \<Longrightarrow>
     link_step e l (l\<lparr>ends := (ends l)(p := s), over := (over l)(p \<mapsto> Saw_end),
       shown := (shown l)(p := shown l p @ texts)\<rparr>)"
| hears_error: "over l p = None \<Longrightarrow> hand l p = [] \<Longrightarrow>
     hear e (ends l p) (-1, []) = Some (s, texts, True) \<Longrightarrow>
     link_step e l (l\<lparr>ends := (ends l)(p := s), over := (over l)(p \<mapsto> Broke),
       shown := (shown l)(p := shown l p @ texts)\<rparr>)"
| leaves: "over l p = None \<Longrightarrow> leave e (ends l p) = Some s \<Longrightarrow>
     link_step e l (l\<lparr>ends := (ends l)(p := s), over := (over l)(p \<mapsto> Hung_up)\<rparr>)"
| stops: "over l p = Some Hung_up \<Longrightarrow> link_step e l (l\<lparr>hand := (hand l)(p := [])\<rparr>)"
| is_cut: "over l p = None \<Longrightarrow> link_step e l (l\<lparr>over := (over l)(p \<mapsto> Cut)\<rparr>)"
| after_cut: "over l p = Some Cut \<Longrightarrow> over l' p = Some Cut \<Longrightarrow> link_step e l l'"
| goes_on: "elsewhere e (ends l p) s \<Longrightarrow> link_step e l (l\<lparr>ends := (ends l)(p := s)\<rparr>)"

text \<open>A connection just made: nothing said yet, and both sides know it.\<close>

definition link_start :: "('s \<Rightarrow> bool) \<Rightarrow> 's link \<Rightarrow> bool" where
  "link_start known l \<longleftrightarrow> (\<forall>p. known (ends l p)) \<and> over l = (\<lambda>_. None) \<and> wire l = (\<lambda>_. []) \<and>
     hand l = (\<lambda>_. []) \<and> \<not> broken l \<and> said l = (\<lambda>_. []) \<and> shown l = (\<lambda>_. [])"

text \<open>No other thread of either program has used the number of the connection's socket.\<close>

definition undisturbed :: "'s link \<Rightarrow> bool" where
  "undisturbed l \<longleftrightarrow> (\<forall>p. over l p \<noteq> Some Cut)"

lemma undisturbed_iff: "undisturbed l \<longleftrightarrow> over l p \<noteq> Some Cut \<and> over l (other p) \<noteq> Some Cut"
  unfolding undisturbed_def by (metis neq_other)

lemma cut_stays: "link_step e l l' \<Longrightarrow> over l q = Some Cut \<Longrightarrow> \<exists>q. over l' q = Some Cut"
  by (induction rule: link_step.induct) (auto intro: exI [of _ q])

lemma undisturbed_step: "link_step e l l' \<Longrightarrow> undisturbed l' \<Longrightarrow> undisturbed l"
  unfolding undisturbed_def using cut_stays by blast

section \<open>The contract of an endpoint\<close>

text \<open>
  \<open>text_of\<close> is what is printed for bytes received, \<open>bye\<close> what is printed at the end.  A side that lists
  the connection sends each message as its bytes; every piece it receives is printed whole; at the end
  of the stream and at the user's wish the connection is delisted; and nothing else changes that.
\<close>

locale stream_peer =
  fixes e :: "'s endpoint" and ok :: "'s \<Rightarrow> bool" and listed :: "'s \<Rightarrow> bool"
    and text_of :: "bytes \<Rightarrow> bytes" and bye :: bytes and deadly :: bool
  assumes say_law: "ok s \<Longrightarrow> say e s m = (if listed s then Some (m, deadly) else None)"
    and hear_law: "ok s \<Longrightarrow> d \<noteq> [] \<Longrightarrow> length d \<le> MAX_MSG_LEN \<Longrightarrow> NUL \<notin> set d \<Longrightarrow>
      hear e s (int (length d), d) = Some (s, [text_of d], False)"
    and end_law: "ok s \<Longrightarrow> listed s \<Longrightarrow> n \<le> 0 \<Longrightarrow>
      \<exists>t. hear e s (n, []) = Some (t, [bye], True) \<and> ok t \<and> \<not> listed t"
    and leave_law: "ok s \<Longrightarrow> listed s \<Longrightarrow> \<exists>t. leave e s = Some t \<and> ok t \<and> \<not> listed t"
    and elsewhere_law: "ok s \<Longrightarrow> elsewhere e s t \<Longrightarrow> ok t \<and> listed t = listed s"
begin

text \<open>The last line a side prints.\<close>

definition farewell :: "ending option \<Rightarrow> bytes list" where
  "farewell v = (if v \<in> {Some Saw_end, Some Broke} then [bye] else [])"

text \<open>What side \<open>p\<close> has printed, against what the other side has said: \<open>rest\<close> is neither printed nor in hand.\<close>

definition heard :: "'s link \<Rightarrow> side \<Rightarrow> bytes list \<Rightarrow> bytes \<Rightarrow> bool" where
  "heard l p ds rest \<longleftrightarrow> shown l p = map text_of ds @ farewell (over l p) \<and>
     (\<forall>d \<in> set ds. d \<noteq> [] \<and> length d \<le> MAX_MSG_LEN) \<and> length (hand l p) \<le> MAX_MSG_LEN \<and>
     concat (said l (other p)) = concat ds @ hand l p @ rest \<and>
     (over l p = None \<longrightarrow> prefix (wire l (other p)) rest) \<and>
     (over l p = None \<and> \<not> broken l \<longrightarrow> rest = wire l (other p)) \<and>
     (over l p \<in> {Some Saw_end, Some Broke} \<longrightarrow> hand l p = []) \<and>
     (over l p = Some Saw_end \<longrightarrow> rest = [])"

definition side_ok :: "'s link \<Rightarrow> side \<Rightarrow> bool" where
  "side_ok l p \<longleftrightarrow> NUL \<notin> set (concat (said l p)) \<and>
     (over l p = Some Saw_end \<longrightarrow> over l (other p) \<noteq> None) \<and>
     ok (ends l p) \<and> (over l p \<noteq> Some Killed \<longrightarrow> listed (ends l p) = (over l p = None)) \<and>
     (\<exists>ds rest. heard l p ds rest)"

definition link_ok :: "'s link \<Rightarrow> bool" where
  "link_ok l \<longleftrightarrow> (\<forall>p. side_ok l p)"

lemma link_okI: "side_ok l p \<Longrightarrow> side_ok l (other p) \<Longrightarrow> link_ok l"
  unfolding link_ok_def by (metis neq_other)

lemma link_okD: "link_ok l \<Longrightarrow> side_ok l p"
  by (simp add: link_ok_def)

lemma listed_iff: "side_ok l p \<Longrightarrow> over l p = None \<Longrightarrow> ok (ends l p) \<and> listed (ends l p)"
  by (simp add: side_ok_def)

lemma side_okD: "side_ok l p \<Longrightarrow> \<exists>ds rest. heard l p ds rest"
  by (simp add: side_ok_def)

text \<open>A side is not disturbed by what happens to the fields it does not depend on.\<close>

lemma side_ok_frame:
  assumes "side_ok l p" "ends l' p = ends l p" "over l' p = over l p" "hand l' p = hand l p"
    "said l' p = said l p" "shown l' p = shown l p" "wire l' (other p) = wire l (other p)"
    "said l' (other p) = said l (other p)" "broken l' = broken l"
    "over l (other p) \<noteq> None \<Longrightarrow> over l' (other p) = over l (other p)"
  shows "side_ok l' p"
proof -
  have "heard l' p ds rest" if "heard l p ds rest" for ds rest
    using that assms(3-10) by (cases "over l (other p)") (simp_all add: heard_def)
  then show ?thesis
    using assms(1-5,10) by (cases "over l (other p)") (auto simp: side_ok_def)
qed

text \<open>The piece in hand is part of what was said, so it holds no NUL.\<close>

lemma hand_clean:
  assumes "heard l p ds rest" "side_ok l (other p)"
  shows "NUL \<notin> set (hand l p)"
proof -
  have "set (hand l p) \<subseteq> set (concat (said l (other p)))"
    using assms(1) by (auto simp: heard_def simp del: set_concat)
  then show ?thesis using assms(2) by (auto simp: side_ok_def)
qed

lemma says_ok:
  assumes "link_ok l" "over l p = None" "over l (other p) = None" "\<not> broken l" "NUL \<notin> set m"
    "say e (ends l p) m = Some (bs, fatal)"
  shows "link_ok (l\<lparr>wire := (wire l)(p := wire l p @ bs), said := (said l)(p := said l p @ [m])\<rparr>)"
proof (rule link_okI [of _ p])
  have p: "side_ok l p" and q: "side_ok l (other p)" using assms(1) by (simp_all add: link_okD)
  have bs: "bs = m" using say_law [of "ends l p" m] listed_iff [OF p assms(2)] assms(6) by simp
  let ?l = "l\<lparr>wire := (wire l)(p := wire l p @ bs), said := (said l)(p := said l p @ [m])\<rparr>"
  show "side_ok ?l p" using p assms(5) by (auto simp: side_ok_def heard_def)
  obtain ds rest where "heard l (other p) ds rest" using side_okD [OF q] by auto
  then have "heard ?l (other p) ds (rest @ m)" using bs assms(2-4) by (auto simp: heard_def)
  then show "side_ok ?l (other p)" using q by (auto simp: side_ok_def)
qed

lemma says_in_vain_ok:
  assumes "link_ok l" "over l p = None" "over l (other p) \<noteq> None \<or> broken l" "NUL \<notin> set m"
  shows "link_ok (l\<lparr>said := (said l)(p := said l p @ [m])\<rparr>)" (is "link_ok ?l")
proof (rule link_okI [of _ p])
  have p: "side_ok l p" and q: "side_ok l (other p)" using assms(1) by (simp_all add: link_okD)
  show "side_ok ?l p" using p assms(4) by (auto simp: side_ok_def heard_def)
  obtain ds rest where "heard l (other p) ds rest" using side_okD [OF q] by blast
  moreover have "over l (other p) \<noteq> Some Saw_end" using q assms(2) by (auto simp: side_ok_def)
  ultimately have "heard ?l (other p) ds (rest @ m)" using assms(3) by (auto simp: heard_def)
  then show "side_ok ?l (other p)" using q by (auto simp: side_ok_def)
qed

lemma resets_ok:
  assumes "link_ok l" "\<forall>p. prefix (w p) (wire l p)"
  shows "link_ok (l\<lparr>broken := True, wire := w\<rparr>)" (is "link_ok ?l")
proof -
  have "side_ok ?l p" for p
  proof -
    have p: "side_ok l p" using assms(1) by (rule link_okD)
    have "heard ?l p ds rest" if "heard l p ds rest" for ds rest
      using that assms(2) prefix_order.trans [of "w (other p)" "wire l (other p)" rest]
      by (auto simp: heard_def)
    then show ?thesis using p by (fastforce simp: side_ok_def)
  qed
  then show ?thesis by (simp add: link_ok_def)
qed

lemma takes_ok:
  assumes "link_ok l" "over l p = None" "hand l p = []" "n \<le> MAX_MSG_LEN" "n \<le> length (wire l (other p))"
  shows "link_ok (l\<lparr>hand := (hand l)(p := take n (wire l (other p))),
    wire := (wire l)(other p := drop n (wire l (other p)))\<rparr>)" (is "link_ok ?l")
proof (rule link_okI [of _ p])
  have p: "side_ok l p" and q: "side_ok l (other p)" using assms(1) by (simp_all add: link_okD)
  obtain ds rest where ds: "heard l p ds rest" using side_okD [OF p] by auto
  then obtain lost where rest: "rest = wire l (other p) @ lost"
    using assms(2) by (auto simp: heard_def prefix_def)
  have "rest = take n (wire l (other p)) @ drop n (wire l (other p)) @ lost" unfolding rest by simp
  then have "heard ?l p ds (drop n (wire l (other p)) @ lost)"
    using ds assms(2-5) rest by (auto simp: heard_def)
  then show "side_ok ?l p" using p by (auto simp: side_ok_def)
  show "side_ok ?l (other p)" using q by (rule side_ok_frame) simp_all
qed

lemma shows_piece_ok:
  assumes "link_ok l" "over l p \<in> {None, Some Hung_up}" "hand l p \<noteq> []"
    "hear e (ends l p) (int (length (hand l p)), hand l p) = Some (s, texts, False)"
  shows "link_ok (l\<lparr>ends := (ends l)(p := s), shown := (shown l)(p := shown l p @ texts),
    hand := (hand l)(p := [])\<rparr>)" (is "link_ok ?l")
proof (rule link_okI [of _ p])
  have p: "side_ok l p" and q: "side_ok l (other p)" using assms(1) by (simp_all add: link_okD)
  obtain ds rest where ds: "heard l p ds rest" using side_okD [OF p] by auto
  have "ok (ends l p)" "length (hand l p) \<le> MAX_MSG_LEN"
    using p ds assms(2) by (auto simp: side_ok_def heard_def)
  then have s: "s = ends l p" "texts = [text_of (hand l p)]"
    using hear_law [of "ends l p" "hand l p"] hand_clean [OF ds q] assms(3,4) by auto
  have "heard ?l p (ds @ [hand l p]) rest"
    using ds assms(2,3) by (auto simp: heard_def s farewell_def)
  then show "side_ok ?l p" using p s by (auto simp: side_ok_def)
  show "side_ok ?l (other p)" using q by (rule side_ok_frame) (simp_all add: s)
qed

text \<open>A side that ends the connection and knows it no more.\<close>

lemma ends_ok:
  assumes "link_ok l" "over l p = None" "ok s" "\<not> listed s" "v \<noteq> Killed"
    and "v = Saw_end \<Longrightarrow> over l (other p) \<noteq> None \<and> wire l (other p) = [] \<and> \<not> broken l"
    and "v \<noteq> Hung_up \<Longrightarrow> hand l p = []"
  shows "link_ok (l\<lparr>ends := (ends l)(p := s), over := (over l)(p \<mapsto> v),
    shown := (shown l)(p := shown l p @ farewell (Some v))\<rparr>)" (is "link_ok ?l")
proof (rule link_okI [of _ p])
  have p: "side_ok l p" and q: "side_ok l (other p)" using assms(1) by (simp_all add: link_okD)
  obtain ds rest where ds: "heard l p ds rest" using side_okD [OF p] by auto
  then have "heard ?l p ds rest" using assms(2,6,7) by (auto simp: heard_def farewell_def)
  then show "side_ok ?l p" using p assms(3-6) by (auto simp: side_ok_def)
  show "side_ok ?l (other p)" using q by (rule side_ok_frame) (simp_all add: assms(2))
qed

text \<open>A side that ends without a word.\<close>

lemma killed_ok:
  assumes "link_ok l" "over l p = None"
  shows "link_ok (l\<lparr>over := (over l)(p \<mapsto> Killed)\<rparr>)" (is "link_ok ?l")
proof (rule link_okI [of _ p])
  have p: "side_ok l p" and q: "side_ok l (other p)" using assms(1) by (simp_all add: link_okD)
  obtain ds rest where "heard l p ds rest" using side_okD [OF p] by auto
  then have "heard ?l p ds rest" using assms(2) by (auto simp: heard_def farewell_def)
  then show "side_ok ?l p" using p assms(2) by (auto simp: side_ok_def)
  show "side_ok ?l (other p)" using q by (rule side_ok_frame) (simp_all add: assms(2))
qed

lemma stops_ok:
  assumes "link_ok l" "over l p = Some Hung_up"
  shows "link_ok (l\<lparr>hand := (hand l)(p := [])\<rparr>)" (is "link_ok ?l")
proof (rule link_okI [of _ p])
  have p: "side_ok l p" and q: "side_ok l (other p)" using assms(1) by (simp_all add: link_okD)
  obtain ds rest where "heard l p ds rest" using side_okD [OF p] by auto
  then have "heard ?l p ds (hand l p @ rest)" using assms(2) by (auto simp: heard_def)
  then show "side_ok ?l p" using p by (auto simp: side_ok_def)
  show "side_ok ?l (other p)" using q by (rule side_ok_frame) simp_all
qed

lemma elsewhere_ok:
  assumes "link_ok l" "elsewhere e (ends l p) s"
  shows "link_ok (l\<lparr>ends := (ends l)(p := s)\<rparr>)"
proof (rule link_okI [of _ p])
  have p: "side_ok l p" using assms(1) by (rule link_okD)
  show "side_ok (l\<lparr>ends := (ends l)(p := s)\<rparr>) p"
    using p elsewhere_law [OF _ assms(2)] by (auto simp: side_ok_def heard_def)
  show "side_ok (l\<lparr>ends := (ends l)(p := s)\<rparr>) (other p)"
    using link_okD [OF assms(1), of "other p"] by (rule side_ok_frame) simp_all
qed

lemma link_ok_step: "link_step e l l' \<Longrightarrow> link_ok l \<Longrightarrow> undisturbed l' \<Longrightarrow> link_ok l'"
proof (induction rule: link_step.induct)
  case (hears_end l p s texts)
  then have "texts = farewell (Some Saw_end) \<and> ok s \<and> \<not> listed s"
    using end_law [of "ends l p" 0] listed_iff [OF link_okD] by (auto simp: farewell_def)
  then show ?case using ends_ok [of l p s Saw_end] hears_end by simp
next
  case (hears_error l p s texts)
  then have "texts = farewell (Some Broke) \<and> ok s \<and> \<not> listed s"
    using end_law [of "ends l p" "-1"] listed_iff [OF link_okD] by (auto simp: farewell_def)
  then show ?case using ends_ok [of l p s Broke] hears_error by simp
next
  case (leaves l p s)
  then have "ok s \<and> \<not> listed s" using leave_law [of "ends l p"] listed_iff [OF link_okD] by auto
  then show ?case using ends_ok [of l p s Hung_up] leaves by (simp add: farewell_def)
next
  case (is_cut l p)
  then show ?case by (simp add: undisturbed_iff [of _ p])
next
  case (after_cut l p l')
  then show ?case by (simp add: undisturbed_iff [of _ p])
qed (simp_all add: says_ok says_in_vain_ok resets_ok takes_ok shows_piece_ok killed_ok stops_ok
    elsewhere_ok)

lemma link_ok_start: "link_start (\<lambda>s. ok s \<and> listed s) l \<Longrightarrow> link_ok l"
  by (auto simp: link_start_def link_ok_def side_ok_def heard_def farewell_def intro!: exI [of _ "[]"])

lemma link_ok_reachable:
  assumes "reach (link_start (\<lambda>s. ok s \<and> listed s)) (link_step e) l"
    and "undisturbed l"
  shows "link_ok l"
  using assms
  by (induction rule: reach.induct) (auto intro: link_ok_start link_ok_step dest: undisturbed_step)

text \<open>The peer thread of a side can take and print what is there, and sees the end when nothing is left.\<close>

lemma shows_some:
  assumes "link_ok l" "over l p = None" "hand l p \<noteq> []"
  shows "\<exists>l'. link_step e l l' \<and> over l' = over l \<and> said l' = said l \<and> broken l' = broken l \<and>
    hand l' p = [] \<and> wire l' = wire l"
proof -
  have p: "side_ok l p" and q: "side_ok l (other p)" using assms(1) by (simp_all add: link_okD)
  obtain ds rest where ds: "heard l p ds rest" using side_okD [OF p] by auto
  then have "length (hand l p) \<le> MAX_MSG_LEN" by (simp add: heard_def)
  with hear_law [OF _ assms(3) _ hand_clean [OF ds q], of "ends l p"] listed_iff [OF p assms(2)]
  have "hear e (ends l p) (int (length (hand l p)), hand l p) = Some (ends l p, [text_of (hand l p)], False)"
    by simp
  from shows_piece [OF _ assms(3) this] assms(2) show ?thesis by fastforce
qed

lemma takes_some:
  assumes "over l p = None" "hand l p = []" "wire l (other p) \<noteq> []"
  shows "\<exists>l'. link_step e l l' \<and> over l' = over l \<and> said l' = said l \<and> broken l' = broken l \<and>
    length (wire l' (other p)) < length (wire l (other p))"
proof -
  let ?n = "min (length (wire l (other p))) MAX_MSG_LEN"
  have n: "0 < ?n" using assms(3) by (simp add: MAX_MSG_LEN_def)
  with takes [OF assms(1,2) n, where e = e] have "link_step e l
      (l\<lparr>hand := (hand l)(p := take ?n (wire l (other p))),
        wire := (wire l)(other p := drop ?n (wire l (other p)))\<rparr>)" (is "link_step e l ?l")
    by simp
  moreover have "length (wire ?l (other p)) < length (wire l (other p))" using n by simp
  ultimately show ?thesis by (intro exI [of _ ?l] conjI) simp_all
qed

lemma end_reached:
  assumes "link_ok l" "over l p = None" "over l (other p) = Some Hung_up" "\<not> broken l"
  shows "\<exists>l'. (link_step e)\<^sup>*\<^sup>* l l' \<and> link_ok l' \<and> over l' p = Some Saw_end \<and>
    over l' (other p) = Some Hung_up \<and> said l' = said l"
  using assms
proof (induction "2 * length (wire l (other p)) + (if hand l p = [] then 0 else 1)" arbitrary: l
    rule: less_induct)
  case less
  have goal: ?case if l1: "link_step e l l1" "over l1 = over l" "said l1 = said l" "broken l1 = broken l"
    "2 * length (wire l1 (other p)) + (if hand l1 p = [] then 0 else 1)
      < 2 * length (wire l (other p)) + (if hand l p = [] then 0 else 1)" for l1
  proof -
    have "link_ok l1"
      using link_ok_step [OF l1(1) less.prems(1)] l1(2) less.prems(2,3) by (simp add: undisturbed_iff [of _ p])
    from less.hyps [OF l1(5) this] obtain l' where "(link_step e)\<^sup>*\<^sup>* l1 l'" "link_ok l'"
      "over l' p = Some Saw_end" "over l' (other p) = Some Hung_up" "said l' = said l1"
      using l1(2,4) less.prems(2-4) by auto
    with l1(1,3) show ?thesis by (metis converse_rtranclp_into_rtranclp)
  qed
  consider "hand l p \<noteq> []" | "hand l p = []" "wire l (other p) \<noteq> []" | "hand l p = []" "wire l (other p) = []"
    by blast
  then show ?case
  proof cases
    case 1
    from shows_some [OF less.prems(1,2) this] obtain l1 where "link_step e l l1" "over l1 = over l"
      "said l1 = said l" "broken l1 = broken l" "hand l1 p = []" "wire l1 = wire l" by blast
    with 1 show ?thesis by (intro goal [of l1]) simp_all
  next
    case 2
    from takes_some [OF less.prems(2) this] obtain l1 where "link_step e l l1" "over l1 = over l"
      "said l1 = said l" "broken l1 = broken l" "length (wire l1 (other p)) < length (wire l (other p))"
      by blast
    with 2 show ?thesis by (intro goal [of l1]) simp_all
  next
    case 3
    obtain t where t: "hear e (ends l p) (0, []) = Some (t, [bye], True)"
      using end_law [of "ends l p" 0] listed_iff [OF link_okD] less.prems by auto
    let ?l = "l\<lparr>ends := (ends l)(p := t), over := (over l)(p \<mapsto> Saw_end),
      shown := (shown l)(p := shown l p @ [bye])\<rparr>"
    have "link_step e l ?l" using hears_end [OF less.prems(2) 3(1) _ less.prems(4) 3(2) t] less.prems(3) by simp
    moreover have "undisturbed ?l" using less.prems(3) by (simp add: undisturbed_iff [of _ p])
    ultimately show ?thesis
      using link_ok_step [OF _ less.prems(1), of ?l] less.prems(3) by (intro exI [of _ ?l]) simp
  qed
qed

lemma all_shown:
  assumes "link_ok l" "over l p = Some Saw_end" "over l (other p) = Some Hung_up"
  shows "\<not> listed (ends l p) \<and> (\<exists>ds. shown l p = map text_of ds @ [bye] \<and>
    concat ds = concat (said l (other p)))"
  using link_okD [OF assms(1), of p] assms(2,3) by (auto simp: side_ok_def heard_def farewell_def)

end

section \<open>The functions of chatapp.c as an endpoint\<close>

text \<open>One side: its application, the id of the connection and its socket.\<close>

type_synonym chat_end = "chatapp \<times> int \<times> int"

definition prints :: "sys list \<Rightarrow> bytes list" where
  "prints calls = concat (map (\<lambda>c. case c of Print t \<Rightarrow> [t] | _ \<Rightarrow> []) calls)"

definition sends :: "int \<Rightarrow> sys list \<Rightarrow> bytes" where
  "sends fd calls = concat (map (\<lambda>c. case c of Send f m fl \<Rightarrow> if f = fd then m else [] | _ \<Rightarrow> []) calls)"

text \<open>
  SIGPIPE.  \<^verbatim>\<open>send\<close> on a connection that is gone raises it unless its flags contain MSG_NOSIGNAL; it is
  deadly when the calls \<open>start\<close> that the program made since its start left the default action in place.
\<close>

definition SIGPIPE :: int where "SIGPIPE = 13"
definition SIG_DFL :: int where "SIG_DFL = 0"
definition MSG_NOSIGNAL :: int where "MSG_NOSIGNAL = 16384"

definition raises_sigpipe :: "int \<Rightarrow> sys list \<Rightarrow> bool" where
  "raises_sigpipe fd calls = list_ex (\<lambda>c. case c of
     Send f m fl \<Rightarrow> f = fd \<and> even (fl div MSG_NOSIGNAL) | _ \<Rightarrow> False) calls"

definition sigpipe_deadly :: "sys list \<Rightarrow> bool" where
  "sigpipe_deadly start = list_all (\<lambda>c. case c of
     Signal sig act \<Rightarrow> sig \<noteq> SIGPIPE \<or> act = SIG_DFL | _ \<Rightarrow> True) start"

lemma sigpipe_deadly_sends:
  "sigpipe_deadly (start @ [Lock, Send fd m fl, Unlock]) = sigpipe_deadly start"
  unfolding sigpipe_deadly_def by simp

definition chat_say :: "sys list \<Rightarrow> chat_end \<Rightarrow> bytes \<Rightarrow> (bytes \<times> bool) option" where
  "chat_say start s m = (case s of (ap, i, fd) \<Rightarrow> case chatapp_send_message ap i m of (ret, calls) \<Rightarrow>
     if ret = 0 then Some (sends fd calls, raises_sigpipe fd calls \<and> sigpipe_deadly (start @ calls))
     else None)"

definition chat_hear :: "chat_end \<Rightarrow> int \<times> bytes \<Rightarrow> (chat_end \<times> bytes list \<times> bool) option" where
  "chat_hear s answer = (case s of (ap, i, fd) \<Rightarrow>
     map_option (\<lambda>(ap', calls, ended). ((ap', i, fd), prints calls, ended)) (peer_turn ap fd answer))"

definition chat_leave :: "chat_end \<Rightarrow> chat_end option" where
  "chat_leave s = (case s of (ap, i, fd) \<Rightarrow> case chatapp_disconnect_peer ap i of (ret, ap', calls) \<Rightarrow>
     if Close fd \<in> set calls then Some (ap', i, fd) else None)"

text \<open>
  The same operations on other connections.  While this connection is listed, its socket is open and the
  kernel gives its number to no other one; that a thread of an earlier connection with the same number
  closes it, reads from it or enters it in the table is the step \<open>is_cut\<close>.
\<close>

inductive chat_elsewhere :: "chat_end \<Rightarrow> chat_end \<Rightarrow> bool" where
  other_added: "(peer_map (peers ap) i \<noteq> None \<Longrightarrow> fd' \<noteq> fd) \<Longrightarrow> NUL \<notin> set addr \<Longrightarrow>
     chatapp_add_peer ap fd' addr pt tid = (r, ap', calls) \<Longrightarrow> chat_elsewhere (ap, i, fd) (ap', i, fd)"
| other_left: "j \<noteq> i \<Longrightarrow> chatapp_disconnect_peer ap j = (r, ap', calls) \<Longrightarrow>
     chat_elsewhere (ap, i, fd) (ap', i, fd)"
| other_ended: "(peer_map (peers ap) i \<noteq> None \<Longrightarrow> fd' \<noteq> fd) \<Longrightarrow> n \<le> 0 \<Longrightarrow> peer_turn ap fd' (n, []) = Some (ap', calls, True) \<Longrightarrow>
     chat_elsewhere (ap, i, fd) (ap', i, fd)"

definition chat_endpoint :: "sys list \<Rightarrow> chat_end endpoint" where
  "chat_endpoint start = \<lparr>say = chat_say start, hear = chat_hear, leave = chat_leave, elsewhere = chat_elsewhere\<rparr>"

definition message_text :: "bytes \<Rightarrow> bytes" where
  "message_text m = [CHR 0x0A] @ ''[Message received]: '' @ m @ [CHR 0x0A] @ ''> ''"

definition text_gone :: bytes where
  "text_gone = ''[-] A peer disconnected.'' @ [CHR 0x0A]"

text \<open>The connection is in the table, and the socket is that of no other entry.\<close>

definition chat_listed :: "chat_end \<Rightarrow> bool" where
  "chat_listed s = (case s of (ap, i, fd) \<Rightarrow> peer_map (peers ap) i \<noteq> None)"

definition chat_end_ok :: "chat_end \<Rightarrow> bool" where
  "chat_end_ok s = (case s of (ap, i, fd) \<Rightarrow> table_ok ap \<and> i < next_peer_id ap \<and>
     (peer_map (peers ap) i \<noteq> None \<longrightarrow>
       list_all (\<lambda>p. active p \<noteq> 0 \<longrightarrow> (sockfd p = fd \<longleftrightarrow> id_of p = i)) (peers ap)))"

lemma chat_end_okD:
  assumes "chat_end_ok (ap, i, fd)"
  shows "table_ok ap" "i < next_peer_id ap"
    "peer_map (peers ap) i \<noteq> None \<Longrightarrow> k < length (peers ap) \<Longrightarrow> active (peers ap ! k) \<noteq> 0 \<Longrightarrow>
      sockfd (peers ap ! k) = fd \<longleftrightarrow> id_of (peers ap ! k) = i"
  using assms by (auto simp: chat_end_ok_def list_all_length)

lemma listed_entry:
  assumes "chat_end_ok (ap, i, fd)" "chat_listed (ap, i, fd)"
  shows "\<exists>addr pt tid. peer_map (peers ap) i = Some (fd, addr, pt, tid)"
proof -
  obtain k where k: "first_index (\<lambda>p. active p \<noteq> 0 \<and> id_of p = i) (peers ap) = Some k"
    using assms(2) by (auto simp: chat_listed_def peer_map_def)
  with first_index_SomeD(1,2) [OF k] chat_end_okD(3) [OF assms(1)] assms(2)
  show ?thesis by (auto simp: chat_listed_def peer_map_def peer_view_def)
qed

text \<open>Clearing a slot takes away exactly its id, or nothing when it was vacant.\<close>

lemma clear_slot:
  assumes "table_ok ap" "k < length (peers ap)" "active (peers ap ! k) \<noteq> 0"
    and "chat_end_ok (ap, i, fd)" "id_of (peers ap ! k) \<noteq> i"
  shows "chat_end_ok (ap\<lparr>peers := (peers ap)[k := (peers ap ! k)\<lparr>active := 0\<rparr>]\<rparr>, i, fd) \<and>
    peer_map ((peers ap)[k := (peers ap ! k)\<lparr>active := 0\<rparr>]) i = peer_map (peers ap) i"
proof -
  let ?ps = "(peers ap)[k := (peers ap ! k)\<lparr>active := 0\<rparr>]"
  have "peer_map ?ps i = peer_map (peers ap) i"
    using peer_map_clear [OF table_okD(4) [OF assms(1)] assms(2,3)] assms(5) by simp
  moreover have "sockfd (?ps ! n) = fd \<longleftrightarrow> id_of (?ps ! n) = i"
    if "peer_map (peers ap) i \<noteq> None" "n < length (peers ap)" "active (?ps ! n) \<noteq> 0" for n
    using chat_end_okD(3) [OF assms(4), of n] that assms(2) by (cases "n = k") simp_all
  ultimately show ?thesis
    using table_ok_clear [OF assms(1,2)] chat_end_okD(2) [OF assms(4)]
    by (simp add: chat_end_ok_def list_all_length)
qed

lemma delisted_ok:
  assumes "table_ok ap" "k < length (peers ap)" "active (peers ap ! k) \<noteq> 0" "i < next_peer_id ap"
    and "id_of (peers ap ! k) = i"
  shows "chat_end_ok (ap\<lparr>peers := (peers ap)[k := (peers ap ! k)\<lparr>active := 0\<rparr>]\<rparr>, i, fd) \<and>
    peer_map ((peers ap)[k := (peers ap ! k)\<lparr>active := 0\<rparr>]) i = None"
  using table_ok_clear [OF assms(1,2)] peer_map_clear [OF table_okD(4) [OF assms(1)] assms(2,3)] assms
  by (auto simp: chat_end_ok_def)

lemma chat_say_law:
  "chat_end_ok s \<Longrightarrow> chat_say start s m = (if chat_listed s then Some (m, sigpipe_deadly start) else None)"
proof -
  assume ok: "chat_end_ok s"
  obtain ap i fd where s: "s = (ap, i, fd)" by (cases s)
  show ?thesis
  proof (cases "chat_listed s")
    case True
    then obtain addr pt tid where "peer_map (peers ap) i = Some (fd, addr, pt, tid)"
      using listed_entry ok s by blast
    then show ?thesis using True
      by (simp add: s chat_say_def chatapp_send_message_def lookup_calls(1) sends_def raises_sigpipe_def
          sigpipe_deadly_sends)
  next
    case False
    then have "peer_map (peers ap) i = None" unfolding s chat_listed_def prod.case by blast
    then have "send_scan i m (peers ap) = None" by (rule lookup_fails)
    then show ?thesis using False by (simp add: s chat_say_def chatapp_send_message_def)
  qed
qed

lemma chat_hear_law:
  assumes "d \<noteq> []" "length d \<le> MAX_MSG_LEN" "NUL \<notin> set d"
  shows "chat_hear s (int (length d), d) = Some (s, [message_text d], False)"
  by (cases s) (simp add: chat_hear_def peer_turn_message [OF assms] prints_def message_text_def)

lemma chat_end_law:
  assumes "chat_end_ok s" "chat_listed s" "n \<le> 0"
  shows "\<exists>t. chat_hear s (n, []) = Some (t, [text_gone], True) \<and> chat_end_ok t \<and> \<not> chat_listed t"
proof -
  obtain ap i fd where s: "s = (ap, i, fd)" by (cases s)
  note ok = chat_end_okD [OF assms(1) [unfolded s]]
  obtain j where j: "first_index (\<lambda>p. active p \<noteq> 0 \<and> id_of p = i) (peers ap) = Some j"
    using assms(2) by (auto simp: s chat_listed_def peer_map_def)
  have listed: "peer_map (peers ap) i \<noteq> None" using assms(2) by (simp add: s chat_listed_def)
  have j': "j < length (peers ap)" "active (peers ap ! j) \<noteq> 0" "sockfd (peers ap ! j) = fd"
    using first_index_SomeD(1,2) [OF j] ok(3) [OF listed, of j] by auto
  then obtain k where k: "first_index (\<lambda>p. active p \<noteq> 0 \<and> sockfd p = fd) (peers ap) = Some k"
    using first_index_ex [of "peers ap ! j" "peers ap" "\<lambda>p. active p \<noteq> 0 \<and> sockfd p = fd"] by auto
  have k': "k < length (peers ap)" "active (peers ap ! k) \<noteq> 0" "id_of (peers ap ! k) = i"
    using first_index_SomeD(1,2) [OF k] ok(3) [OF listed, of k] by auto
  have "drop_scan fd (peers ap) = (peers ap)[k := (peers ap ! k)\<lparr>active := 0\<rparr>]"
    by (simp add: drop_scan_first k)
  then show ?thesis using delisted_ok [OF ok(1) k'(1,2) ok(2) k'(3), of fd] assms(3)
    by (simp add: s chat_hear_def peer_turn_def prints_def text_gone_def chat_listed_def)
qed

lemma chat_leave_law:
  assumes "chat_end_ok s" "chat_listed s"
  shows "\<exists>t. chat_leave s = Some t \<and> chat_end_ok t \<and> \<not> chat_listed t"
proof -
  obtain ap i fd where s: "s = (ap, i, fd)" by (cases s)
  note ok = chat_end_okD [OF assms(1) [unfolded s]]
  obtain addr pt tid where "peer_map (peers ap) i = Some (fd, addr, pt, tid)"
    using listed_entry assms s by blast
  from lookup_calls(2) [OF this] obtain k where k: "k < length (peers ap)" "active (peers ap ! k) \<noteq> 0"
    "id_of (peers ap ! k) = i" "disconnect_scan i (peers ap) = Some
      ((peers ap)[k := (peers ap ! k)\<lparr>active := 0\<rparr>], [Close fd, Pthread_cancel tid,
        Print (''[x] Terminated connection ID '' @ show_int i @ [CHR 0x0A])])"
    by blast
  with delisted_ok [OF ok(1) k(1,2) ok(2) k(3), of fd] show ?thesis
    by (simp add: s chat_leave_def chatapp_disconnect_peer_def chat_listed_def)
qed

lemma chat_elsewhere_law:
  "chat_elsewhere s t \<Longrightarrow> chat_end_ok s \<Longrightarrow> chat_end_ok t \<and> chat_listed t = chat_listed s"
proof (induction rule: chat_elsewhere.induct)
  case (other_left j i ap r ap' calls fd)
  note ok = chat_end_okD [OF other_left.prems]
  show ?case
  proof (cases "first_index (\<lambda>p. active p \<noteq> 0 \<and> id_of p = j) (peers ap)")
    case None
    then have "ap' = ap" using other_left.hyps(2)
      by (simp add: chatapp_disconnect_peer_def disconnect_scan_first)
    then show ?thesis using other_left.prems by simp
  next
    case (Some k)
    then have "ap' = ap\<lparr>peers := (peers ap)[k := (peers ap ! k)\<lparr>active := 0\<rparr>]\<rparr>"
      using other_left.hyps(2) by (auto simp: chatapp_disconnect_peer_def disconnect_scan_first)
    then show ?thesis
      using clear_slot [OF ok(1) _ _ other_left.prems, of k] first_index_SomeD(1,2) [OF Some]
        other_left.hyps(1) by (simp add: chat_listed_def)
  qed
next
  case (other_ended ap i fd' fd n ap' calls)
  note ok = chat_end_okD [OF other_ended.prems]
  have ap': "ap' = ap\<lparr>peers := drop_scan fd' (peers ap)\<rparr>"
    using other_ended.hyps(2,3) by (simp add: peer_turn_def)
  show ?case
  proof (cases "first_index (\<lambda>p. active p \<noteq> 0 \<and> sockfd p = fd') (peers ap)")
    case None
    then show ?thesis using other_ended.prems by (simp add: ap' drop_scan_first)
  next
    case (Some k)
    note k = first_index_SomeD(1,2) [OF Some]
    have drop: "drop_scan fd' (peers ap) = (peers ap)[k := (peers ap ! k)\<lparr>active := 0\<rparr>]"
      by (simp add: drop_scan_first Some)
    have "id_of (peers ap ! k) \<noteq> i"
    proof
      assume i: "id_of (peers ap ! k) = i"
      then have "peer_map (peers ap) i \<noteq> None"
        using k peer_map_at(2) [OF table_okD(4) [OF ok(1)], of k i] by simp
      then show False using ok(3) [of k] k i other_ended.hyps(1) by simp
    qed
    then show ?thesis using clear_slot [OF ok(1) _ _ other_ended.prems, of k] k
      by (simp add: ap' drop chat_listed_def)
  qed
next
  case (other_added ap i fd' fd addr pt tid r ap' calls)
  note ok = chat_end_okD [OF other_added.prems]
  let ?n = "next_peer_id ap"
  let ?e = "peer_entry (?n, fd', addr, pt, tid)"
  have t: "table_ok ap'" using add_peer_ok [OF ok(1), of fd' addr pt tid] other_added.hyps(3) by simp
  show ?case
  proof (cases "ap' = ap")
    case True
    then show ?thesis using other_added.prems by simp
  next
    case False
    then obtain ps where ap': "ap' = ap\<lparr>peers := ps, next_peer_id := ?n + 1\<rparr>"
      "peer_map ps = (peer_map (peers ap))(?n \<mapsto> (fd', take 15 addr, pt, tid))"
      using add_peer_cases [OF ok(1) other_added.hyps(2), of fd' pt tid] other_added.hyps(3) by auto
    moreover obtain k where "first_index vacant_peer (peers ap) = Some k" "peers ap' = (peers ap)[k := ?e]"
      using other_added.hyps(3) False
      by (auto simp: chatapp_add_peer_def add_scan_first split: if_splits option.splits)
    then have "sockfd (ps ! n) = fd \<longleftrightarrow> id_of (ps ! n) = i"
      if "peer_map (peers ap) i \<noteq> None" "n < length ps" "active (ps ! n) \<noteq> 0" for n
      using ok(2) ok(3) [of n] that other_added.hyps(1) ap'(1) by (cases "n = k") (auto simp: peer_entry_def)
    ultimately show ?thesis using t ok(2)
      by (simp add: chat_end_ok_def chat_listed_def list_all_length)
  qed
qed

interpretation chat: stream_peer "chat_endpoint start" chat_end_ok chat_listed message_text text_gone
    "sigpipe_deadly start"
  unfolding chat_endpoint_def
  by unfold_locales (simp_all only: endpoint.simps,
    erule chat_say_law, erule (2) chat_hear_law, erule (2) chat_end_law, erule (1) chat_leave_law,
    erule (1) chat_elsewhere_law)

abbreviation chat_reach :: "sys list \<Rightarrow> chat_end link \<Rightarrow> bool" where
  "chat_reach start \<equiv> reach (link_start (\<lambda>s. chat_end_ok s \<and> chat_listed s)) (link_step (chat_endpoint start))"

section \<open>Example runs\<close>

text \<open>Two programs that have each other as their only peer; \<open>shown\<close> and \<open>over\<close> of one side are given.\<close>

abbreviation one_end :: chat_end where
  "one_end \<equiv> (one_peer, 1, 5)"

definition fresh_link :: "chat_end link" where
  "fresh_link = \<lparr>ends = (\<lambda>_. one_end), over = (\<lambda>_. None), wire = (\<lambda>_. []), hand = (\<lambda>_. []), broken = False,
     said = (\<lambda>_. []), shown = (\<lambda>_. [])\<rparr>"

lemma one_end_ok: "chat_end_ok one_end" "chat_listed one_end"
proof -
  have "list_all (\<lambda>p. active p \<noteq> 0 \<longrightarrow> (sockfd p = 5 \<longleftrightarrow> id_of p = 1)) (peers one_peer)"
    "1 < next_peer_id one_peer" by code_simp+
  then show "chat_end_ok one_end" "chat_listed one_end"
    by (simp_all add: chat_end_ok_def chat_listed_def one_peer_ok one_peer_map)
qed

lemma fresh_reach: "chat_reach start fresh_link"
  by (rule reach_init) (use one_end_ok in \<open>simp add: link_start_def fresh_link_def\<close>)

lemma one_end_says: "say (chat_endpoint start) one_end m = Some (m, sigpipe_deadly start)"
  using chat.say_law [OF one_end_ok(1)] one_end_ok(2) by simp

text \<open>A message said while the wire is as given, and all of the wire read at once and printed.\<close>

definition calling :: "bytes list \<Rightarrow> bytes \<Rightarrow> bytes \<Rightarrow> bytes list \<Rightarrow> chat_end link" where
  "calling ms w h ts = fresh_link\<lparr>wire := (\<lambda>_. [])(Caller := w), said := (\<lambda>_. [])(Caller := ms),
     hand := (\<lambda>_. [])(Callee := h), shown := (\<lambda>_. [])(Callee := ts)\<rparr>"

lemma fresh_calling: "fresh_link = calling [] [] [] []"
  by (simp add: calling_def fresh_link_def fun_eq_iff)

lemma calling_says:
  assumes "NUL \<notin> set m"
  shows "link_step (chat_endpoint start) (calling ms w h ts) (calling (ms @ [m]) (w @ m) h ts)"
  using says [of "calling ms w h ts" Caller m "chat_endpoint start" m] assms one_end_says
  by (simp add: calling_def fresh_link_def)

lemma calling_hears:
  assumes "w \<noteq> []" "length w \<le> MAX_MSG_LEN" "NUL \<notin> set w" "chat_reach start (calling ms w [] ts)"
  shows "chat_reach start (calling ms [] [] (ts @ [message_text w]))"
proof -
  have hear: "hear (chat_endpoint start) one_end (int (length w), w) = Some (one_end, [message_text w], False)"
    by (rule chat.hear_law [OF one_end_ok(1) assms(1-3)])
  have upd: "(\<lambda>_. one_end)(Callee := one_end) = (\<lambda>_. one_end)"
    "(\<lambda>_. [])(Caller := w, Caller := []) = (\<lambda>_. [])(Caller := [])"
    "(\<lambda>_. [])(Callee := []) = (\<lambda>_. [])" "(\<lambda>_. [])(Callee := w, Callee := []) = (\<lambda>_. [])"
    "(\<lambda>_. [])(Callee := [], Callee := w) = (\<lambda>_. [])(Callee := w)" by auto
  have "link_step (chat_endpoint start) (calling ms w [] ts) (calling ms [] w ts)"
    using takes [of "calling ms w [] ts" Callee "length w" "chat_endpoint start"] assms(1,2)
    by (simp add: calling_def fresh_link_def upd)
  moreover have "link_step (chat_endpoint start) (calling ms [] w ts) (calling ms [] [] (ts @ [message_text w]))"
    using shows_piece [of "calling ms [] w ts" Callee "chat_endpoint start" one_end "[message_text w]"]
      assms(1) hear by (simp add: calling_def fresh_link_def upd)
  ultimately show ?thesis using assms(4) by (blast intro: reach_step)
qed

text \<open>The callee has hung up before anything was said.\<close>

definition hung_up :: "chat_end \<Rightarrow> chat_end link" where
  "hung_up t = fresh_link\<lparr>ends := (\<lambda>_. one_end)(Callee := t), over := (\<lambda>_. None)(Callee \<mapsto> Hung_up)\<rparr>"

lemma hung_up_reach: "\<exists>t. chat_reach start (hung_up t)"
proof -
  obtain t where "leave (chat_endpoint start) one_end = Some t" using chat.leave_law [OF one_end_ok] by blast
  then have "link_step (chat_endpoint start) fresh_link (hung_up t)"
    using leaves [of fresh_link Callee "chat_endpoint start" t] by (simp add: hung_up_def fresh_link_def)
  then show ?thesis using fresh_reach by (blast intro: reach_step)
qed

text \<open>The calls of \<^verbatim>\<open>main\<close> up to its command loop leave SIGPIPE as it is.\<close>

lemma start_calls_deadly:
  assumes "chat_main b ips a launch app0 argv 0 inp = Some (Inr Next, start)"
  shows "sigpipe_deadly start"
  using assms
  by (auto simp: chat_main_def chatapp_setup_def chatapp_launch_def Let_def sigpipe_deadly_def
      split: if_splits sum.splits prod.splits)

section \<open>Properties\<close>

text \<open>
  C14: a conversation arrives in order.  Two programs, connected to each other, in every interleaving of
  their users, their peer threads, resets of the connection and whatever the programs do with other
  connections, as long as no other thread of either program uses the number of this connection's
  socket, as \<open>double_close_kills_connection\<close> and \<open>registration_race_leaves_stale_peer\<close> show it can: what a
  side has printed is the messages' bytes in the order they were sent, from the first on, without
  gap, change or repetition, in pieces of at most 100 bytes; so bytes are lost only at the end.  While
  the side is connected, none is lost unless the connection was reset, and when it has printed that
  the peer disconnected after the end of the stream, none is lost at all.  A connected side lists the
  connection, one that ended does not, unless it was killed, and the tables keep their invariant.
\<close>

theorem conversation_in_order:
  assumes "chat_reach start l" "undisturbed l"
  shows "(\<exists>ds rest. shown l p = map message_text ds @
        (if over l p \<in> {Some Saw_end, Some Broke} then [text_gone] else []) \<and>
      (\<forall>d \<in> set ds. d \<noteq> [] \<and> length d \<le> 100) \<and>
      concat (said l (other p)) = concat ds @ hand l p @ rest \<and>
      (over l p = None \<and> \<not> broken l \<longrightarrow> rest = wire l (other p)) \<and>
      (over l p = Some Saw_end \<longrightarrow> hand l p = [] \<and> rest = [])) \<and>
    table_ok (fst (ends l p)) \<and>
    (over l p = None \<longrightarrow> chat_listed (ends l p)) \<and>
    (over l p \<in> {Some Hung_up, Some Saw_end, Some Broke} \<longrightarrow> \<not> chat_listed (ends l p))"
proof -
  have ok: "chat.side_ok l p" using chat.link_ok_reachable [OF assms] by (rule chat.link_okD)
  then have "table_ok (fst (ends l p))"
    "over l p = None \<Longrightarrow> chat_listed (ends l p)"
    "over l p \<in> {Some Hung_up, Some Saw_end, Some Broke} \<Longrightarrow> \<not> chat_listed (ends l p)"
    by (auto simp: chat.side_ok_def chat_end_ok_def)
  moreover obtain ds rest where "chat.heard l p ds rest" using chat.side_okD [OF ok] by blast
  ultimately show ?thesis
    by (intro conjI exI [of _ ds] exI [of _ rest] impI)
      (simp_all add: chat.heard_def chat.farewell_def MAX_MSG_LEN_def)
qed

theorem conversation_in_order_witness:
  "\<exists>ds rest. shown (calling [''hi''] ''hi'' [] []) Callee = map message_text ds \<and>
    ''hi'' = concat ds @ rest \<and> rest = ''hi''"
proof -
  have "chat_reach [] (calling [''hi''] ''hi'' [] [])"
    using calling_says [of "''hi''" "[]" "[]" "[]" "[]" "[]"] fresh_reach
    by (auto simp: fresh_calling intro: reach_step)
  moreover have "undisturbed (calling [''hi''] ''hi'' [] [])"
    by (simp add: undisturbed_def calling_def fresh_link_def)
  ultimately show ?thesis
    using conversation_in_order [of "[]" _ Callee] by (simp add: calling_def fresh_link_def)
qed

text \<open>
  C15: a hang-up reaches the other side.  In every reachable state in which the user of one side has hung up
  after its program had read all that was sent to it, so that its system closes the stream in order,
  and the connection was not reset, the peer thread of the other side, which is still connected, can
  go on until it has printed everything that was said to it and that the peer disconnected, and its
  table does not list the connection.
\<close>

theorem hang_up_reaches_other_side:
  assumes "chat_reach start l" "over l p = None" "over l (other p) = Some Hung_up"
    and "wire l p = []" "\<not> broken l"
  shows "\<exists>l' ds. (link_step (chat_endpoint start))\<^sup>*\<^sup>* l l' \<and> over l' p = Some Saw_end \<and>
    \<not> chat_listed (ends l' p) \<and> shown l' p = map message_text ds @ [text_gone] \<and>
    concat ds = concat (said l (other p))"
proof -
  obtain l' where l': "(link_step (chat_endpoint start))\<^sup>*\<^sup>* l l'" "chat.link_ok l'" "over l' p = Some Saw_end"
    "over l' (other p) = Some Hung_up" "said l' = said l"
    using chat.end_reached [OF chat.link_ok_reachable [OF assms(1)] assms(2,3,5)] assms(2,3)
    by (auto simp: undisturbed_iff [of l p])
  with chat.all_shown [OF l'(2-4)] show ?thesis by auto
qed

theorem hang_up_reaches_other_side_witness:
  "\<exists>l l'. chat_reach [] l \<and> over l Callee = Some Hung_up \<and> (link_step (chat_endpoint []))\<^sup>*\<^sup>* l l' \<and>
    over l' Caller = Some Saw_end"
proof -
  obtain t where t: "chat_reach [] (hung_up t)" using hung_up_reach by blast
  have "over (hung_up t) Caller = None" "over (hung_up t) (other Caller) = Some Hung_up"
    "wire (hung_up t) Caller = []" "\<not> broken (hung_up t)"
    by (simp_all add: hung_up_def fresh_link_def)
  with hang_up_reaches_other_side [OF t, of Caller] t show ?thesis by auto
qed

text \<open>
  C16: a peer that hangs up can kill the program.  After any start of \<^verbatim>\<open>main\<close> that reached its command
  loop: a message sent before the peer thread has seen the end is reported as sent and lost, the
  system of the other side answers it by a reset, and the next message raises SIGPIPE, because \<^verbatim>\<open>send\<close> is
  called without MSG_NOSIGNAL, and kills the program, because no call since its start has set another
  action for the signal.
\<close>

theorem send_after_hangup_kills:
  assumes "chat_main b ips a launch app0 argv 0 inp = Some (Inr Next, start)"
  shows "\<exists>l. chat_reach start l \<and> over l Callee = Some Hung_up \<and> over l Caller = Some Killed \<and>
    said l Caller = [''hello''] \<and> shown l Callee = [] \<and> chat_listed (ends l Caller)"
proof -
  obtain t where t: "chat_reach start (hung_up t)" using hung_up_reach by blast
  let ?l = "hung_up t"
  let ?m = "?l\<lparr>said := (said ?l)(Caller := said ?l Caller @ [''hello''])\<rparr>"
  let ?n = "?m\<lparr>broken := True, wire := wire ?m\<rparr>"
  let ?o = "?n\<lparr>over := (over ?n)(Caller \<mapsto> Killed)\<rparr>"
  have says: "say (chat_endpoint start) one_end m = Some (m, True)" for m
    using one_end_says start_calls_deadly [OF assms] by simp
  have "link_step (chat_endpoint start) ?l ?m"
    using says [of "''hello''"] by (intro says_in_vain) (simp_all add: hung_up_def fresh_link_def)
  moreover have "link_step (chat_endpoint start) ?m ?n" by (rule resets) simp
  moreover have "link_step (chat_endpoint start) ?n ?o"
    using says [of "''again''"]
    by (intro says_killed [where m = "''again''" and bs = "''again''"])
      (simp_all add: hung_up_def fresh_link_def)
  ultimately have "chat_reach start ?o" using t by (blast intro: reach_step)
  then show ?thesis
    using one_end_ok(2) by (intro exI conjI) (assumption | simp add: hung_up_def fresh_link_def)+
qed

theorem send_after_hangup_kills_witness:
  "\<forall>b ips. \<exists>start l. chat_main b ips \<lparr>ans_socket = 3, ans_bind = 0, ans_listen = 0\<rparr> (0, 1)
      fresh_table [''chat'', ''4000''] 0 [] = Some (Inr Next, start) \<and>
    chat_reach start l \<and> over l Caller = Some Killed"
proof (intro allI)
  fix b ips
  obtain start where s: "chat_main b ips \<lparr>ans_socket = 3, ans_bind = 0, ans_listen = 0\<rparr>
      (0, 1) fresh_table [''chat'', ''4000''] 0 [] = Some (Inr Next, start)"
    by (simp add: chat_main_def chatapp_setup_def chatapp_launch_def Let_def)
  with send_after_hangup_kills [OF s]
  show "\<exists>start l. chat_main b ips \<lparr>ans_socket = 3, ans_bind = 0, ans_listen = 0\<rparr> (0, 1)
      fresh_table [''chat'', ''4000''] 0 [] = Some (Inr Next, start) \<and>
    chat_reach start l \<and> over l Caller = Some Killed" by blast
qed

text \<open>
  Messages run together.  The stream does not keep the messages apart and the program adds
  nothing that would: two messages sent one after the other can be printed as one, exactly like one
  message with both texts.
\<close>

theorem messages_run_together:
  assumes "m1 \<noteq> []" "NUL \<notin> set (m1 @ m2)" "length (m1 @ m2) \<le> 100"
  shows "\<exists>l l'. chat_reach start l \<and> said l Caller = [m1, m2] \<and>
    chat_reach start l' \<and> said l' Caller = [m1 @ m2] \<and>
    shown l Callee = [message_text (m1 @ m2)] \<and> shown l' Callee = shown l Callee"
proof -
  have "chat_reach start (calling [m1, m2] (m1 @ m2) [] [])"
    using calling_says [of m1 start "[]" "[]" "[]" "[]"] calling_says [of m2 start "[m1]" m1 "[]" "[]"]
      fresh_reach assms(2)
    by (auto simp: fresh_calling intro: reach_step)
  moreover have "chat_reach start (calling [m1 @ m2] (m1 @ m2) [] [])"
    using calling_says [of "m1 @ m2" start "[]" "[]" "[]" "[]"] fresh_reach assms(2)
    by (auto simp: fresh_calling intro: reach_step)
  ultimately have "chat_reach start (calling [m1, m2] [] [] [message_text (m1 @ m2)])"
    "chat_reach start (calling [m1 @ m2] [] [] [message_text (m1 @ m2)])"
    using calling_hears [of "m1 @ m2" start _ "[]"] assms by (auto simp: MAX_MSG_LEN_def)
  then show ?thesis by (intro exI conjI) (assumption | simp add: calling_def)+
qed

theorem messages_run_together_witness:
  "\<exists>l. chat_reach [] l \<and> said l Caller = [''hi'', ''there''] \<and> shown l Callee = [message_text ''hithere'']"
  using messages_run_together [of "''hi''" "''there''"] by auto

end
