(* ===== verification/Msg_Queue.thy ===== *)
theory Msg_Queue
  imports C_Library
begin

text \<open>
  The two programs of \<^verbatim>\<open>07-ipc-msg\<close>: \<^verbatim>\<open>task_dispatcher.c\<close>, which sends one task with a priority, and
  \<^verbatim>\<open>task_worker.c\<close>, which creates the queue and prints the tasks it receives.  The queue itself
  belongs to the kernel: the answers of its calls are inputs.
\<close>

datatype mq_call =
    Mq_open int | Mq_close | Mq_unlink | Mq_send bytes int int | Mq_receive int
  | Catch_sigint | Sleep_for int | Out bytes | Err bytes

definition MAX_MSG_SIZE :: nat where "MAX_MSG_SIZE = 256"
definition MAX_MESSAGES :: nat where "MAX_MESSAGES = 10"

section \<open>The dispatcher\<close>

text \<open>
  \<open>dispatcher_main argv opened sent\<close>: the exit status and the calls; \<^verbatim>\<open>unsigned int prio = atoi(...)\<close>
  wraps a negative number around.
\<close>

definition dispatcher_main :: "bytes list \<Rightarrow> int \<Rightarrow> int \<Rightarrow> int \<times> mq_call list" where
  "dispatcher_main argv opened sent =
     (if length argv \<noteq> 3
      then (1, [Err (''Usage: '' @ argv ! 0 @ '' <priority> '' @ [CHR 0x22] @ ''<task_description>'' @
              [CHR 0x22, CHR 0x0A])])
      else
        let prio = atoi (argv ! 1) mod 4294967296 in
        if prio > 31 then (1, [Err (''Priority must be <= 31 (POSIX MQ limit).'' @ [CHR 0x0A])])
        else
          let task = argv ! 2; calls = [Mq_open opened] in
          if opened = -1 then (1, calls @ [Err ''mq_open''])
          else
            let calls = calls @ [Mq_send task prio sent] in
            if sent = -1 then (1, calls @ [Err ''mq_send''])
            else (0, calls @ [Out (''Task sent with priority '' @ show_int prio @ '': '' @ task @ [CHR 0x0A]),
              Mq_close]))"

section \<open>The worker\<close>

definition worker_cleanup :: "int \<times> mq_call list" where
  "worker_cleanup = (0, [Mq_close, Mq_unlink,
     Out ([CHR 0x0A] @ ''Queue closed and unlinked. Exiting.'' @ [CHR 0x0A])])"

text \<open>The attributes of the queue: \<^verbatim>\<open>mq_flags\<close>, \<^verbatim>\<open>mq_maxmsg\<close>, \<^verbatim>\<open>mq_msgsize\<close>, \<^verbatim>\<open>mq_curmsgs\<close>.\<close>

definition worker_attr :: "nat \<times> nat \<times> nat \<times> nat" where
  "worker_attr = (0, MAX_MESSAGES, MAX_MSG_SIZE, 0)"

definition worker_start :: "int \<Rightarrow> int option \<times> mq_call list" where
  "worker_start opened =
     (let calls = [Mq_unlink, Mq_open opened] in
      if opened = -1 then (Some 1, calls @ [Err ''mq_open''])
      else (None, calls @ [Catch_sigint,
        Out (''Worker started. Waiting for tasks...'' @ [CHR 0x0A])]))"

definition task_line :: "int \<Rightarrow> bytes \<Rightarrow> bytes" where
  "task_line prio task = ''Processing task (Priority: '' @ show_int prio @ ''): '' @ task @ [CHR 0x0A]"

text \<open>
  One turn of the loop on the answer \<open>n\<close> of \<^verbatim>\<open>mq_receive\<close>, which delivered \<open>msg\<close> with priority
  \<open>prio\<close>; \<open>buffer0\<close> is what the buffer holds before, and \<open>None\<close> is an access outside it.
\<close>

definition worker_turn :: "bytes \<Rightarrow> int \<times> bytes \<times> int \<Rightarrow> (bytes \<times> mq_call list) option" where
  "worker_turn buffer0 answer =
     (case answer of (n, msg, prio) \<Rightarrow>
        if n \<ge> 0
        then do {
          buffer \<leftarrow> buf_put (overwrite buffer0 msg) n NUL;
          task \<leftarrow> c_string buffer;
          Some (buffer, [Mq_receive n, Out (task_line prio task), Sleep_for 1])
        }
        else Some (buffer0, [Mq_receive n, Err ''mq_receive'']))"

fun worker_loop :: "bytes \<Rightarrow> (int \<times> bytes \<times> int) list \<Rightarrow> mq_call list option" where
  "worker_loop buffer [] = Some []"
| "worker_loop buffer (r # rs) = do {
     (buffer', calls) \<leftarrow> worker_turn buffer r;
     more \<leftarrow> worker_loop buffer' rs;
     Some (calls @ more)
   }"

section \<open>Shared facts\<close>

lemma worker_turn_fits:
  assumes "length buffer0 = MAX_MSG_SIZE" "length msg < MAX_MSG_SIZE" "NUL \<notin> set msg"
  shows "\<exists>buffer. worker_turn buffer0 (int (length msg), msg, prio) =
      Some (buffer, [Mq_receive (int (length msg)), Out (task_line prio msg), Sleep_for 1]) \<and>
    length buffer = MAX_MSG_SIZE"
proof -
  obtain r where "buf_put (overwrite buffer0 msg) (int (length msg)) NUL = Some (msg @ NUL # r)"
    "length (msg @ NUL # r) = MAX_MSG_SIZE"
    using overwrite_terminated [of msg buffer0] assms(1,2) by auto
  then show ?thesis using assms(3) by (simp add: worker_turn_def c_string_append)
qed

lemma worker_turn_overruns:
  assumes "length buffer0 = MAX_MSG_SIZE" "length msg = MAX_MSG_SIZE"
  shows "worker_turn buffer0 (int (length msg), msg, prio) = None"
  using assms by (simp add: worker_turn_def buf_put_def overwrite_def)

lemma atoi_show_int:
  assumes "INT_MIN \<le> k" "k \<le> INT_MAX"
  shows "atoi (show_int k) = k"
proof -
  have "strtol10 (show_int k @ []) = (k, [])"
    by (rule strtol10_show_int)
      (use assms in \<open>simp_all add: LONG_MIN_def LONG_MAX_def INT_MIN_def INT_MAX_def\<close>)
  then show ?thesis using assms by (simp add: atoi_def to_int32_id)
qed

section \<open>Properties\<close>

text \<open>
  The dispatcher sends exactly the task it was given, at exactly the priority, when the priority
  lies between 0 and 31; with any other number, a negative one included, it opens no queue, sends
  nothing and fails.
\<close>

theorem dispatcher_main_spec:
  assumes "INT_MIN \<le> k" "k \<le> INT_MAX"
  shows "if 0 \<le> k \<and> k \<le> 31
    then \<exists>text. dispatcher_main [prog, show_int k, task] 3 0 =
      (0, [Mq_open 3, Mq_send task k 0, Out text, Mq_close])
    else \<exists>text. dispatcher_main [prog, show_int k, task] opened sent = (1, [Err text])"
proof (cases "0 \<le> k \<and> k \<le> 31")
  case True
  then show ?thesis using atoi_show_int [OF assms]
    by (simp add: dispatcher_main_def Let_def)
next
  case False
  have "31 < k mod 4294967296"
  proof (cases "k < 0")
    case True
    then have "(k + 4294967296) mod 4294967296 = k + 4294967296"
      using assms(1) by (intro mod_pos_pos_trivial) (simp_all add: INT_MIN_def)
    then show ?thesis using assms(1) by (simp add: INT_MIN_def)
  next
    case neg: False
    then have "k mod 4294967296 = k"
      using assms(2) by (intro mod_pos_pos_trivial) (simp_all add: INT_MAX_def)
    then show ?thesis using False neg by simp
  qed
  then show ?thesis using False atoi_show_int [OF assms]
    by (simp add: dispatcher_main_def Let_def)
qed

theorem dispatcher_main_spec_witness:
  "\<exists>text. dispatcher_main [''dispatch'', show_int (-1), ''job''] 3 0 = (1, [Err text])"
  using dispatcher_main_spec [of "-1" "''dispatch''" "''job''" 3 0]
  by (simp add: INT_MIN_def INT_MAX_def)

text \<open>
  C38: the worker prints every task of at most 255 bytes whole, with its priority, in the order of
  the queue; but the queue accepts messages of 256 bytes, and such a message makes the worker write
  its terminating NUL one byte behind the buffer.
\<close>

theorem worker_loop_spec:
  assumes "length buffer = MAX_MSG_SIZE" "list_all (\<lambda>(m, p). length m < MAX_MSG_SIZE \<and> NUL \<notin> set m) ms"
    "worker_attr = (fl, mx, length big, cur)"
  shows "worker_loop buffer (map (\<lambda>(m, p). (int (length m), m, p)) ms) =
      Some (concat (map (\<lambda>(m, p).
        [Mq_receive (int (length m)), Out (task_line p m), Sleep_for 1]) ms)) \<and>
    worker_loop buffer [(int (length big), big, p)] = None"
proof -
  have "worker_loop buffer (map (\<lambda>(m, p). (int (length m), m, p)) ms) =
      Some (concat (map (\<lambda>(m, p).
        [Mq_receive (int (length m)), Out (task_line p m), Sleep_for 1]) ms))"
    using assms(1,2)
  proof (induction ms arbitrary: buffer)
    case Nil
    then show ?case by simp
  next
    case (Cons x ms)
    obtain m p where x: "x = (m, p)" by (cases x)
    with Cons.prems worker_turn_fits [of buffer m p] obtain b where
      "worker_turn buffer (int (length m), m, p) =
        Some (b, [Mq_receive (int (length m)), Out (task_line p m), Sleep_for 1])"
      "length b = MAX_MSG_SIZE"
      by auto
    then show ?case using Cons x by simp
  qed
  moreover have "length big = MAX_MSG_SIZE" using assms(3) by (simp add: worker_attr_def)
  then have "worker_loop buffer [(int (length big), big, p)] = None"
    using worker_turn_overruns [OF assms(1)] by simp
  ultimately show ?thesis by blast
qed

theorem worker_loop_spec_witness:
  "worker_loop (replicate 256 NUL) [(256, replicate 256 (CHR ''x''), 5)] = None"
  using worker_loop_spec [where buffer = "replicate 256 NUL" and ms = "[]" and
      big = "replicate 256 (CHR ''x'')" and p = 5]
  by (simp add: MAX_MSG_SIZE_def worker_attr_def)

end
