(* ===== verification/Task_System.thy ===== *)
theory Task_System
  imports Msg_Queue "HOL-Library.Multiset"
begin

text \<open>
  The programs of \<^verbatim>\<open>07-ipc-msg\<close> together: any number of dispatchers and workers around the queue
  \<^verbatim>\<open>/my_task_queue\<close>.  The queue is that of POSIX: the message with the highest priority first, the
  oldest first among equals; a queue outlives its name while a process has it open.  First the
  programs one after the other, then all their interleavings.
\<close>

section \<open>The queue\<close>

text \<open>
  The contract of a message queue, as \<^verbatim>\<open>mq_send\<close> and \<^verbatim>\<open>mq_receive\<close> document it.  A low \<open>rank\<close> comes
  first; \<open>put\<close> keeps the order of rank, adds one message and puts it behind its equals.
\<close>

locale message_queue =
  fixes put :: "'a \<Rightarrow> 'a list \<Rightarrow> 'a list" and rank :: "'a \<Rightarrow> int"
  assumes put_mset: "mset (put t us) = add_mset t (mset us)"
    and put_sorted: "sorted (map rank us) \<Longrightarrow> sorted (map rank (put t us))"
    and put_behind_equals: "sorted (map rank us) \<Longrightarrow>
      filter (\<lambda>u. k = rank u) (put t us) = filter (\<lambda>u. k = rank u) us @ (if k = rank t then [t] else [])"
begin

lemma put_all:
  "sorted (map rank us) \<Longrightarrow> mset (fold put ts us) = mset us + mset ts \<and>
     sorted (map rank (fold put ts us)) \<and>
     filter (\<lambda>u. k = rank u) (fold put ts us) = filter (\<lambda>u. k = rank u) (us @ ts)"
proof (induction ts arbitrary: us)
  case Nil
  then show ?case by simp
next
  case (Cons t ts)
  from Cons.IH [OF put_sorted [OF Cons.prems]] Cons.prems show ?case
    by (simp add: put_mset put_behind_equals)
qed

text \<open>Messages that are put first and taken afterwards come out stably sorted.\<close>

lemma put_all_sorts: "fold put ts [] = sort_key rank ts"
  by (rule properties_for_sort_key [symmetric]) (use put_all [of "[]" ts] in auto)

lemma put_set: "set (put t us) = insert t (set us)"
  using arg_cong [OF put_mset, of set_mset] by simp

lemma put_length: "length (put t us) = Suc (length us)"
  using arg_cong [OF put_mset, of size] by simp

end

type_synonym task = "bytes \<times> int"

definition task_rank :: "task \<Rightarrow> int" where
  "task_rank t = - snd t"

fun mq_put :: "task \<Rightarrow> task list \<Rightarrow> task list" where
  "mq_put t [] = [t]"
| "mq_put t (u # us) = (if snd t \<le> snd u then u # mq_put t us else t # u # us)"

lemma mset_mq_put: "mset (mq_put t us) = add_mset t (mset us)"
  by (induction us) auto

lemma sorted_mq_put:
  "sorted (map task_rank us) \<Longrightarrow> sorted (map task_rank (mq_put t us))"
proof (induction us)
  case Nil
  then show ?case by simp
next
  case (Cons u us)
  have "set (mq_put t us) = insert t (set us)" using arg_cong [OF mset_mq_put, of set_mset] by simp
  with Cons show ?case by (auto simp: task_rank_def)
qed

lemma mq_put_behind_equals:
  "sorted (map task_rank us) \<Longrightarrow> filter (\<lambda>u. k = task_rank u) (mq_put t us) =
     filter (\<lambda>u. k = task_rank u) us @ (if k = task_rank t then [t] else [])"
proof (induction us)
  case Nil
  then show ?case by simp
next
  case (Cons u us)
  have "filter (\<lambda>u. task_rank t = task_rank u) (u # us) = []" if "\<not> snd t \<le> snd u"
    using that Cons.prems by (auto simp: task_rank_def filter_empty_conv)
  with Cons show ?case by auto
qed

interpretation posix: message_queue mq_put task_rank
  by unfold_locales (simp_all add: mset_mq_put sorted_mq_put mq_put_behind_equals)

section \<open>One program after the other\<close>

text \<open>What calls do to the content of the queue that has the name: a new one is empty.\<close>

fun queue_effect :: "mq_call list \<Rightarrow> task list \<Rightarrow> task list" where
  "queue_effect [] us = us"
| "queue_effect (Mq_unlink # cs) us = queue_effect cs []"
| "queue_effect (Mq_send m p r # cs) us = queue_effect cs (if r = -1 then us else mq_put (m, p) us)"
| "queue_effect (c # cs) us = queue_effect cs us"

definition dispatch :: "bytes \<Rightarrow> task \<Rightarrow> task list \<Rightarrow> task list" where
  "dispatch prog t us = queue_effect (snd (dispatcher_main [prog, show_int (snd t), fst t] 3 0)) us"

text \<open>A task the queue takes and the worker can hold, with a priority the dispatcher takes.\<close>

definition proper_task :: "task \<Rightarrow> bool" where
  "proper_task t \<longleftrightarrow> 0 \<le> snd t \<and> snd t \<le> 31 \<and> length (fst t) < MAX_MSG_SIZE \<and> NUL \<notin> set (fst t)"

lemma dispatch_puts:
  assumes "proper_task t"
  shows "dispatch prog t us = mq_put t us"
proof -
  have "atoi (show_int (snd t)) = snd t"
    using assms by (intro atoi_show_int) (simp_all add: proper_task_def INT_MIN_def INT_MAX_def)
  with assms show ?thesis by (simp add: dispatch_def dispatcher_main_def Let_def proper_task_def)
qed

text \<open>
  What happens around one worker: a dispatcher runs from start to end, or the worker does a turn of its
  loop, which waits while the queue is empty.  The result is what the worker calls.
\<close>

datatype event = Dispatched task | Turn

fun serve :: "bytes \<Rightarrow> bytes \<Rightarrow> event list \<Rightarrow> task list \<Rightarrow> mq_call list option" where
  "serve prog buffer [] us = Some []"
| "serve prog buffer (Dispatched t # es) us = serve prog buffer es (dispatch prog t us)"
| "serve prog buffer (Turn # es) [] = serve prog buffer es []"
| "serve prog buffer (Turn # es) (u # us) = do {
     (buffer', calls) \<leftarrow> worker_turn buffer (int (length (fst u)), fst u, snd u);
     more \<leftarrow> serve prog buffer' es us;
     Some (calls @ more)
   }"

lemma serve_dispatched:
  "list_all proper_task ts \<Longrightarrow>
    serve prog buffer (map Dispatched ts @ es) us = serve prog buffer es (fold mq_put ts us)"
  by (induction ts arbitrary: us) (simp_all add: dispatch_puts)

text \<open>The answer of \<^verbatim>\<open>mq_receive\<close> for a message, and what a worker does with it.\<close>

definition receipt :: "task \<Rightarrow> int \<times> bytes \<times> int" where
  "receipt t = (int (length (fst t)), fst t, snd t)"

definition turn_calls :: "task \<Rightarrow> mq_call list" where
  "turn_calls t = [Mq_receive (int (length (fst t))), Out (task_line (snd t) (fst t)), Sleep_for 1]"

lemma worker_turn_proper:
  assumes "length buffer = MAX_MSG_SIZE" "proper_task t"
  shows "\<exists>b. worker_turn buffer (receipt t) = Some (b, turn_calls t) \<and> length b = MAX_MSG_SIZE"
  using worker_turn_fits [OF assms(1), of "fst t" "snd t"] assms(2)
  by (auto simp: proper_task_def receipt_def turn_calls_def)

lemma serve_turns:
  assumes "length buffer = MAX_MSG_SIZE" "list_all proper_task ts"
  shows "serve prog buffer (replicate (length ts) Turn) ts = Some (concat (map turn_calls ts))"
  using assms
proof (induction ts arbitrary: buffer)
  case Nil
  then show ?case by simp
next
  case (Cons t ts)
  from worker_turn_proper [OF Cons.prems(1), of t] Cons.prems(2) obtain b where
    "worker_turn buffer (int (length (fst t)), fst t, snd t) = Some (b, turn_calls t)"
    "length b = MAX_MSG_SIZE"
    by (auto simp: receipt_def)
  with Cons show ?case by simp
qed

lemma serve_sorted:
  assumes "length buffer = MAX_MSG_SIZE" "list_all proper_task ts"
  shows "serve prog buffer (map Dispatched ts @ replicate (length ts) Turn) [] =
    Some (concat (map turn_calls (sort_key task_rank ts)))"
proof -
  have "list_all proper_task (sort_key task_rank ts)" using assms(2) by (simp add: list_all_iff)
  with serve_turns [OF assms(1) this, of prog] show ?thesis
    by (simp add: serve_dispatched [OF assms(2)] posix.put_all_sorts)
qed

section \<open>All interleavings\<close>

text \<open>
  A dispatcher has not looked at the queue yet, holds it open with its message still to be sent, or
  has ended.  A worker makes the calls of its program one by one: \<open>Running fd buffer catches todo after\<close>
  is one that has the queue \<open>fd\<close> open, has installed its handler or not, has the calls \<open>todo\<close> still to
  make, and then exits with a status or goes into the next turn of its loop.
\<close>

datatype sender = Fresh | Opened nat bytes int | Ended int

datatype worker_pc =
    Ready
  | Running "nat option" bytes bool "mq_call list" "int option"
  | Finished int | Slain | Corrupted

text \<open>
  The queues ever created are numbered; \<open>named\<close> is the one the name stands for.  \<open>given\<close> records what
  was sent to each queue, \<open>taken\<close> what \<^verbatim>\<open>mq_receive\<close> handed out, with the worker and the queue, and
  \<open>printed\<close> the lines of each worker.
\<close>

record task_system =
  queues :: "nat \<Rightarrow> task list"
  named :: "nat option"
  made :: nat
  senders :: "nat \<Rightarrow> sender"
  workers :: "nat \<Rightarrow> worker_pc"
  given :: "nat \<Rightarrow> task list"
  taken :: "(nat \<times> nat \<times> task) list"
  printed :: "nat \<Rightarrow> bytes list"

definition task_start :: "task_system \<Rightarrow> bool" where
  "task_start s \<longleftrightarrow> named s = None \<and> made s = 0 \<and> queues s = (\<lambda>_. []) \<and> given s = (\<lambda>_. []) \<and>
     taken s = [] \<and> printed s = (\<lambda>_. []) \<and> senders s = (\<lambda>_. Fresh) \<and> workers s = (\<lambda>_. Ready)"

text \<open>
  One call of worker \<open>w\<close>: the queue it has open, whether it catches SIGINT, and the system afterwards.
  \<^verbatim>\<open>mq_open\<close> with \<^verbatim>\<open>O_CREAT\<close> joins the queue that already has the name.
\<close>

fun worker_call :: "nat \<Rightarrow> mq_call \<Rightarrow> nat option \<times> bool \<times> task_system \<Rightarrow> nat option \<times> bool \<times> task_system" where
  "worker_call w Mq_unlink (fd, h, s) = (fd, h, s\<lparr>named := None\<rparr>)"
| "worker_call w (Mq_open r) (fd, h, s) =
     (if r = -1 then (fd, h, s)
      else case named s of
          Some q \<Rightarrow> (Some q, h, s)
        | None \<Rightarrow> (Some (made s), h, s\<lparr>named := Some (made s), made := Suc (made s)\<rparr>))"
| "worker_call w Mq_close (fd, h, s) = (None, h, s)"
| "worker_call w Catch_sigint (fd, h, s) = (fd, True, s)"
| "worker_call w (Out l) (fd, h, s) = (fd, h, s\<lparr>printed := (printed s)(w := printed s w @ [l])\<rparr>)"
| "worker_call w c (fd, h, s) = (fd, h, s)"

text \<open>
  \<^verbatim>\<open>mq_send\<close> refuses a message longer than \<^verbatim>\<open>mq_msgsize\<close> and waits while \<^verbatim>\<open>mq_maxmsg\<close> messages are
  queued.  A worker with nothing left to do takes the first message in one step and prints it in a
  later one; SIGINT may come between any two calls, and so may a signal that kills.  Before the handler is
  installed SIGINT is such a signal; while the handler runs it is blocked.
\<close>

inductive task_step :: "task_system \<Rightarrow> task_system \<Rightarrow> bool" where
  dispatcher_fails:
    "senders s d = Fresh \<Longrightarrow> opened = -1 \<or> named s \<noteq> None \<Longrightarrow> fst (dispatcher_main argv opened 0) = e \<Longrightarrow>
     e \<noteq> 0 \<Longrightarrow> task_step s (s\<lparr>senders := (senders s)(d := Ended e)\<rparr>)"
| dispatcher_opens:
    "senders s d = Fresh \<Longrightarrow> named s = Some q \<Longrightarrow> list_all (\<lambda>a. NUL \<notin> set a) argv \<Longrightarrow>
     Mq_send m p 0 \<in> set (snd (dispatcher_main argv 3 0)) \<Longrightarrow>
     task_step s (s\<lparr>senders := (senders s)(d := Opened q m p)\<rparr>)"
| dispatcher_gives_up:
    "senders s d = Opened q m p \<Longrightarrow> e \<noteq> 0 \<Longrightarrow> task_step s (s\<lparr>senders := (senders s)(d := Ended e)\<rparr>)"
| dispatcher_sends:
    "senders s d = Opened q m p \<Longrightarrow> worker_attr = (fl, mx, sz, cur) \<Longrightarrow> length m \<le> sz \<Longrightarrow>
     length (queues s q) < mx \<Longrightarrow>
     task_step s (s\<lparr>senders := (senders s)(d := Ended 0),
       queues := (queues s)(q := mq_put (m, p) (queues s q)),
       given := (given s)(q := given s q @ [(m, p)])\<rparr>)"
| worker_begins:
    "workers s w = Ready \<Longrightarrow> length buffer = MAX_MSG_SIZE \<Longrightarrow> worker_start opened = (after, calls) \<Longrightarrow>
     task_step s (s\<lparr>workers := (workers s)(w := Running None buffer False calls after)\<rparr>)"
| worker_calls:
    "workers s w = Running fd buffer h (c # todo) after \<Longrightarrow>
     worker_call w c (fd, h, s) = (fd', h', s') \<Longrightarrow>
     task_step s (s'\<lparr>workers := (workers s)(w := Running fd' buffer h' todo after)\<rparr>)"
| worker_receives:
    "workers s w = Running (Some q) buffer h [] None \<Longrightarrow> queues s q = t # us \<Longrightarrow>
     worker_turn buffer (receipt t) = Some (buffer', Mq_receive n # calls) \<Longrightarrow>
     task_step s (s\<lparr>queues := (queues s)(q := us), taken := taken s @ [(w, q, t)],
       workers := (workers s)(w := Running (Some q) buffer' h calls None)\<rparr>)"
| worker_overruns:
    "workers s w = Running (Some q) buffer h [] None \<Longrightarrow> queues s q = t # us \<Longrightarrow>
     worker_turn buffer (receipt t) = None \<Longrightarrow>
     task_step s (s\<lparr>queues := (queues s)(q := us), taken := taken s @ [(w, q, t)],
       workers := (workers s)(w := Corrupted)\<rparr>)"
| worker_receives_error:
    "workers s w = Running fd buffer h [] None \<Longrightarrow>
     worker_turn buffer (-1, [], 0) = Some (buffer', Mq_receive n # calls) \<Longrightarrow>
     task_step s (s\<lparr>workers := (workers s)(w := Running fd buffer' h calls None)\<rparr>)"
| worker_exits:
    "workers s w = Running fd buffer h [] (Some e) \<Longrightarrow>
     task_step s (s\<lparr>workers := (workers s)(w := Finished e)\<rparr>)"
| worker_interrupted:
    "workers s w = Running fd buffer True todo None \<Longrightarrow> worker_cleanup = (e, calls) \<Longrightarrow>
     task_step s (s\<lparr>workers := (workers s)(w := Running fd buffer True calls (Some e))\<rparr>)"
| worker_killed:
    "workers s w = Running fd buffer h todo after \<Longrightarrow>
     task_step s (s\<lparr>workers := (workers s)(w := Slain)\<rparr>)"

section \<open>Invariant\<close>

definition sendable :: "task \<Rightarrow> bool" where
  "sendable t \<longleftrightarrow> 0 \<le> snd t \<and> snd t \<le> 31 \<and> length (fst t) \<le> MAX_MSG_SIZE \<and> NUL \<notin> set (fst t)"

lemma proper_sendable: "sendable t \<Longrightarrow> proper_task t \<longleftrightarrow> length (fst t) \<noteq> MAX_MSG_SIZE"
  by (auto simp: sendable_def proper_task_def)

text \<open>The messages taken from a queue, and those a worker took.\<close>

definition taken_from :: "task_system \<Rightarrow> nat \<Rightarrow> task list" where
  "taken_from s q = map (\<lambda>(v, r, t). t) (filter (\<lambda>(v, r, t). r = q) (taken s))"

definition taken_by :: "task_system \<Rightarrow> nat \<Rightarrow> task list" where
  "taken_by s w = map (\<lambda>(v, r, t). t) (filter (\<lambda>(v, r, t). v = w) (taken s))"

text \<open>
  What a queue holds, was given and had taken from it: in each class of priority the messages taken
  and those still queued are the messages given, in their order.
\<close>

definition queue_ok :: "task list \<Rightarrow> task list \<Rightarrow> task list \<Rightarrow> bool" where
  "queue_ok us g tk \<longleftrightarrow> sorted (map task_rank us) \<and> length us \<le> MAX_MESSAGES \<and> list_all sendable g \<and>
     (\<forall>k. filter (\<lambda>t. k = task_rank t) g = filter (\<lambda>t. k = task_rank t) (tk @ us))"

lemma queue_ok_empty [simp]: "queue_ok [] [] []"
  by (simp add: queue_ok_def)

lemma queue_ok_put:
  "queue_ok us g tk \<Longrightarrow> length us < MAX_MESSAGES \<Longrightarrow> sendable t \<Longrightarrow> queue_ok (mq_put t us) (g @ [t]) tk"
  by (simp add: queue_ok_def posix.put_sorted posix.put_length posix.put_behind_equals)

lemma queue_ok_take: "queue_ok (t # us) g tk \<Longrightarrow> queue_ok us g (tk @ [t])"
  by (simp add: queue_ok_def)

lemma queue_ok_head:
  assumes "queue_ok (t # us) g tk"
  shows "sendable t" "t \<in> set g"
proof -
  have "filter (\<lambda>u. task_rank t = task_rank u) g = filter (\<lambda>u. task_rank t = task_rank u) (tk @ t # us)"
    using assms by (simp add: queue_ok_def)
  moreover have "t \<in> set (filter (\<lambda>u. task_rank t = task_rank u) (tk @ t # us))" by simp
  ultimately have "t \<in> set (filter (\<lambda>u. task_rank t = task_rank u) g)" by simp
  then show "t \<in> set g" by simp
  then show "sendable t" using assms by (simp add: queue_ok_def list_all_iff)
qed

text \<open>The lines a worker prints for messages, and the lines its calls still print.\<close>

definition text_started :: bytes where
  "text_started = ''Worker started. Waiting for tasks...'' @ [CHR 0x0A]"

definition text_closed :: bytes where
  "text_closed = [CHR 0x0A] @ ''Queue closed and unlinked. Exiting.'' @ [CHR 0x0A]"

definition lines_for :: "task list \<Rightarrow> bytes list" where
  "lines_for ts = text_started # map (\<lambda>t. task_line (snd t) (fst t)) ts"

fun outs :: "mq_call list \<Rightarrow> bytes list" where
  "outs [] = []"
| "outs (Out l # cs) = l # outs cs"
| "outs (c # cs) = outs cs"

lemma lines_for_snoc [simp]: "butlast (lines_for (ts @ [t])) = lines_for ts"
  by (simp add: lines_for_def butlast_append)

lemma lines_for_not_Nil [simp]: "lines_for ts \<noteq> []"
  by (simp add: lines_for_def)

text \<open>
  A worker in its program has printed, or is about to print, the lines of all it took, and at most one
  is to come; one that was stopped has printed all of them but perhaps the last.
\<close>

definition stopped_ok :: "bytes list \<Rightarrow> task list \<Rightarrow> bool" where
  "stopped_ok ls ts \<longleftrightarrow> ls \<in> {lines_for ts, butlast (lines_for ts),
     lines_for ts @ [text_closed], butlast (lines_for ts) @ [text_closed]}"

fun worker_ok :: "nat \<Rightarrow> bytes list \<Rightarrow> task list \<Rightarrow> worker_pc \<Rightarrow> bool" where
  "worker_ok n ls ts (Running fd buffer h todo after) \<longleftrightarrow> length buffer = MAX_MSG_SIZE \<and>
     pred_option (\<lambda>q. q < n) fd \<and> length (outs todo) \<le> 1 \<and>
     (case after of
        None \<Rightarrow> ls @ outs todo = lines_for ts
      | Some e \<Rightarrow> ls @ outs todo \<in> {[], lines_for ts @ [text_closed], butlast (lines_for ts) @ [text_closed]} \<and>
          (ls @ outs todo = [] \<longrightarrow> ts = []))"
| "worker_ok n ls ts Ready \<longleftrightarrow> ls = [] \<and> ts = []"
| "worker_ok n ls ts Corrupted \<longleftrightarrow>
     ls = butlast (lines_for ts) \<and> ts \<noteq> [] \<and> length (fst (last ts)) = MAX_MSG_SIZE"
| "worker_ok n ls ts w \<longleftrightarrow> stopped_ok ls ts"

fun sender_ok :: "nat \<Rightarrow> sender \<Rightarrow> bool" where
  "sender_ok n (Opened q m p) \<longleftrightarrow> q < n \<and> 0 \<le> p \<and> p \<le> 31 \<and> NUL \<notin> set m"
| "sender_ok n _ \<longleftrightarrow> True"

definition tasks_ok :: "task_system \<Rightarrow> bool" where
  "tasks_ok s \<longleftrightarrow> (\<forall>q. queue_ok (queues s q) (given s q) (taken_from s q)) \<and>
     (\<forall>w. worker_ok (made s) (printed s w) (taken_by s w) (workers s w)) \<and>
     (\<forall>d. sender_ok (made s) (senders s d)) \<and> pred_option (\<lambda>q. q < made s) (named s)"

lemma last_to_come: "length bs \<le> 1 \<Longrightarrow> ls @ bs = xs \<Longrightarrow> ls = xs \<or> ls = butlast xs"
  by (cases bs) auto

lemma worker_stops:
  assumes "worker_ok n ls ts w"
  shows "stopped_ok ls ts"
proof (cases w)
  case (Running fd buffer h todo after)
  with assms have few: "length (outs todo) \<le> 1" by simp
  show ?thesis
  proof (cases after)
    case None
    with Running assms have "ls @ outs todo = lines_for ts" by simp
    from last_to_come [OF few this] show ?thesis unfolding stopped_ok_def by blast
  next
    case (Some e)
    with Running assms consider "ls = []" "ts = []"
      | "ls @ outs todo = lines_for ts @ [text_closed]"
      | "ls @ outs todo = butlast (lines_for ts) @ [text_closed]" by auto
    then show ?thesis
    proof cases
      case 1
      then show ?thesis by (simp add: stopped_ok_def lines_for_def)
    next
      case 2
      from last_to_come [OF few this] show ?thesis unfolding stopped_ok_def butlast_snoc by blast
    next
      case 3
      from last_to_come [OF few this] show ?thesis unfolding stopped_ok_def butlast_snoc by blast
    qed
  qed
qed (use assms in \<open>simp_all add: stopped_ok_def lines_for_def\<close>)

lemma dispatcher_message:
  assumes "Mq_send m p 0 \<in> set (snd (dispatcher_main argv 3 0))" "list_all (\<lambda>a. NUL \<notin> set a) argv"
  shows "0 \<le> p \<and> p \<le> 31 \<and> NUL \<notin> set m"
  using assms by (auto simp: dispatcher_main_def Let_def list_all_length split: if_splits)

lemma worker_turn_cases:
  assumes "length buffer = MAX_MSG_SIZE" "sendable t"
  shows "case worker_turn buffer (receipt t) of
      None \<Rightarrow> length (fst t) = MAX_MSG_SIZE
    | Some (b, calls) \<Rightarrow> proper_task t \<and> length b = MAX_MSG_SIZE \<and> calls = turn_calls t"
proof (cases "proper_task t")
  case True
  with worker_turn_proper [OF assms(1) True] show ?thesis by auto
next
  case False
  with assms(2) proper_sendable worker_turn_overruns [OF assms(1), of "fst t" "snd t"] show ?thesis
    by (auto simp: receipt_def)
qed

lemma worker_ok_later: "worker_ok n ls ts w \<Longrightarrow> n \<le> n' \<Longrightarrow> worker_ok n' ls ts w"
  by (cases w) (auto elim!: option.pred_mono_strong)

lemma sender_ok_later: "sender_ok n d \<Longrightarrow> n \<le> n' \<Longrightarrow> sender_ok n' d"
  by (cases "(n, d)" rule: sender_ok.cases) auto

lemma tasks_ok_start: "task_start s \<Longrightarrow> tasks_ok s"
  by (simp add: task_start_def tasks_ok_def taken_from_def taken_by_def)

lemma tasks_okD:
  assumes "tasks_ok s"
  shows "queue_ok (queues s q) (given s q) (taken_from s q)"
    "worker_ok (made s) (printed s w) (taken_by s w) (workers s w)"
    "sender_ok (made s) (senders s d)" "pred_option (\<lambda>q. q < made s) (named s)"
  using assms by (simp_all add: tasks_ok_def)

text \<open>A worker that changes its own state only.\<close>

lemma tasks_ok_worker:
  assumes "tasks_ok s" "worker_ok (made s) (printed s w) (taken_by s w) pc"
  shows "tasks_ok (s\<lparr>workers := (workers s)(w := pc)\<rparr>)"
  using assms by (simp add: tasks_ok_def taken_from_def taken_by_def)

text \<open>A worker that takes a message.\<close>

lemma tasks_ok_taken:
  assumes "tasks_ok s" "queues s q = t # us"
    and "worker_ok (made s) (printed s w) (taken_by s w @ [t]) pc"
  shows "tasks_ok (s\<lparr>queues := (queues s)(q := us), taken := taken s @ [(w, q, t)],
    workers := (workers s)(w := pc)\<rparr>)" (is "tasks_ok ?s")
proof -
  have from_q: "taken_from ?s r = taken_from s r @ (if r = q then [t] else [])" for r
    by (simp add: taken_from_def)
  have by_w: "taken_by ?s v = taken_by s v @ (if v = w then [t] else [])" for v
    by (simp add: taken_by_def)
  have "queue_ok us (given s q) (taken_from s q @ [t])"
    using tasks_okD(1) [OF assms(1), of q] assms(2) queue_ok_take by simp
  then show ?thesis using assms by (simp add: tasks_ok_def from_q by_w)
qed

lemma worker_call_frame:
  assumes "worker_call w c (fd, h, s) = (fd', h', s')"
  shows "queues s' = queues s" "given s' = given s" "taken s' = taken s" "senders s' = senders s"
    "made s \<le> made s'" "v \<noteq> w \<Longrightarrow> printed s' v = printed s v" "workers s' = workers s"
    "printed s' w @ outs todo = printed s w @ outs (c # todo)"
    "length (outs todo) \<le> length (outs (c # todo))"
  using assms by (cases c; auto split: if_splits option.splits)+

lemma worker_call_queues:
  assumes "worker_call w c (fd, h, s) = (fd', h', s')" "pred_option (\<lambda>q. q < made s) (named s)"
  shows "pred_option (\<lambda>q. q < made s') (named s')"
    "pred_option (\<lambda>q. q < made s) fd \<Longrightarrow> pred_option (\<lambda>q. q < made s') fd'"
proof -
  have "pred_option (\<lambda>q. q < made s') (named s') \<and>
      (pred_option (\<lambda>q. q < made s) fd \<longrightarrow> pred_option (\<lambda>q. q < made s') fd')"
  proof (cases "named s")
    case None
    with assms show ?thesis by (cases c) (auto split: if_splits)
  next
    case (Some q)
    have "named s' = None \<or> named s' = Some q" "fd' \<in> {None, fd, Some q}" "made s' = made s"
      using assms(1) Some by (cases c; auto split: if_splits)+
    with assms(2) Some show ?thesis by auto
  qed
  then show "pred_option (\<lambda>q. q < made s') (named s')"
    "pred_option (\<lambda>q. q < made s) fd \<Longrightarrow> pred_option (\<lambda>q. q < made s') fd'" by blast+
qed

lemma worker_call_ok:
  assumes "tasks_ok s" "workers s w = Running fd buffer h (c # todo) after"
    "worker_call w c (fd, h, s) = (fd', h', s')"
  shows "tasks_ok (s'\<lparr>workers := (workers s)(w := Running fd' buffer h' todo after)\<rparr>)" (is "tasks_ok ?s")
proof -
  note frame = worker_call_frame [OF assms(3)]
  note nums = worker_call_queues [OF assms(3) tasks_okD(4) [OF assms(1)]]
  have by_v: "taken_by ?s v = taken_by s v" for v by (simp add: taken_by_def frame(3))
  have from_q: "taken_from ?s q = taken_from s q" for q by (simp add: taken_from_def frame(3))
  have "worker_ok (made s) (printed s w) (taken_by s w) (Running fd buffer h (c # todo) after)"
    using tasks_okD(2) [OF assms(1), of w] assms(2) by simp
  then have "worker_ok (made s') (printed s' w) (taken_by s w) (Running fd' buffer h' todo after)"
    unfolding worker_ok.simps frame(8) using frame(9) [of todo] nums(2) by simp
  moreover have "worker_ok (made s') (printed s v) (taken_by s v) (workers s v)" for v
    using tasks_okD(2) [OF assms(1)] frame(5) by (rule worker_ok_later)
  moreover have "sender_ok (made s') (senders s d)" for d
    using tasks_okD(3) [OF assms(1)] frame(5) by (rule sender_ok_later)
  ultimately show ?thesis
    using tasks_okD(1) [OF assms(1)] nums(1) unfolding tasks_ok_def by_v from_q
    by (simp add: frame)
qed

lemma tasks_ok_step:
  assumes "task_step s t" "tasks_ok s"
  shows "tasks_ok t"
  using assms
proof (cases rule: task_step.cases)
  case (dispatcher_opens d q argv m p)
  then show ?thesis
    using assms(2) dispatcher_message [OF dispatcher_opens(5,4)]
    by (auto simp: tasks_ok_def taken_from_def taken_by_def)
next
  case (dispatcher_sends d q m p fl mx sz cur)
  then have "sender_ok (made s) (Opened q m p)" using assms(2) by (metis tasks_ok_def)
  with dispatcher_sends assms(2) show ?thesis
    by (auto simp: tasks_ok_def worker_attr_def sendable_def taken_from_def taken_by_def
        intro!: queue_ok_put)
next
  case (worker_begins w buffer opened after calls)
  then have "worker_ok (made s) (printed s w) (taken_by s w) Ready"
    using tasks_okD(2) [OF assms(2), of w] by simp
  with worker_begins show ?thesis
    by (auto simp: worker_start_def Let_def lines_for_def text_started_def split: if_splits
        intro!: tasks_ok_worker [OF assms(2)])
next
  case (worker_calls w fd buffer h c todo after fd' h' s')
  then show ?thesis using worker_call_ok [OF assms(2)] by blast
next
  case (worker_receives w q buffer h u us buffer' n calls)
  have here: "worker_ok (made s) (printed s w) (taken_by s w) (Running (Some q) buffer h [] None)"
    using tasks_okD(2) [OF assms(2), of w] worker_receives by simp
  have "sendable u" using tasks_okD(1) [OF assms(2), of q] worker_receives queue_ok_head by simp
  with worker_turn_cases [of buffer u] here worker_receives
  have "worker_ok (made s) (printed s w) (taken_by s w @ [u]) (Running (Some q) buffer' h calls None)"
    by (auto simp: turn_calls_def lines_for_def)
  with worker_receives tasks_ok_taken [OF assms(2)] show ?thesis by blast
next
  case (worker_overruns w q buffer h u us)
  then have here: "worker_ok (made s) (printed s w) (taken_by s w) (Running (Some q) buffer h [] None)"
    using tasks_okD(2) [OF assms(2), of w] by simp
  have "sendable u" using tasks_okD(1) [OF assms(2), of q] worker_overruns queue_ok_head by simp
  with worker_turn_cases [of buffer u] here worker_overruns
  have "worker_ok (made s) (printed s w) (taken_by s w @ [u]) Corrupted" by simp
  with worker_overruns tasks_ok_taken [OF assms(2)] show ?thesis by blast
next
  case (worker_receives_error w fd buffer h buffer' n calls)
  then have "worker_ok (made s) (printed s w) (taken_by s w) (Running fd buffer h [] None)"
    using tasks_okD(2) [OF assms(2), of w] by simp
  with worker_receives_error show ?thesis
    by (auto simp: worker_turn_def intro!: tasks_ok_worker [OF assms(2)])
next
  case (worker_exits w fd buffer h e)
  then show ?thesis
    using tasks_ok_worker [OF assms(2)] worker_stops [OF tasks_okD(2) [OF assms(2), of w]] by simp
next
  case (worker_interrupted w fd buffer todo e calls)
  then have here: "worker_ok (made s) (printed s w) (taken_by s w) (Running fd buffer True todo None)"
    using tasks_okD(2) [OF assms(2), of w] by simp
  then have "printed s w @ outs todo = lines_for (taken_by s w)" "length (outs todo) \<le> 1" by simp_all
  then have "printed s w \<in> {lines_for (taken_by s w), butlast (lines_for (taken_by s w))}"
    by (cases "outs todo") (auto, metis butlast_snoc)
  with here worker_interrupted show ?thesis
    by (auto simp: worker_cleanup_def text_closed_def intro!: tasks_ok_worker [OF assms(2)])
next
  case (worker_killed w fd buffer h todo after)
  then show ?thesis
    using tasks_ok_worker [OF assms(2)] worker_stops [OF tasks_okD(2) [OF assms(2), of w]] by simp
qed (auto simp: tasks_ok_def taken_from_def taken_by_def)

interpretation tasks: inductive_invariant task_start task_step tasks_ok
  by unfold_locales (erule tasks_ok_start, erule (1) tasks_ok_step)

section \<open>A queue that lost its name\<close>

text \<open>No name, no worker and no dispatcher leads to the queue any more.\<close>

definition abandoned :: "nat \<Rightarrow> task_system \<Rightarrow> bool" where
  "abandoned q s \<longleftrightarrow> q < made s \<and> named s \<noteq> Some q \<and>
     (\<forall>w b h todo e. workers s w \<noteq> Running (Some q) b h todo e) \<and> (\<forall>d m p. senders s d \<noteq> Opened q m p)"

lemma worker_call_elsewhere:
  assumes "worker_call w c (fd, h, s) = (fd', h', s')" "q < made s" "named s \<noteq> Some q" "fd \<noteq> Some q"
  shows "q < made s'" "named s' \<noteq> Some q" "fd' \<noteq> Some q"
  using assms by (cases c; auto split: if_splits option.splits)+

lemma abandoned_step:
  assumes "task_step s t" "abandoned q s"
  shows "abandoned q t \<and> queues t q = queues s q \<and> taken_from t q = taken_from s q"
  using assms
proof (cases rule: task_step.cases)
  case (worker_calls w fd buffer h c todo after fd' h' s')
  note frame = worker_call_frame [OF worker_calls(3)]
  have "fd \<noteq> Some q" using worker_calls(2) assms(2) by (auto simp: abandoned_def)
  with worker_call_elsewhere [OF worker_calls(3)] assms(2) worker_calls(1) show ?thesis
    by (auto simp: abandoned_def frame taken_from_def)
qed (auto simp: abandoned_def taken_from_def)

lemma abandoned_for_ever:
  assumes "reach (\<lambda>x. x = s) task_step t" "abandoned q s"
  shows "abandoned q t \<and> queues t q = queues s q \<and> taken_from t q = taken_from s q"
  using assms(1)
proof (induction rule: reach.induct)
  case (reach_step t u)
  with abandoned_step [of t u q] show ?case by simp
qed (simp add: assms(2))

section \<open>Properties\<close>

text \<open>
  C27: tasks are processed by priority.  A worker starts, whatever waited under the queue's name
  before, and while it is not receiving, tasks are dispatched in any order, at most as many as the queue holds: the worker prints all
  of these, each once, in the order of descending priority, and among equals in the order in which
  they were dispatched, and nothing that waited before its start.  A worker that is already waiting
  prints the first task at once, whatever its priority, and the others, sent while it sleeps, in
  that order.
\<close>

theorem tasks_processed_by_priority:
  assumes "list_all proper_task (t # ts)" "length ts \<le> MAX_MESSAGES" "length buffer = MAX_MSG_SIZE"
  shows "serve prog buffer (map Dispatched ts @ replicate (length ts) Turn)
      (queue_effect (snd (worker_start 3)) old) =
    Some (concat (map turn_calls (sort_key (\<lambda>t. - snd t) ts))) \<and>
    serve prog buffer (Dispatched t # Turn # map Dispatched ts @ replicate (length ts) Turn)
      (queue_effect (snd (worker_start 3)) old) =
    Some (turn_calls t @ concat (map turn_calls (sort_key (\<lambda>t. - snd t) ts)))"
proof -
  have started: "queue_effect (snd (worker_start 3)) old = []" by (simp add: worker_start_def)
  have rank: "task_rank = (\<lambda>t. - snd t)" by (simp add: fun_eq_iff task_rank_def)
  from assms(1) have t: "proper_task t" and ts: "list_all proper_task ts" by simp_all
  from worker_turn_proper [OF assms(3) t] obtain b where
    b: "worker_turn buffer (receipt t) = Some (b, turn_calls t)" "length b = MAX_MSG_SIZE" by blast
  have "dispatch prog t [] = [t]" using dispatch_puts [OF t] by simp
  with b serve_sorted [OF b(2) ts, of prog] serve_sorted [OF assms(3) ts, of prog] show ?thesis
    unfolding started rank by (simp add: receipt_def)
qed

theorem tasks_processed_by_priority_witness:
  "serve ''d'' (replicate 256 NUL) ([Dispatched (''report'', 10), Turn] @
      map Dispatched [(''backup'', 20), (''CRITICAL'', 30)] @ [Turn, Turn])
      (queue_effect (snd (worker_start 3)) [(''old'', 31)]) =
    Some (turn_calls (''report'', 10) @ turn_calls (''CRITICAL'', 30) @ turn_calls (''backup'', 20))"
  using tasks_processed_by_priority [of "(''report'', 10)" "[(''backup'', 20), (''CRITICAL'', 30)]"
      "replicate 256 NUL" "''d''" "[(''old'', 31)]"]
  by (simp add: proper_task_def MAX_MESSAGES_def MAX_MSG_SIZE_def insort_key_def numeral_2_eq_2
      del: serve.simps)

text \<open>
  C28: nothing is overtaken in a queue, and a worker prints what it took, however dispatchers and workers
  interleave and wherever signals hit the workers.  A queue never holds more than ten messages and always has the highest
  priority in front; in each class of priority the messages handed out by it, followed by those still
  in it, are the messages sent to it, in their order.  A worker that is back at \<^verbatim>\<open>mq_receive\<close> has printed
  that it started and then the lines of all messages it took, whole and in their order.  In general
  the line of the last one may be missing: it is not printed yet, or a signal hit the worker with the
  message in hand, or the message has 256 bytes and has corrupted the worker.  A worker that was
  interrupted adds its last line.
\<close>

theorem tasks_kept_in_turn:
  assumes "reach task_start task_step s"
  shows "length (queues s q) \<le> 10 \<and> sorted_wrt (\<lambda>t u. snd u \<le> snd t) (queues s q) \<and>
    (\<forall>p. filter (\<lambda>t. snd t = p) (given s q) = filter (\<lambda>t. snd t = p) (taken_from s q @ queues s q)) \<and>
    (let ls = (''Worker started. Waiting for tasks...'' @ [CHR 0x0A]) #
          map (\<lambda>t. task_line (snd t) (fst t)) (taken_by s w);
         closed = [CHR 0x0A] @ ''Queue closed and unlinked. Exiting.'' @ [CHR 0x0A] in
      printed s w \<in> {ls, butlast ls, ls @ [closed], butlast ls @ [closed]} \<and>
      (\<forall>fd b h. workers s w = Running fd b h [] None \<longrightarrow> printed s w = ls) \<and>
      (workers s w = Corrupted \<longrightarrow> printed s w = butlast ls \<and> length (fst (last (taken_by s w))) = 256))"
proof -
  have ok: "tasks_ok s" using assms by (rule tasks.holds_reachable)
  note q = tasks_okD(1) [OF ok, of q] and w = tasks_okD(2) [OF ok, of w]
  have by_rank: "filter (\<lambda>t. snd t = p) ts = filter (\<lambda>t. - p = task_rank t) ts" for p ts
    by (rule filter_cong) (auto simp: task_rank_def)
  have "filter (\<lambda>t. snd t = p) (given s q) = filter (\<lambda>t. snd t = p) (taken_from s q @ queues s q)" for p
    unfolding by_rank using q by (simp add: queue_ok_def)
  moreover have "sorted_wrt (\<lambda>t u. snd u \<le> snd t) (queues s q)" "length (queues s q) \<le> 10"
    using q by (simp_all add: queue_ok_def sorted_map task_rank_def MAX_MESSAGES_def)
  moreover have "stopped_ok (printed s w) (taken_by s w)" using w by (rule worker_stops)
  moreover have "workers s w = Running fd b h [] None \<Longrightarrow> printed s w = lines_for (taken_by s w)"
    "workers s w = Corrupted \<Longrightarrow>
      printed s w = butlast (lines_for (taken_by s w)) \<and> length (fst (last (taken_by s w))) = 256"
    for fd b h
    using w by (simp_all add: MAX_MSG_SIZE_def)
  ultimately show ?thesis
    by (simp add: Let_def stopped_ok_def lines_for_def text_started_def text_closed_def)
qed

section \<open>Example run\<close>

text \<open>
  A worker creates the queue, a dispatcher sends, and the worker is killed before it receives; then a
  second worker starts.
\<close>

definition tasks_at ::
    "nat option \<Rightarrow> nat \<Rightarrow> worker_pc \<Rightarrow> worker_pc \<Rightarrow> sender \<Rightarrow> task list \<Rightarrow> task_system" where
  "tasks_at n m w0 w1 d us = \<lparr>queues = (\<lambda>_. [])(0 := us), named = n, made = m,
     senders = (\<lambda>_. Fresh)(0 := d), workers = (\<lambda>_. Ready)(0 := w0, Suc 0 := w1),
     given = (\<lambda>_. [])(0 := us), taken = [], printed = (\<lambda>_. [])\<rparr>"

definition empty_buffer :: bytes where
  "empty_buffer = replicate MAX_MSG_SIZE NUL"

text \<open>What is left of the start of a worker behind its first two calls.\<close>

definition start_rest :: "mq_call list" where
  "start_rest = [Catch_sigint, Out text_started]"

lemma worker_start_three: "worker_start 3 = (None, Mq_unlink # Mq_open 3 # start_rest)"
  by (simp add: worker_start_def start_rest_def text_started_def)

lemma killed_worker_run:
  "reach task_start task_step (tasks_at (Some 0) 1 Slain
    (Running None empty_buffer False (Mq_unlink # Mq_open 3 # start_rest) None) (Ended 0) [(''job'', 5)])"
proof -
  let ?at = tasks_at
  let ?w = "\<lambda>fd todo. Running fd empty_buffer False todo None"
  have buffer: "length empty_buffer = MAX_MSG_SIZE" by (simp add: empty_buffer_def)
  have fresh: "task_start (?at None 0 Ready Ready Fresh [])"
    by (simp add: task_start_def tasks_at_def fun_eq_iff)
  have "task_step (?at None 0 Ready Ready Fresh [])
      (?at None 0 (?w None (Mq_unlink # Mq_open 3 # start_rest)) Ready Fresh [])"
    using worker_begins [of "?at None 0 Ready Ready Fresh []" 0, OF _ buffer worker_start_three]
    by (simp add: tasks_at_def fun_upd_twist)
  moreover have "task_step (?at None 0 (?w None (Mq_unlink # Mq_open 3 # start_rest)) Ready Fresh [])
      (?at None 0 (?w None (Mq_open 3 # start_rest)) Ready Fresh [])"
    using task_step.worker_calls [of "?at None 0 (?w None (Mq_unlink # Mq_open 3 # start_rest)) Ready Fresh []"
        0 None empty_buffer False Mq_unlink "Mq_open 3 # start_rest" None None False]
    by (simp add: tasks_at_def fun_upd_twist)
  moreover have "task_step (?at None 0 (?w None (Mq_open 3 # start_rest)) Ready Fresh [])
      (?at (Some 0) 1 (?w (Some 0) start_rest) Ready Fresh [])"
    using task_step.worker_calls [of "?at None 0 (?w None (Mq_open 3 # start_rest)) Ready Fresh []"
        0 None empty_buffer False "Mq_open 3" start_rest None "Some 0" False]
    by (simp add: tasks_at_def fun_upd_twist)
  moreover have "task_step (?at (Some 0) 1 (?w (Some 0) start_rest) Ready Fresh [])
      (?at (Some 0) 1 (?w (Some 0) start_rest) Ready (Opened 0 ''job'' 5) [])"
  proof -
    have five: "atoi (show_int 5) = 5" by (rule atoi_show_int) (simp_all add: INT_MIN_def INT_MAX_def)
    have "Mq_send ''job'' 5 0 \<in> set (snd (dispatcher_main [''d'', show_int 5, ''job''] 3 0))"
      using five by (simp add: dispatcher_main_def Let_def)
    moreover have "list_all (\<lambda>a. NUL \<notin> set a) [''d'', show_int 5, ''job'']" by code_simp
    ultimately show ?thesis
      using dispatcher_opens [of "?at (Some 0) 1 (?w (Some 0) start_rest) Ready Fresh []" 0 0
          "[''d'', show_int 5, ''job'']" "''job''" 5]
      by (simp add: tasks_at_def)
  qed
  moreover have "task_step (?at (Some 0) 1 (?w (Some 0) start_rest) Ready (Opened 0 ''job'' 5) [])
      (?at (Some 0) 1 (?w (Some 0) start_rest) Ready (Ended 0) [(''job'', 5)])"
    using dispatcher_sends [of "?at (Some 0) 1 (?w (Some 0) start_rest) Ready (Opened 0 ''job'' 5) []"
        0 0 "''job''" 5 0 MAX_MESSAGES MAX_MSG_SIZE 0]
    by (simp add: tasks_at_def worker_attr_def MAX_MESSAGES_def MAX_MSG_SIZE_def)
  moreover have "task_step (?at (Some 0) 1 (?w (Some 0) start_rest) Ready (Ended 0) [(''job'', 5)])
      (?at (Some 0) 1 Slain Ready (Ended 0) [(''job'', 5)])"
    using worker_killed [of "?at (Some 0) 1 (?w (Some 0) start_rest) Ready (Ended 0) [(''job'', 5)]"
        0 "Some 0" empty_buffer False start_rest None]
    by (simp add: tasks_at_def fun_upd_twist)
  moreover have "task_step (?at (Some 0) 1 Slain Ready (Ended 0) [(''job'', 5)])
      (?at (Some 0) 1 Slain (?w None (Mq_unlink # Mq_open 3 # start_rest)) (Ended 0) [(''job'', 5)])"
    using worker_begins [of "?at (Some 0) 1 Slain Ready (Ended 0) [(''job'', 5)]" "Suc 0",
        OF _ buffer worker_start_three]
    by (simp add: tasks_at_def)
  ultimately show ?thesis using fresh by (meson reach.intros)
qed

text \<open>
  C29: a task reported as sent is dropped by the start of a worker.  The queue still has its name and holds
  the task, whose dispatcher has ended with success, after its first worker was killed.  The first
  call of the next worker, its \<^verbatim>\<open>mq_unlink\<close>, takes the name away, and whatever happens from then on,
  the task stays in a queue no process will ever read; without that call the worker would have opened
  this queue, as the README says it does.
\<close>

theorem task_lost_to_old_queue:
  "\<exists>s t b rest. reach task_start task_step s \<and> senders s 0 = Ended 0 \<and> named s = Some 0 \<and>
    queues s 0 = [(''job'', 5)] \<and> workers s 1 = Running None b False (Mq_unlink # rest) None \<and>
    task_step s t \<and> workers t 1 = Running None b False rest None \<and> named t = None \<and>
    {(queues u 0, taken_from u 0) | u. reach (\<lambda>x. x = t) task_step u} = {([(''job'', 5)], [])} \<and>
    fst (worker_call 1 (Mq_open 3) (None, False, s)) = Some 0"
proof -
  let ?rest = "Mq_open 3 # start_rest"
  let ?w = "\<lambda>todo. Running None empty_buffer False todo None"
  define s where "s = tasks_at (Some 0) 1 Slain (?w (Mq_unlink # ?rest)) (Ended 0) [(''job'', 5)]"
  define t where "t = tasks_at None 1 Slain (?w ?rest) (Ended 0) [(''job'', 5)]"
  have step: "task_step s t"
    using task_step.worker_calls [of s 1 None empty_buffer False Mq_unlink ?rest None None False] by (simp add: s_def t_def tasks_at_def)
  have gone: "abandoned 0 t" by (auto simp: abandoned_def t_def tasks_at_def)
  have fields: "queues t 0 = [(''job'', 5)]" "taken_from t 0 = []" "workers t 1 = ?w ?rest" "named t = None"
    "senders s 0 = Ended 0" "named s = Some 0" "queues s 0 = [(''job'', 5)]"
    "workers s 1 = ?w (Mq_unlink # ?rest)"
    by (simp_all add: s_def t_def tasks_at_def taken_from_def)
  have stays: "queues u 0 = [(''job'', 5)]" "taken_from u 0 = []" if "reach (\<lambda>x. x = t) task_step u" for u
    using abandoned_for_ever [OF that gone] fields(1,2) by simp_all
  have now: "reach (\<lambda>x. x = t) task_step t" by (rule reach_init) simp
  have "{(queues u 0, taken_from u 0) | u. reach (\<lambda>x. x = t) task_step u} = {([(''job'', 5)], [])}"
    by (rule set_eqI) (auto simp: stays fields(1,2) intro!: exI [of _ t] now)
  moreover have "reach task_start task_step s" unfolding s_def by (rule killed_worker_run)
  ultimately show ?thesis using fields step
    by - (rule exI [of _ s], rule exI [of _ t], rule exI [of _ empty_buffer], rule exI [of _ ?rest], simp)
qed

theorem tasks_kept_in_turn_witness:
  "\<exists>s. reach task_start task_step s \<and> queues s 0 = [(''job'', 5)] \<and> sorted_wrt (\<lambda>t u. snd u \<le> snd t) (queues s 0)"
proof -
  let ?s = "tasks_at (Some 0) 1 Slain
    (Running None empty_buffer False (Mq_unlink # Mq_open 3 # start_rest) None) (Ended 0) [(''job'', 5)]"
  have "sorted_wrt (\<lambda>t u. snd u \<le> snd t) (queues ?s 0)"
    using tasks_kept_in_turn [OF killed_worker_run, of 0 0] by blast
  then show ?thesis using killed_worker_run
    by (intro exI [of _ ?s] conjI) (assumption | simp add: tasks_at_def)+
qed

end
