(* ===== verification/Threads.thy ===== *)
theory Threads
  imports C_Library "HOL-Library.Sublist"
begin

text \<open>
  The thread programs of \<^verbatim>\<open>04-thread\<close>: the counter of \<^verbatim>\<open>race-condition\<close> under its mutex, the
  producer and the consumer of \<^verbatim>\<open>condition-var\<close>, and the readers and writers of \<^verbatim>\<open>r-w-lock\<close>, each
  as a step relation whose steps are the single accesses to shared data and the single operations on
  locks.
\<close>

section \<open>The counter\<close>

definition NUM_THREADS :: nat where "NUM_THREADS = 3"
definition INCREMENTS :: nat where "INCREMENTS = 1000000"

text \<open>
  Where a thread of \<^verbatim>\<open>increment_counter\<close> stands: before the lock (where the loop test is made),
  before reading \<^verbatim>\<open>counter\<close>, before writing it with the value it read, and before the unlock.
\<close>

datatype inc_pc = At_lock | At_load | At_store int | At_unlock

record inc_thread =
  loop_i :: nat
  inc_pc :: inc_pc

record inc_state =
  counter :: int
  counter_mutex :: "nat option"
  inc_threads :: "inc_thread list"

definition increment_counter :: "nat \<Rightarrow> inc_state \<Rightarrow> inc_state option" where
  "increment_counter t s =
     (let th = inc_threads s ! t in
      if length (inc_threads s) \<le> t then None else
      case inc_pc th of
        At_lock \<Rightarrow>
          if loop_i th < INCREMENTS \<and> counter_mutex s = None
          then Some (s\<lparr>counter_mutex := Some t,
            inc_threads := (inc_threads s)[t := th\<lparr>inc_pc := At_load\<rparr>]\<rparr>)
          else None
      | At_load \<Rightarrow>
          Some (s\<lparr>inc_threads := (inc_threads s)[t := th\<lparr>inc_pc := At_store (counter s)\<rparr>]\<rparr>)
      | At_store v \<Rightarrow>
          Some (s\<lparr>counter := to_int32 (v + 1),
            inc_threads := (inc_threads s)[t := th\<lparr>inc_pc := At_unlock\<rparr>]\<rparr>)
      | At_unlock \<Rightarrow>
          Some (s\<lparr>counter_mutex := None,
            inc_threads := (inc_threads s)[t := th\<lparr>inc_pc := At_lock, loop_i := loop_i th + 1\<rparr>]\<rparr>))"

definition inc_main :: inc_state where
  "inc_main = \<lparr>counter = 0, counter_mutex = None,
     inc_threads = replicate NUM_THREADS \<lparr>loop_i = 0, inc_pc = At_lock\<rparr>\<rparr>"

text \<open>
  The rest of \<^verbatim>\<open>main\<close>: \<open>rc i\<close> is the result of the \<open>i\<close>-th \<^verbatim>\<open>pthread_create\<close>, and \<open>s\<close> the state when
  the last \<^verbatim>\<open>pthread_join\<close> returns.  The result is the exit status, the output and the complaints.
\<close>

definition race_main :: "(nat \<Rightarrow> int) \<Rightarrow> inc_state \<Rightarrow> int \<times> bytes list \<times> bytes list" where
  "race_main rc s =
     (if list_ex (\<lambda>i. rc i \<noteq> 0) [0..<NUM_THREADS] then (1, [], [''Error creating thread''])
      else (0, [''Expected counter value: '' @ show_int (int (NUM_THREADS * INCREMENTS)) @ [CHR 0x0A],
        ''Actual counter value  : '' @ show_int (counter s) @ [CHR 0x0A]], []))"

inductive inc_step :: "inc_state \<Rightarrow> inc_state \<Rightarrow> bool" where
  inc_stepI: "increment_counter t s = Some s' \<Longrightarrow> inc_step s s'"

text \<open>The increments a thread has made, and what is left of its work.\<close>

definition increments_done :: "inc_thread \<Rightarrow> nat" where
  "increments_done th = loop_i th + of_bool (inc_pc th = At_unlock)"

fun steps_left :: "inc_thread \<Rightarrow> nat" where
  "steps_left th = 4 * (INCREMENTS - loop_i th) -
     (case inc_pc th of At_lock \<Rightarrow> 0 | At_load \<Rightarrow> 1 | At_store v \<Rightarrow> 2 | At_unlock \<Rightarrow> 3)"

declare steps_left.simps [simp del]

definition work :: "inc_state \<Rightarrow> nat" where
  "work s = sum_list (map steps_left (inc_threads s))"

definition inc_thread_ok :: "inc_state \<Rightarrow> nat \<Rightarrow> bool" where
  "inc_thread_ok s t \<longleftrightarrow>
     (let th = inc_threads s ! t in
      loop_i th \<le> INCREMENTS \<and>
      (inc_pc th \<noteq> At_lock \<longrightarrow> loop_i th < INCREMENTS) \<and>
      (inc_pc th \<noteq> At_lock \<longleftrightarrow> counter_mutex s = Some t) \<and>
      (\<forall>v. inc_pc th = At_store v \<longrightarrow> v = counter s))"

definition inc_ok :: "inc_state \<Rightarrow> bool" where
  "inc_ok s \<longleftrightarrow> length (inc_threads s) = NUM_THREADS \<and>
     counter s = int (sum_list (map increments_done (inc_threads s))) \<and>
     (\<forall>t. counter_mutex s = Some t \<longrightarrow> t < NUM_THREADS) \<and>
     (\<forall>t < NUM_THREADS. inc_thread_ok s t)"

lemma sum_map_update:
  fixes f :: "'a \<Rightarrow> nat"
  shows "t < length xs \<Longrightarrow> sum_list (map f (xs[t := x])) + f (xs ! t) = sum_list (map f xs) + f x"
proof (induction xs arbitrary: t)
  case Nil
  then show ?case by simp
next
  case (Cons y xs)
  show ?case
  proof (cases t)
    case 0
    then show ?thesis by simp
  next
    case (Suc n)
    then show ?thesis using Cons.IH [of n] Cons.prems by simp
  qed
qed

lemma sum_map_member: "t < length xs \<Longrightarrow> f (xs ! t) \<le> sum_list (map (f :: 'a \<Rightarrow> nat) xs)"
  by (metis elem_le_sum_list length_map nth_map)

lemma increments_bound:
  assumes "\<forall>t < length ths. loop_i (ths ! t) \<le> n \<and> (inc_pc (ths ! t) = At_unlock \<longrightarrow> loop_i (ths ! t) < n)"
  shows "sum_list (map increments_done ths) \<le> length ths * n"
proof -
  have "increments_done th \<le> n" if "th \<in> set ths" for th
    using assms that by (auto simp: increments_done_def in_set_conv_nth)
  then have "sum_list (map increments_done ths) \<le> sum_list (map (\<lambda>_. n) ths)"
    by (intro sum_list_mono)
  then show ?thesis by (simp add: sum_list_triv)
qed

lemma to_int32_small: "0 \<le> v \<Longrightarrow> v \<le> 3000001 \<Longrightarrow> to_int32 v = v"
  by (rule to_int32_id) (simp_all add: INT_MIN_def INT_MAX_def)

text \<open>
  The update of one thread and of the shared variables: what is to show of the thread that moves, and
  that the others do not depend on what changed.
\<close>

lemma inc_ok_update:
  assumes "inc_ok s" "t < NUM_THREADS"
    and t: "inc_thread_ok (s\<lparr>counter := c, counter_mutex := m, inc_threads := (inc_threads s)[t := th]\<rparr>) t"
    and c: "c + int (increments_done (inc_threads s ! t)) = counter s + int (increments_done th)"
    and m: "m = None \<or> m = Some t" "counter_mutex s = None \<or> counter_mutex s = Some t"
  shows "inc_ok (s\<lparr>counter := c, counter_mutex := m, inc_threads := (inc_threads s)[t := th]\<rparr>)"
proof -
  have len: "length (inc_threads s) = NUM_THREADS" using assms(1) by (simp add: inc_ok_def)
  have "sum_list (map increments_done ((inc_threads s)[t := th])) + increments_done (inc_threads s ! t)
      = sum_list (map increments_done (inc_threads s)) + increments_done th"
    using sum_map_update [of t "inc_threads s" increments_done th] len assms(2) by simp
  moreover have "counter s = int (sum_list (map increments_done (inc_threads s)))"
    using assms(1) by (simp add: inc_ok_def)
  ultimately have "c = int (sum_list (map increments_done ((inc_threads s)[t := th])))"
    using c by linarith
  moreover have "inc_thread_ok (s\<lparr>counter := c, counter_mutex := m,
      inc_threads := (inc_threads s)[t := th]\<rparr>) u" if "u < NUM_THREADS" for u
  proof (cases "u = t")
    case True
    then show ?thesis using t by simp
  next
    case False
    have "inc_thread_ok s u" using assms(1) that by (simp add: inc_ok_def)
    then show ?thesis using False m by (auto simp: inc_thread_ok_def Let_def)
  qed
  ultimately show ?thesis using assms(1,2) m(1) by (auto simp: inc_ok_def)
qed

lemma work_update:
  assumes "t < length (inc_threads s)" "steps_left th < steps_left (inc_threads s ! t)"
  shows "work (s\<lparr>counter := c, counter_mutex := m, inc_threads := (inc_threads s)[t := th]\<rparr>) < work s"
  using sum_map_update [OF assms(1), of steps_left th] assms(2) by (simp add: work_def)

text \<open>One move of thread \<open>t\<close>, as far as \<open>inc_ok_update\<close> and \<open>work_update\<close> need to know it.\<close>

definition inc_move :: "nat \<Rightarrow> inc_state \<Rightarrow> inc_state \<Rightarrow> bool" where
  "inc_move t s s' \<longleftrightarrow> (\<exists>c m th.
     s' = s\<lparr>counter := c, counter_mutex := m, inc_threads := (inc_threads s)[t := th]\<rparr> \<and>
     inc_thread_ok s' t \<and>
     c + int (increments_done (inc_threads s ! t)) = counter s + int (increments_done th) \<and>
     (m = None \<or> m = Some t) \<and> (counter_mutex s = None \<or> counter_mutex s = Some t) \<and>
     steps_left th < steps_left (inc_threads s ! t))"

lemma inc_moveI:
  assumes "s' = s\<lparr>counter := c, counter_mutex := m, inc_threads := (inc_threads s)[t := th]\<rparr>"
    "inc_thread_ok s' t"
    "c + int (increments_done (inc_threads s ! t)) = counter s + int (increments_done th)"
    "m = None \<or> m = Some t" "counter_mutex s = None \<or> counter_mutex s = Some t"
    "steps_left th < steps_left (inc_threads s ! t)"
  shows "inc_move t s s'"
  using assms unfolding inc_move_def by blast

lemmas inc_move_simps = increment_counter_def inc_thread_ok_def Let_def increments_done_def
  steps_left.simps

lemma lock_moves:
  assumes "increment_counter t s = Some s'" "inc_pc (inc_threads s ! t) = At_lock" "inc_thread_ok s t"
  shows "inc_move t s s'"
  by (rule inc_moveI [where c = "counter s" and m = "Some t" and
        th = "(inc_threads s ! t)\<lparr>inc_pc := At_load\<rparr>"])
    (use assms in \<open>auto simp: inc_move_simps split: if_splits\<close>)

lemma load_moves:
  assumes "increment_counter t s = Some s'" "inc_pc (inc_threads s ! t) = At_load" "inc_thread_ok s t"
  shows "inc_move t s s'"
  by (rule inc_moveI [where c = "counter s" and m = "counter_mutex s" and
        th = "(inc_threads s ! t)\<lparr>inc_pc := At_store (counter s)\<rparr>"])
    (use assms in \<open>auto simp: inc_move_simps split: if_splits\<close>)

lemma store_moves:
  assumes "increment_counter t s = Some s'" "inc_pc (inc_threads s ! t) = At_store v"
    "inc_thread_ok s t" "0 \<le> counter s" "counter s \<le> 3000000"
  shows "inc_move t s s'"
proof -
  have "to_int32 (counter s + 1) = counter s + 1" using assms(4,5) by (intro to_int32_small) simp_all
  then show ?thesis
    by (intro inc_moveI [where c = "counter s + 1" and m = "counter_mutex s" and
          th = "(inc_threads s ! t)\<lparr>inc_pc := At_unlock\<rparr>"])
      (use assms in \<open>auto simp: inc_move_simps split: if_splits\<close>)
qed

lemma unlock_moves:
  assumes "increment_counter t s = Some s'" "inc_pc (inc_threads s ! t) = At_unlock" "inc_thread_ok s t"
  shows "inc_move t s s'"
  by (rule inc_moveI [where c = "counter s" and m = None and
        th = "(inc_threads s ! t)\<lparr>inc_pc := At_lock, loop_i := loop_i (inc_threads s ! t) + 1\<rparr>"])
    (use assms in \<open>auto simp: inc_move_simps split: if_splits\<close>)

lemma increment_keeps:
  assumes "increment_counter t s = Some s'" "inc_ok s"
  shows "inc_ok s' \<and> work s' < work s"
proof -
  have len: "length (inc_threads s) = NUM_THREADS" and t: "t < NUM_THREADS"
    using assms by (auto simp: inc_ok_def increment_counter_def Let_def split: if_splits)
  have ok: "inc_thread_ok s t" using assms(2) t by (simp add: inc_ok_def)
  have "sum_list (map increments_done (inc_threads s)) \<le> NUM_THREADS * INCREMENTS"
    using assms(2) increments_bound [of "inc_threads s" INCREMENTS] len
    by (simp add: inc_ok_def inc_thread_ok_def Let_def)
  then have "0 \<le> counter s" "counter s \<le> 3000000"
    using assms(2) by (simp_all add: inc_ok_def NUM_THREADS_def INCREMENTS_def)
  then have "inc_move t s s'"
    using assms(1) ok lock_moves load_moves store_moves unlock_moves
    by (cases "inc_pc (inc_threads s ! t)") blast+
  then show ?thesis
    unfolding inc_move_def using inc_ok_update [OF assms(2) t] work_update len t by auto
qed

lemma inc_main_ok: "inc_ok inc_main"
  by (simp add: inc_ok_def inc_main_def increments_done_def inc_thread_ok_def NUM_THREADS_def
      sum_list_triv)

interpretation counting: inductive_invariant "\<lambda>s. s = inc_main" inc_step inc_ok
  by unfold_locales (auto simp: inc_main_ok inc_step.simps increment_keeps)

lemma inc_stuck:
  assumes "inc_ok s" "\<forall>t. increment_counter t s = None"
  shows "counter s = 3000000"
proof -
  have len: "length (inc_threads s) = NUM_THREADS" using assms(1) by (simp add: inc_ok_def)
  have ok: "inc_thread_ok s t" if "t < NUM_THREADS" for t using assms(1) that by (simp add: inc_ok_def)
  have free: "counter_mutex s = None"
  proof (rule ccontr)
    assume "counter_mutex s \<noteq> None"
    then obtain t where "counter_mutex s = Some t" "t < NUM_THREADS"
      using assms(1) by (auto simp: inc_ok_def)
    moreover from this ok [of t] have "inc_pc (inc_threads s ! t) \<noteq> At_lock"
      by (auto simp: inc_thread_ok_def Let_def)
    ultimately have "increment_counter t s \<noteq> None"
      using len by (auto simp: increment_counter_def Let_def split: inc_pc.split)
    then show False using assms(2) by simp
  qed
  have "increments_done th = INCREMENTS" if "th \<in> set (inc_threads s)" for th
  proof -
    obtain t where t: "t < NUM_THREADS" "th = inc_threads s ! t"
      using \<open>th \<in> set (inc_threads s)\<close> len by (auto simp: in_set_conv_nth)
    with ok free have "inc_pc th = At_lock" "loop_i th \<le> INCREMENTS"
      by (auto simp: inc_thread_ok_def Let_def)
    moreover have "\<not> loop_i th < INCREMENTS"
    proof
      assume "loop_i th < INCREMENTS"
      then have "increment_counter t s \<noteq> None"
        using t free len \<open>inc_pc th = At_lock\<close> by (simp add: increment_counter_def)
      then show False using assms(2) by simp
    qed
    ultimately show ?thesis by (simp add: increments_done_def)
  qed
  then have all: "map increments_done (inc_threads s) = map (\<lambda>_. INCREMENTS) (inc_threads s)" by simp
  have "sum_list (map increments_done (inc_threads s)) = NUM_THREADS * INCREMENTS"
    unfolding all by (simp add: sum_list_triv len)
  then show ?thesis using assms(1) by (simp add: inc_ok_def NUM_THREADS_def INCREMENTS_def)
qed

section \<open>Producer and consumer\<close>

definition ITEMS :: nat where "ITEMS = 10"

datatype cv_owner = Producer | Consumer

text \<open>
  The points of the two loops: the loop test, the lock, the body line by line, the unlock and, for
  the producer, \<^verbatim>\<open>sleep\<close>; \<open>C_waiting\<close> is inside \<^verbatim>\<open>pthread_cond_wait\<close> and \<open>C_woken\<close> on the way out of
  it, before the mutex is taken again.
\<close>

datatype prod_pc = P_test | P_lock int | P_write int | P_signal | P_unlock | P_sleep
datatype cons_pc = C_test | C_lock | C_check | C_waiting | C_woken | C_take | C_unlock

text \<open>\<open>produced\<close> and \<open>received\<close> record what the two threads print.\<close>

record cv_state =
  data :: int
  data_ready :: bool
  cv_mutex :: "cv_owner option"
  prod_i :: nat
  prod_pc :: prod_pc
  cons_i :: nat
  cons_pc :: cons_pc
  produced :: "int list"
  received :: "int list"

text \<open>\<open>r\<close> is the answer of \<^verbatim>\<open>rand()\<close>.\<close>

definition producer :: "int \<Rightarrow> cv_state \<Rightarrow> cv_state option" where
  "producer r s = (case prod_pc s of
     P_test \<Rightarrow> if prod_i s < ITEMS then Some (s\<lparr>prod_pc := P_lock (r mod 100)\<rparr>) else None
   | P_lock v \<Rightarrow>
       if cv_mutex s = None then Some (s\<lparr>cv_mutex := Some Producer, prod_pc := P_write v\<rparr>) else None
   | P_write v \<Rightarrow> Some (s\<lparr>data := v, data_ready := True, produced := produced s @ [v],
       prod_pc := P_signal\<rparr>)
   | P_signal \<Rightarrow> Some (s\<lparr>cons_pc := (if cons_pc s = C_waiting then C_woken else cons_pc s),
       prod_pc := P_unlock\<rparr>)
   | P_unlock \<Rightarrow> Some (s\<lparr>cv_mutex := None, prod_pc := P_sleep\<rparr>)
   | P_sleep \<Rightarrow> Some (s\<lparr>prod_i := prod_i s + 1, prod_pc := P_test\<rparr>))"

definition consumer :: "cv_state \<Rightarrow> cv_state option" where
  "consumer s = (case cons_pc s of
     C_test \<Rightarrow> if cons_i s < ITEMS then Some (s\<lparr>cons_pc := C_lock\<rparr>) else None
   | C_lock \<Rightarrow>
       if cv_mutex s = None then Some (s\<lparr>cv_mutex := Some Consumer, cons_pc := C_check\<rparr>) else None
   | C_check \<Rightarrow>
       if data_ready s then Some (s\<lparr>cons_pc := C_take\<rparr>)
       else Some (s\<lparr>cv_mutex := None, cons_pc := C_waiting\<rparr>)
   | C_waiting \<Rightarrow> None
   | C_woken \<Rightarrow>
       if cv_mutex s = None then Some (s\<lparr>cv_mutex := Some Consumer, cons_pc := C_check\<rparr>) else None
   | C_take \<Rightarrow> Some (s\<lparr>received := received s @ [data s], data_ready := False, cons_pc := C_unlock\<rparr>)
   | C_unlock \<Rightarrow> Some (s\<lparr>cv_mutex := None, cons_i := cons_i s + 1, cons_pc := C_test\<rparr>))"

definition cv_main :: cv_state where
  "cv_main = \<lparr>data = 0, data_ready = False, cv_mutex = None, prod_i = 0, prod_pc = P_test,
     cons_i = 0, cons_pc = C_test, produced = [], received = []\<rparr>"

inductive cv_step :: "cv_state \<Rightarrow> cv_state \<Rightarrow> bool" where
  cv_producer: "0 \<le> r \<Longrightarrow> producer r s = Some s' \<Longrightarrow> cv_step s s'"
| cv_consumer: "consumer s = Some s' \<Longrightarrow> cv_step s s'"
| cv_spurious: "cons_pc s = C_waiting \<Longrightarrow> cv_step s (s\<lparr>cons_pc := C_woken\<rparr>)"

text \<open>The invariant: who holds the mutex, what the flag says, the counts, and the range of the items.\<close>

fun prod_critical :: "prod_pc \<Rightarrow> bool" where
  "prod_critical (P_write v) = True"
| "prod_critical P_signal = True"
| "prod_critical P_unlock = True"
| "prod_critical _ = False"

fun cons_critical :: "cons_pc \<Rightarrow> bool" where
  "cons_critical C_check = True"
| "cons_critical C_take = True"
| "cons_critical C_unlock = True"
| "cons_critical _ = False"

definition cv_lock_ok :: "cv_state \<Rightarrow> bool" where
  "cv_lock_ok s \<longleftrightarrow>
     (cv_mutex s = Some Producer \<longleftrightarrow> prod_critical (prod_pc s)) \<and>
     (cv_mutex s = Some Consumer \<longleftrightarrow> cons_critical (cons_pc s)) \<and>
     (cons_pc s = C_take \<longrightarrow> data_ready s)"

definition cv_data_ok :: "cv_state \<Rightarrow> bool" where
  "cv_data_ok s \<longleftrightarrow>
     (if data_ready s then produced s \<noteq> [] \<and> data s = last (produced s) \<and>
        subseq (received s) (butlast (produced s))
      else subseq (received s) (produced s))"

definition cv_count_ok :: "cv_state \<Rightarrow> bool" where
  "cv_count_ok s \<longleftrightarrow> length (received s) = cons_i s + of_bool (cons_pc s = C_unlock) \<and>
     length (produced s) = prod_i s + of_bool (prod_pc s \<in> {P_signal, P_unlock, P_sleep}) \<and>
     (if prod_pc s = P_test then prod_i s \<le> ITEMS else prod_i s < ITEMS)"

definition cv_range_ok :: "cv_state \<Rightarrow> bool" where
  "cv_range_ok s \<longleftrightarrow> (\<forall>v \<in> set (produced s). 0 \<le> v \<and> v \<le> 99) \<and>
     (case prod_pc s of P_lock v \<Rightarrow> 0 \<le> v \<and> v \<le> 99 | P_write v \<Rightarrow> 0 \<le> v \<and> v \<le> 99 | _ \<Rightarrow> True)"

definition cv_ok :: "cv_state \<Rightarrow> bool" where
  "cv_ok s \<longleftrightarrow> cv_lock_ok s \<and> cv_data_ok s \<and> cv_count_ok s \<and> cv_range_ok s"

lemma producer_lock_ok: "producer r s = Some s' \<Longrightarrow> cv_lock_ok s \<Longrightarrow> cv_lock_ok s'"
  by (cases "prod_pc s") (auto simp: producer_def cv_lock_ok_def split: if_splits)

lemma producer_data_ok: "producer r s = Some s' \<Longrightarrow> cv_data_ok s \<Longrightarrow> cv_data_ok s'"
proof (cases "prod_pc s")
  case (P_write v)
  assume "producer r s = Some s'" "cv_data_ok s"
  moreover have "subseq (butlast xs) xs" for xs :: "int list"
    by (intro sublist_imp_subseq prefix_imp_sublist prefixeq_butlast)
  then have "subseq (received s) (produced s)"
    using \<open>cv_data_ok s\<close> subseq_order.trans unfolding cv_data_ok_def by (metis (full_types))
  ultimately show ?thesis using P_write by (auto simp: producer_def cv_data_ok_def)
qed (auto simp: producer_def cv_data_ok_def split: if_splits)

lemma producer_count_ok: "producer r s = Some s' \<Longrightarrow> cv_count_ok s \<Longrightarrow> cv_count_ok s'"
  by (cases "prod_pc s") (auto simp: producer_def cv_count_ok_def split: if_splits)

lemma producer_range_ok: "producer r s = Some s' \<Longrightarrow> 0 \<le> r \<Longrightarrow> cv_range_ok s \<Longrightarrow> cv_range_ok s'"
proof (cases "prod_pc s")
  case P_test
  assume "producer r s = Some s'" "cv_range_ok s"
  moreover have "0 \<le> r mod 100" "r mod 100 \<le> 99" by simp_all
  ultimately show ?thesis using P_test by (auto simp: producer_def cv_range_ok_def split: if_splits)
qed (auto simp: producer_def cv_range_ok_def split: if_splits)

lemma consumer_frame:
  "consumer s = Some s' \<Longrightarrow> produced s' = produced s \<and> prod_pc s' = prod_pc s \<and> prod_i s' = prod_i s"
  by (cases "cons_pc s") (auto simp: consumer_def split: if_splits)

lemma consumer_lock_ok: "consumer s = Some s' \<Longrightarrow> cv_lock_ok s \<Longrightarrow> cv_lock_ok s'"
  by (cases "cons_pc s") (auto simp: consumer_def cv_lock_ok_def split: if_splits)

lemma consumer_data_ok:
  "consumer s = Some s' \<Longrightarrow> cv_lock_ok s \<Longrightarrow> cv_data_ok s \<Longrightarrow> cv_data_ok s'"
proof (cases "cons_pc s")
  case C_take
  assume s: "consumer s = Some s'" "cv_lock_ok s" "cv_data_ok s"
  have "data_ready s" using s(2) C_take by (simp add: cv_lock_ok_def)
  with s(3) have "produced s = butlast (produced s) @ [data s]"
    "subseq (received s) (butlast (produced s))"
    by (simp_all add: cv_data_ok_def)
  then have "subseq (received s @ [data s]) (produced s)"
    by (metis list_emb_append_mono subseq_order.order_refl)
  then show ?thesis using s(1) C_take by (auto simp: consumer_def cv_data_ok_def)
qed (auto simp: consumer_def cv_data_ok_def split: if_splits)

lemma consumer_received: "consumer s = Some s' \<Longrightarrow>
    length (received s) = cons_i s + of_bool (cons_pc s = C_unlock) \<Longrightarrow>
    length (received s') = cons_i s' + of_bool (cons_pc s' = C_unlock)"
  by (cases "cons_pc s") (auto simp: consumer_def split: if_splits)

lemma consumer_count_ok: "consumer s = Some s' \<Longrightarrow> cv_count_ok s \<Longrightarrow> cv_count_ok s'"
  using consumer_frame [of s s'] consumer_received [of s s'] by (simp add: cv_count_ok_def)

lemma consumer_range_ok: "consumer s = Some s' \<Longrightarrow> cv_range_ok s \<Longrightarrow> cv_range_ok s'"
  using consumer_frame [of s s'] by (simp add: cv_range_ok_def)

lemmas cv_parts = cv_lock_ok_def cv_data_ok_def cv_count_ok_def cv_range_ok_def

lemma spurious_ok: "cons_pc s = C_waiting \<Longrightarrow> cv_ok s \<Longrightarrow> cv_ok (s\<lparr>cons_pc := C_woken\<rparr>)"
  by (simp add: cv_ok_def cv_parts)

lemma cv_step_ok:
  assumes "cv_step s t" "cv_ok s"
  shows "cv_ok t"
  using assms(1)
proof cases
  case (cv_producer r)
  with assms(2) show ?thesis
    unfolding cv_ok_def
    by (blast intro: producer_lock_ok producer_data_ok producer_count_ok producer_range_ok)
next
  case cv_consumer
  with assms(2) show ?thesis
    unfolding cv_ok_def
    by (blast intro: consumer_lock_ok consumer_data_ok consumer_count_ok consumer_range_ok)
next
  case cv_spurious
  with assms(2) show ?thesis by (simp add: spurious_ok)
qed

lemma cv_main_ok: "cv_ok cv_main"
  by (simp add: cv_ok_def cv_parts cv_main_def)

interpretation handover: inductive_invariant "\<lambda>s. s = cv_main" cv_step cv_ok
  by unfold_locales (simp_all add: cv_main_ok cv_step_ok)

text \<open>A schedule as a list of moves; \<open>Some r\<close> is the producer with \<^verbatim>\<open>rand()\<close> = \<open>r\<close>.\<close>

fun cv_run :: "int option list \<Rightarrow> cv_state \<Rightarrow> cv_state option" where
  "cv_run [] s = Some s"
| "cv_run (Some r # ms) s = (case (if 0 \<le> r then producer r s else None) of
     None \<Rightarrow> None | Some s' \<Rightarrow> cv_run ms s')"
| "cv_run (None # ms) s = (case consumer s of None \<Rightarrow> None | Some s' \<Rightarrow> cv_run ms s')"

lemma cv_run_reach:
  "cv_run ms s = Some t \<Longrightarrow> reach (\<lambda>s. s = cv_main) cv_step s \<Longrightarrow> reach (\<lambda>s. s = cv_main) cv_step t"
  by (induction ms s rule: cv_run.induct)
    (auto split: option.splits if_splits intro: reach_step cv_producer cv_consumer)

text \<open>The producer makes all ten items before the consumer starts.\<close>

definition late_consumer :: "int option list" where
  "late_consumer = concat (replicate 10 (replicate 6 (Some 7))) @ replicate 8 None"

definition starved :: cv_state where
  "starved = \<lparr>data = 7, data_ready = False, cv_mutex = None, prod_i = 10, prod_pc = P_test,
     cons_i = 1, cons_pc = C_waiting, produced = replicate 10 7, received = [7]\<rparr>"

lemma late_consumer_run: "cv_run late_consumer cv_main = Some starved"
  by code_simp

definition cv_stuck :: "cv_state \<Rightarrow> bool" where
  "cv_stuck s \<longleftrightarrow> \<not> data_ready s \<and> prod_i s = 10 \<and> prod_pc s = P_test \<and> cons_i s = 1 \<and>
     received s = [7] \<and> cons_pc s \<in> {C_waiting, C_woken, C_check}"

interpretation starvation: inductive_invariant "\<lambda>s. s = starved" cv_step cv_stuck
proof unfold_locales
  show "cv_stuck s" if "s = starved" for s using that by (simp add: cv_stuck_def starved_def)
  show "cv_stuck t" if "cv_step s t" "cv_stuck s" for s t
    using that
    by (cases rule: cv_step.cases)
      (auto simp: cv_stuck_def producer_def consumer_def ITEMS_def split: if_splits)
qed

section \<open>Readers and writers\<close>

datatype writer_pc = W_idle | W_load | W_store int | W_unlock

text \<open>
  \<open>reading\<close> are the readers inside their section, \<open>writer_at\<close> the point of each writer, \<open>rw_writer\<close> the
  writer that holds the lock; \<open>writes\<close> counts the completed increments.
\<close>

record rw_state =
  resource :: int
  reading :: "nat set"
  rw_writer :: "nat option"
  writer_at :: "nat \<Rightarrow> writer_pc"
  writes :: nat

definition rw_main :: rw_state where
  "rw_main = \<lparr>resource = 0, reading = {}, rw_writer = None, writer_at = (\<lambda>_. W_idle), writes = 0\<rparr>"

text \<open>
  One move of reader \<open>i\<close>: \<^verbatim>\<open>pthread_rwlock_rdlock\<close>, or printing the resource and unlocking, which
  reports the value it saw.
\<close>

definition reader :: "nat \<Rightarrow> rw_state \<Rightarrow> (rw_state \<times> int option) option" where
  "reader i s =
     (if i \<in> reading s then Some (s\<lparr>reading := reading s - {i}\<rparr>, Some (resource s))
      else if rw_writer s = None then Some (s\<lparr>reading := insert i (reading s)\<rparr>, None)
      else None)"

definition writer :: "nat \<Rightarrow> rw_state \<Rightarrow> rw_state option" where
  "writer i s = (case writer_at s i of
     W_idle \<Rightarrow>
       if rw_writer s = None \<and> reading s = {}
       then Some (s\<lparr>rw_writer := Some i, writer_at := (writer_at s)(i := W_load)\<rparr>) else None
   | W_load \<Rightarrow> Some (s\<lparr>writer_at := (writer_at s)(i := W_store (resource s))\<rparr>)
   | W_store v \<Rightarrow> Some (s\<lparr>resource := to_int32 (v + 1), writes := writes s + 1,
       writer_at := (writer_at s)(i := W_unlock)\<rparr>)
   | W_unlock \<Rightarrow> Some (s\<lparr>rw_writer := None, writer_at := (writer_at s)(i := W_idle)\<rparr>))"

inductive rw_step :: "rw_state \<Rightarrow> rw_state \<Rightarrow> bool" where
  rw_reader: "i \<in> {1..5} \<Longrightarrow> reader i s = Some (s', seen) \<Longrightarrow> rw_step s s'"
| rw_writer: "i \<in> {1..2} \<Longrightarrow> writer i s = Some s' \<Longrightarrow> rw_step s s'"

definition rw_ok :: "rw_state \<Rightarrow> bool" where
  "rw_ok s \<longleftrightarrow> (rw_writer s \<noteq> None \<longrightarrow> reading s = {}) \<and> reading s \<subseteq> {1..5} \<and>
     (\<forall>i. writer_at s i \<noteq> W_idle \<longleftrightarrow> rw_writer s = Some i) \<and>
     (\<forall>i v. writer_at s i = W_store v \<longrightarrow> v = resource s) \<and>
     resource s = to_int32 (int (writes s))"

lemma to_int32_Suc: "to_int32 (to_int32 x + 1) = to_int32 (x + 1)"
  unfolding to_int32_def by (simp add: mod_simps)

lemma reader_keeps: "reader i s = Some (s', seen) \<Longrightarrow> i \<in> {1..5} \<Longrightarrow> rw_ok s \<Longrightarrow> rw_ok s'"
  by (auto simp: reader_def rw_ok_def split: if_splits)

lemma writer_keeps: "writer i s = Some s' \<Longrightarrow> rw_ok s \<Longrightarrow> rw_ok s'"
proof -
  assume w: "writer i s = Some s'" and ok: "rw_ok s"
  then have lock: "writer_at s k \<noteq> W_idle \<longleftrightarrow> rw_writer s = Some k" for k
    by (simp add: rw_ok_def)
  have other: "writer_at s k = W_idle" if "writer_at s i \<noteq> W_idle" "k \<noteq> i" for k
    using lock [of i] lock [of k] that by auto
  show "rw_ok s'"
  proof (cases "writer_at s i")
    case W_idle
    then show ?thesis using w ok lock by (auto simp: writer_def rw_ok_def split: if_splits)
  next
    case W_load
    then have "rw_writer s = Some i" using lock [of i] by simp
    then show ?thesis using W_load w ok other by (auto simp: writer_def rw_ok_def split: if_splits)
  next
    case (W_store v)
    then have v: "v = to_int32 (int (writes s))" using ok by (auto simp: rw_ok_def)
    have "to_int32 (v + 1) = to_int32 (int (Suc (writes s)))"
      unfolding v to_int32_Suc by (simp add: add.commute)
    moreover have "rw_writer s = Some i" "reading s = {}" using W_store ok lock [of i]
      by (auto simp: rw_ok_def)
    ultimately show ?thesis using W_store w ok lock other
      by (auto simp: writer_def rw_ok_def split: if_splits)
  next
    case W_unlock
    then have "rw_writer s = Some i" using lock [of i] by simp
    then show ?thesis using W_unlock w ok other by (auto simp: writer_def rw_ok_def split: if_splits)
  qed
qed

interpretation rw: inductive_invariant "\<lambda>s. s = rw_main" rw_step rw_ok
proof unfold_locales
  show "rw_ok s" if "s = rw_main" for s
    using that by (simp add: rw_ok_def rw_main_def to_int32_id INT_MIN_def INT_MAX_def)
  show "rw_ok t" if "rw_step s t" "rw_ok s" for s t
    using that by (auto simp: rw_step.simps reader_keeps writer_keeps)
qed

section \<open>Properties\<close>

text \<open>
  C30: the mutex makes the increments add up.  Every step of a run takes one of the at most
  12,000,000 that are left, so every run ends, and when no thread can move the counter is 3000000:
  no increment is lost and no thread is stuck before its end.
\<close>

theorem counter_total:
  assumes "reach (\<lambda>s. s = inc_main) inc_step s"
  shows "(\<forall>s'. inc_step s s' \<longrightarrow> work s' < work s) \<and> work inc_main = 12000000 \<and>
    ((\<forall>t. increment_counter t s = None) \<longrightarrow> counter s = 3000000)"
proof -
  have "inc_ok s" by (rule counting.holds_reachable [OF assms])
  moreover have "work inc_main = 12000000"
    by (simp add: work_def inc_main_def NUM_THREADS_def INCREMENTS_def steps_left.simps
        sum_list_replicate)
  ultimately show ?thesis using inc_stuck by (auto simp: inc_step.simps increment_keeps)
qed

theorem counter_total_witness:
  "\<exists>s'. inc_step inc_main s' \<and> work s' < 12000000"
proof -
  have "\<exists>s'. inc_step inc_main s'"
    by (intro exI inc_stepI [of 0])
      (simp add: increment_counter_def inc_main_def NUM_THREADS_def INCREMENTS_def Let_def)
  then obtain s' where s': "inc_step inc_main s'" by blast
  moreover have "reach (\<lambda>s. s = inc_main) inc_step inc_main" by (rule reach_init) simp
  ultimately show ?thesis using counter_total [of inc_main] by auto
qed

text \<open>When the threads have ended, \<^verbatim>\<open>main\<close> prints the same number on both lines.\<close>

lemma race_main_agrees:
  assumes "reach (\<lambda>s. s = inc_main) inc_step s" "\<forall>t. increment_counter t s = None" "\<forall>i. rc i = 0"
  shows "race_main rc s = (0, [''Expected counter value: '' @ show_int 3000000 @ [CHR 0x0A],
    ''Actual counter value  : '' @ show_int 3000000 @ [CHR 0x0A]], [])"
proof -
  have "counter s = 3000000"
    using inc_stuck [OF counting.holds_reachable [OF assms(1)]] assms(2) by simp
  moreover have "int (NUM_THREADS * INCREMENTS) = 3000000"
    by (simp add: NUM_THREADS_def INCREMENTS_def)
  moreover have "\<not> list_ex (\<lambda>i. rc i \<noteq> 0) [0..<NUM_THREADS]"
    using assms(3) by (simp add: list_ex_iff)
  ultimately show ?thesis unfolding race_main_def by (simp only: if_False)
qed

text \<open>
  C31: what the consumer receives was produced, in the same order and no item twice; at most ten
  items are produced and each is between 0 and 99.
\<close>

theorem consumer_receives_in_order:
  assumes "reach (\<lambda>s. s = cv_main) cv_step s"
  shows "subseq (received s) (produced s) \<and> length (produced s) \<le> 10 \<and>
    (\<forall>v \<in> set (received s). 0 \<le> v \<and> v \<le> 99)"
proof -
  have ok: "cv_ok s" by (rule handover.holds_reachable [OF assms])
  have "subseq (butlast xs) xs" for xs :: "int list"
    by (intro sublist_imp_subseq prefix_imp_sublist prefixeq_butlast)
  then have sub: "subseq (received s) (produced s)"
    using ok subseq_order.trans unfolding cv_ok_def cv_data_ok_def by (metis (full_types))
  moreover have "length (produced s) \<le> 10"
    using ok by (auto simp: cv_ok_def cv_count_ok_def ITEMS_def split: if_splits)
  moreover have "set (received s) \<subseteq> set (produced s)" using list_emb_set [OF sub] by blast
  then have "\<forall>v \<in> set (received s). 0 \<le> v \<and> v \<le> 99"
    using ok by (auto simp: cv_ok_def cv_range_ok_def)
  ultimately show ?thesis by blast
qed

theorem consumer_receives_in_order_witness:
  "subseq (received starved) (produced starved) \<and> received starved = [7]"
proof -
  have "reach (\<lambda>s. s = cv_main) cv_step cv_main" by (rule reach_init) simp
  then have "reach (\<lambda>s. s = cv_main) cv_step starved" by (rule cv_run_reach [OF late_consumer_run])
  then show ?thesis using consumer_receives_in_order [of starved] by (simp add: starved_def)
qed

text \<open>
  C32: the producer does not wait for the consumer.  An item that is overwritten is lost, and because
  the consumer counts to ten as well, there is a run after which the producer has finished while the
  consumer has one item and will never get another, whatever happens next.
\<close>

theorem lost_items_starve_consumer:
  "\<exists>s. reach (\<lambda>s. s = cv_main) cv_step s \<and> prod_i s = 10 \<and> received s = [7] \<and>
    (\<forall>t. reach (\<lambda>x. x = s) cv_step t \<longrightarrow> received t = [7] \<and> cons_i t = 1 \<and> prod_i t = 10)"
proof (intro exI conjI allI impI)
  have "reach (\<lambda>s. s = cv_main) cv_step cv_main" by (rule reach_init) simp
  then show "reach (\<lambda>s. s = cv_main) cv_step starved" by (rule cv_run_reach [OF late_consumer_run])
  show "prod_i starved = 10" "received starved = [7]" by (simp_all add: starved_def)
  show "received t = [7]" "cons_i t = 1" "prod_i t = 10" if "reach (\<lambda>x. x = starved) cv_step t" for t
    using starvation.holds_reachable [OF that] by (simp_all add: cv_stuck_def)
qed

theorem lost_items_starve_consumer_witness:
  "\<exists>s :: cv_state. received s = [7] \<and> prod_i s = 10"
  using lost_items_starve_consumer by blast

text \<open>
  C33: the read-write lock.  At any time at most one writer and, while there is one, no reader is
  inside, and a reader that reads sees every completed write: the resource is the number of writes,
  as far as an \<^verbatim>\<open>int\<close> can hold it.
\<close>

theorem readers_writers_exclusion:
  assumes "reach (\<lambda>s. s = rw_main) rw_step s"
  shows "(\<forall>i j. writer_at s i \<noteq> W_idle \<and> writer_at s j \<noteq> W_idle \<longrightarrow> i = j) \<and>
    (\<forall>i. writer_at s i \<noteq> W_idle \<longrightarrow> reading s = {}) \<and>
    (\<forall>i s' v. reader i s = Some (s', Some v) \<longrightarrow> v = to_int32 (int (writes s)))"
proof -
  have ok: "rw_ok s" by (rule rw.holds_reachable [OF assms])
  then have lock: "writer_at s i \<noteq> W_idle \<longleftrightarrow> rw_writer s = Some i" for i by (simp add: rw_ok_def)
  have "\<forall>i j. writer_at s i \<noteq> W_idle \<and> writer_at s j \<noteq> W_idle \<longrightarrow> i = j" unfolding lock by auto
  moreover have "\<forall>i. writer_at s i \<noteq> W_idle \<longrightarrow> reading s = {}"
    unfolding lock using ok by (auto simp: rw_ok_def)
  moreover have "\<forall>i s' v. reader i s = Some (s', Some v) \<longrightarrow> v = to_int32 (int (writes s))"
    using ok by (auto simp: reader_def rw_ok_def split: if_splits)
  ultimately show ?thesis by blast
qed

theorem readers_writers_exclusion_witness:
  "reader 1 (rw_main\<lparr>reading := {1}\<rparr>) = Some (rw_main, Some 0)"
proof -
  have "reader 1 rw_main = Some (rw_main\<lparr>reading := {1}\<rparr>, None)"
    by (simp add: reader_def rw_main_def)
  then have step: "rw_step rw_main (rw_main\<lparr>reading := {1}\<rparr>)" by (rule rw_reader [rotated]) simp
  have "reach (\<lambda>s. s = rw_main) rw_step rw_main" by (rule reach_init) simp
  from reach_step [OF this step] have "reach (\<lambda>s. s = rw_main) rw_step (rw_main\<lparr>reading := {1}\<rparr>)" .
  from readers_writers_exclusion [OF this]
  have "\<forall>s' v. reader 1 (rw_main\<lparr>reading := {1}\<rparr>) = Some (s', Some v) \<longrightarrow> v = to_int32 0"
    by (auto simp: rw_main_def)
  then show ?thesis by (simp add: reader_def rw_main_def to_int32_def INT_MIN_def)
qed

end
