(* ===== verification/Pthreads.thy ===== *)
theory Pthreads
  imports C_Library
begin

text \<open>
  The thread example of \<^verbatim>\<open>04-thread/pthread\<close>: a main thread that creates two threads and joins them.
  The main thread and the two created threads take turns in any order; a \<^verbatim>\<open>pthread_join\<close> of a thread
  that still runs leaves the state unchanged.
\<close>

datatype thread = Main_thread | Created nat

record pthread_state =
  created :: nat
  joined :: nat
  has_run :: "bool list"
  stdout :: "bytes list"
  stderr :: "bytes list"
  exit_status :: "int option"

definition text_thread :: "nat \<Rightarrow> bytes" where
  "text_thread i = ''Thread with ID '' @ show_nat i @ '' is running!'' @ [CHR 0x0A]"

definition text_unable :: "nat \<Rightarrow> bytes" where
  "text_unable i = ''Error: Unable to create thread '' @ show_nat i @ [CHR 0x0A]"

definition text_both :: bytes where
  "text_both = ''Both threads have finished. Program completed.'' @ [CHR 0x0A]"

definition initial :: pthread_state where
  "initial = \<lparr>created = 0, joined = 0, has_run = [False, False], stdout = [], stderr = [], exit_status = None\<rparr>"

definition thread_function :: "nat \<Rightarrow> pthread_state \<Rightarrow> pthread_state" where
  "thread_function i s = s\<lparr>has_run := (has_run s)[i := True], stdout := stdout s @ [text_thread i]\<rparr>"

text \<open>A turn of \<^verbatim>\<open>main\<close>; \<open>rc i\<close> is the result of the \<open>i\<close>-th \<^verbatim>\<open>pthread_create\<close>.\<close>

definition pthread_main :: "(nat \<Rightarrow> int) \<Rightarrow> pthread_state \<Rightarrow> pthread_state" where
  "pthread_main rc s =
     (if created s < 2 then
        (if rc (created s) \<noteq> 0
         then s\<lparr>stderr := stderr s @ [text_unable (created s)], exit_status := Some 1\<rparr>
         else s\<lparr>created := created s + 1\<rparr>)
      else if joined s < 2 then (if has_run s ! joined s then s\<lparr>joined := joined s + 1\<rparr> else s)
      else s\<lparr>stdout := stdout s @ [text_both], exit_status := Some 0\<rparr>)"

definition pthread_turn :: "(nat \<Rightarrow> int) \<Rightarrow> thread \<Rightarrow> pthread_state \<Rightarrow> pthread_state" where
  "pthread_turn rc t s =
     (if exit_status s \<noteq> None then s
      else case t of
        Main_thread \<Rightarrow> pthread_main rc s
      | Created i \<Rightarrow> if i < created s \<and> \<not> has_run s ! i then thread_function i s else s)"

definition pthread_run :: "(nat \<Rightarrow> int) \<Rightarrow> thread list \<Rightarrow> pthread_state" where
  "pthread_run rc ts = fold (pthread_turn rc) ts initial"

text \<open>The lines of the threads that ran, in one of the two orders.\<close>

definition lines_of :: "bool list \<Rightarrow> bytes list \<Rightarrow> bool" where
  "lines_of r out \<longleftrightarrow>
     (r = [False, False] \<and> out = []) \<or>
     (r = [True, False] \<and> out = [text_thread 0]) \<or>
     (r = [False, True] \<and> out = [text_thread 1]) \<or>
     (r = [True, True] \<and> (out = [text_thread 0, text_thread 1] \<or> out = [text_thread 1, text_thread 0]))"

definition pthread_ok :: "(nat \<Rightarrow> int) \<Rightarrow> pthread_state \<Rightarrow> bool" where
  "pthread_ok rc s \<longleftrightarrow> created s \<le> 2 \<and> joined s \<le> 2 \<and> length (has_run s) = 2 \<and>
     (\<forall>i < joined s. has_run s ! i) \<and> (\<forall>i < created s. rc i = 0) \<and> (0 < joined s \<longrightarrow> created s = 2) \<and>
     (case exit_status s of
        None \<Rightarrow> lines_of (has_run s) (stdout s) \<and> stderr s = []
      | Some e \<Rightarrow>
          if e = 0
          then lines_of [True, True] (butlast (stdout s)) \<and> last (stdout s) = text_both \<and>
            stdout s \<noteq> [] \<and> stderr s = [] \<and> created s = 2
          else e = 1 \<and> created s < 2 \<and> rc (created s) \<noteq> 0 \<and> stderr s = [text_unable (created s)])"

lemma pthread_ok_initial: "pthread_ok rc initial"
  by (simp add: pthread_ok_def initial_def lines_of_def)

lemma pthread_ok_main:
  assumes "pthread_ok rc s" "exit_status s = None"
  shows "pthread_ok rc (pthread_main rc s)"
proof -
  consider "created s < 2" | "created s = 2" "joined s < 2" | "created s = 2" "joined s = 2"
    using assms(1) by (force simp: pthread_ok_def)
  then show ?thesis
  proof cases
    case 1
    then show ?thesis using assms
      by (auto simp: pthread_ok_def pthread_main_def less_Suc_eq)
  next
    case 2
    then show ?thesis using assms
      by (auto simp: pthread_ok_def pthread_main_def less_Suc_eq)
  next
    case 3
    then have "has_run s ! 0" "has_run s ! 1" using assms(1) by (simp_all add: pthread_ok_def)
    then have "has_run s = [True, True]" using assms by (auto simp: pthread_ok_def lines_of_def)
    then show ?thesis using 3 assms by (auto simp: pthread_ok_def pthread_main_def)
  qed
qed

lemma pthread_ok_thread:
  assumes "pthread_ok rc s" "exit_status s = None" "i < created s" "\<not> has_run s ! i"
  shows "pthread_ok rc (thread_function i s)"
proof -
  have "i = 0 \<or> i = 1" using assms(1,3) by (auto simp: pthread_ok_def)
  moreover have "lines_of (has_run s) (stdout s)" using assms(1,2) by (simp add: pthread_ok_def)
  ultimately have "lines_of ((has_run s)[i := True]) (stdout s @ [text_thread i])"
    using assms(4) by (auto simp: lines_of_def)
  moreover have "\<forall>j < joined s. (has_run s)[i := True] ! j"
  proof (intro allI impI)
    fix j
    assume "j < joined s"
    then have "has_run s ! j" "j < length (has_run s)" using assms(1) by (simp_all add: pthread_ok_def)
    then show "(has_run s)[i := True] ! j" by (cases "i = j") simp_all
  qed
  ultimately show ?thesis using assms(1,2) by (auto simp: pthread_ok_def thread_function_def)
qed

lemma pthread_ok_turn: "pthread_ok rc s \<Longrightarrow> pthread_ok rc (pthread_turn rc t s)"
  by (cases t) (auto simp: pthread_turn_def pthread_ok_main pthread_ok_thread)

lemma pthread_ok_run: "pthread_ok rc (pthread_run rc ts)"
proof -
  have "pthread_ok rc s \<Longrightarrow> pthread_ok rc (fold (pthread_turn rc) ts s)" for s
    by (induction ts arbitrary: s) (simp_all add: pthread_ok_turn)
  then show ?thesis using pthread_ok_initial by (simp add: pthread_run_def)
qed

text \<open>
  Both threads.  For every schedule: the program ends with status 0 only if both creations
  succeeded, and then it has printed the lines of both threads, in one of the two orders, and the
  final line last; it ends with status 1 only at a creation that failed, naming that thread.
\<close>

theorem pthread_example_output:
  assumes "exit_status (pthread_run rc ts) = Some e"
  shows "(e = 0 \<and> rc 0 = 0 \<and> rc 1 = 0 \<and>
      (stdout (pthread_run rc ts) = [text_thread 0, text_thread 1, text_both] \<or>
       stdout (pthread_run rc ts) = [text_thread 1, text_thread 0, text_both])) \<or>
    (e = 1 \<and> (rc 0 \<noteq> 0 \<and> stderr (pthread_run rc ts) = [text_unable 0] \<or>
       rc 0 = 0 \<and> rc 1 \<noteq> 0 \<and> stderr (pthread_run rc ts) = [text_unable 1]))"
proof -
  let ?s = "pthread_run rc ts"
  have ok: "pthread_ok rc ?s" by (rule pthread_ok_run)
  show ?thesis
  proof (cases "e = 0")
    case True
    then have c: "created ?s = 2" and l: "lines_of [True, True] (butlast (stdout ?s))"
        "last (stdout ?s) = text_both" "stdout ?s \<noteq> []"
      using ok assms by (simp_all add: pthread_ok_def)
    have "stdout ?s = butlast (stdout ?s) @ [text_both]"
      using l(2,3) by (metis append_butlast_last_id)
    moreover have "rc 0 = 0" "rc 1 = 0" using ok c by (simp_all add: pthread_ok_def)
    ultimately show ?thesis using True l(1) by (auto simp: lines_of_def)
  next
    case False
    then have "e = 1" "created ?s < 2" "rc (created ?s) \<noteq> 0" "stderr ?s = [text_unable (created ?s)]"
        "\<forall>i < created ?s. rc i = 0"
      using ok assms by (simp_all add: pthread_ok_def)
    moreover from this(2) have "created ?s = 0 \<or> created ?s = 1" by linarith
    ultimately show ?thesis by auto
  qed
qed

theorem pthread_example_output_witness:
  "stdout (pthread_run (\<lambda>i. 0) [Main_thread, Main_thread, Created 1, Main_thread, Created 0,
     Main_thread, Main_thread, Main_thread]) = [text_thread 1, text_thread 0, text_both]"
proof -
  let ?s = "pthread_run (\<lambda>i. 0) [Main_thread, Main_thread, Created 1, Main_thread, Created 0,
     Main_thread, Main_thread, Main_thread]"
  have s: "exit_status ?s = Some 0" "hd (stdout ?s) = text_thread 1"
    by (simp_all add: pthread_run_def pthread_turn_def pthread_main_def thread_function_def initial_def)
  have "text_thread 0 \<noteq> text_thread 1"
    by (simp add: text_thread_def show_nat_digit digit_char_def)
  then show ?thesis using pthread_example_output [OF s(1)] s(2) by auto
qed

end
