(* ===== verification/Signals.thy ===== *)
theory Signals
  imports C_Library
begin

text \<open>
  The signal programs of \<^verbatim>\<open>05-ipc-signal\<close>: the counting handlers of \<^verbatim>\<open>sigint-handler\<close>,
  \<^verbatim>\<open>parent-child\<close> and \<^verbatim>\<open>sigalrm-timer\<close>, which share one contract, and the signal thread of
  \<^verbatim>\<open>signal-input\<close> with the pipe to the main loop.
\<close>

section \<open>Counting handlers\<close>

datatype sig_call =
    Say bytes | Complain bytes | Alarm nat | Sleep nat | Kill int | Exit_with int
  | Shut int | Join_thread

definition exits :: "sig_call list \<Rightarrow> bool" where
  "exits calls \<longleftrightarrow> (\<exists>e. Exit_with e \<in> set calls)"

definition handle_sigint :: "int \<Rightarrow> int \<times> sig_call list" where
  "handle_sigint n =
     (let n = n + 1; calls = [Say (''SIGINT received ('' @ show_int n @ '')'' @ [CHR 0x0A])] in
      if n \<ge> 3
      then (n, calls @ [Say (''Received SIGINT 3 times. Exiting.'' @ [CHR 0x0A]), Exit_with 0])
      else (n, calls))"

definition handle_sigusr1 :: "int \<Rightarrow> int \<times> sig_call list" where
  "handle_sigusr1 n =
     (let n = n + 1;
          calls = [Say (''Child: Received signal from parent ('' @ show_int n @ '')'' @ [CHR 0x0A])] in
      if n \<ge> 5
      then (n, calls @ [Say (''Child: Received 5 signals. Exiting.'' @ [CHR 0x0A]), Exit_with 0])
      else (n, calls))"

definition handle_sigalrm :: "int \<Rightarrow> int \<times> sig_call list" where
  "handle_sigalrm n =
     (let n = n + 1; calls = [Say (''Timer: '' @ show_int n @ '' seconds'' @ [CHR 0x0A])] in
      if n < 10 then (n, calls @ [Alarm 1])
      else (n, calls @ [Say (''Done.'' @ [CHR 0x0A]), Exit_with 0]))"

text \<open>The program under \<open>k\<close> deliveries of its signal: the count and whether it still runs.\<close>

fun deliver :: "(int \<Rightarrow> int \<times> sig_call list) \<Rightarrow> nat \<Rightarrow> int \<Rightarrow> int \<times> bool" where
  "deliver h 0 n = (n, True)"
| "deliver h (Suc k) n = (case h n of (n', calls) \<Rightarrow>
     if exits calls then (n', False) else deliver h k n')"

text \<open>The contract the three handlers share: count, and exit at the limit.\<close>

locale counting_handler =
  fixes h :: "int \<Rightarrow> int \<times> sig_call list" and limit :: nat
  assumes counts: "fst (h n) = n + 1"
    and exits_at_limit: "exits (snd (h n)) \<longleftrightarrow> int limit \<le> n + 1"
    and limit_pos: "0 < limit"
begin

lemma deliver_from:
  "0 \<le> n \<Longrightarrow> n < int limit \<Longrightarrow>
    deliver h k n = (min (int limit) (n + int k), n + int k < int limit)"
proof (induction k arbitrary: n)
  case 0
  then show ?case by simp
next
  case (Suc k)
  then show ?case
    using Suc.IH [of "n + 1"] counts [of n] exits_at_limit [of n] by (auto split: prod.splits)
qed

lemma deliver_start: "deliver h k 0 = (int (min limit k), k < limit)"
  using deliver_from [of 0 k] limit_pos by simp

end

lemma exits_simps [simp]:
  "\<not> exits []" "exits (Say m # cs) = exits cs" "exits (Complain m # cs) = exits cs" "exits (Alarm k # cs) = exits cs"
  "exits (Exit_with e # cs)"
  by (auto simp: exits_def)

interpretation sigint: counting_handler handle_sigint 3
  by unfold_locales (simp_all add: handle_sigint_def Let_def)

interpretation sigusr1: counting_handler handle_sigusr1 5
  by unfold_locales (simp_all add: handle_sigusr1_def Let_def)

interpretation sigalrm: counting_handler handle_sigalrm 10
  by unfold_locales (simp_all add: handle_sigalrm_def Let_def)

text \<open>
  The timer keeps itself going: \<open>timer fuel armed n\<close> delivers an alarm as long as one is armed, and
  returns the count, the number of deliveries and whether the program has exited.
\<close>

fun timer :: "nat \<Rightarrow> nat \<Rightarrow> int \<Rightarrow> int \<times> nat \<times> bool" where
  "timer 0 armed n = (n, 0, False)"
| "timer (Suc fuel) 0 n = (n, 0, False)"
| "timer (Suc fuel) (Suc armed) n = (case handle_sigalrm n of (n', calls) \<Rightarrow>
     if exits calls then (n', 1, True)
     else (case timer fuel (armed + count_if (\<lambda>c. c = Alarm 1) calls) n' of (m, d, e) \<Rightarrow> (m, Suc d, e)))"

text \<open>
  \<open>parent_main pid k\<close> is \<^verbatim>\<open>main\<close> of \<^verbatim>\<open>parent-child\<close> in the parent, on the answer \<open>pid\<close> of \<^verbatim>\<open>fork\<close>, when
  the kernel delivers \<open>k\<close> signals to the child: the exit status, or \<open>None\<close> if \<^verbatim>\<open>wait\<close> blocks, and
  the calls.
\<close>

definition parent_main :: "int \<Rightarrow> nat \<Rightarrow> int option \<times> sig_call list" where
  "parent_main pid k =
     (if pid < 0 then (Some 1, [Complain ''fork failed''])
      else
        let calls = concat (map (\<lambda>i. [Sleep 2, Kill pid]) [0..<5]) in
        if snd (deliver handle_sigusr1 k 0) then (None, calls)
        else (Some 0, calls @ [Say (''Parent: Child exited. Program done.'' @ [CHR 0x0A])]))"

section \<open>The signal thread and the main loop\<close>

datatype signal = SIGINT | SIGTERM

definition msg_sigint :: bytes where "msg_sigint = ''SIGINT'' @ [CHR 0x0A]"
definition msg_sigterm :: bytes where "msg_sigterm = ''SIGTERM'' @ [CHR 0x0A]"

text \<open>What the thread writes to the pipe for the signals \<^verbatim>\<open>sigwait\<close> gives it, and whether it has ended.\<close>

fun signal_thread :: "signal list \<Rightarrow> bytes \<times> bool" where
  "signal_thread [] = ([], False)"
| "signal_thread (SIGINT # ss) = (case signal_thread ss of (w, e) \<Rightarrow> (msg_sigint @ w, e))"
| "signal_thread (SIGTERM # ss) = (msg_sigterm, True)"

definition MSG_SIZE :: nat where "MSG_SIZE = 64"

datatype main_event = Saw_sigint | Saw_nothing | Leaves

text \<open>
  One read from the pipe, which returned \<open>chunk\<close>; \<open>None\<close> says that \<^verbatim>\<open>strstr\<close> finds no NUL in the
  64 bytes.
\<close>

definition main_reads :: "bytes \<Rightarrow> main_event option" where
  "main_reads chunk = do {
     s \<leftarrow> c_string (overwrite (replicate MSG_SIZE NUL) chunk);
     Some (if contains s ''SIGINT'' then Saw_sigint
           else if contains s ''SIGTERM'' then Leaves else Saw_nothing)
   }"

text \<open>The main loop on the chunks it reads: what it saw, and whether it has left.\<close>

fun main_loop :: "bytes list \<Rightarrow> (main_event list \<times> bool) option" where
  "main_loop [] = Some ([], False)"
| "main_loop (c # cs) = do {
     e \<leftarrow> main_reads c;
     (if e = Leaves then Some ([e], True)
      else do { (es, left) \<leftarrow> main_loop cs; Some (e # es, left) })
   }"

lemma reads_chunk:
  assumes "length c < MSG_SIZE" "NUL \<notin> set c"
  shows "main_reads c = Some (if contains c ''SIGINT'' then Saw_sigint
    else if contains c ''SIGTERM'' then Leaves else Saw_nothing)"
proof -
  obtain k where "MSG_SIZE - length c = Suc k" using assms(1) by (cases "MSG_SIZE - length c") auto
  then have "c_string (overwrite (replicate MSG_SIZE NUL) c) = Some c"
    using assms(2) by (simp add: overwrite_def c_string_append)
  then show ?thesis by (simp add: main_reads_def)
qed

lemma reads_messages: "main_reads msg_sigint = Some Saw_sigint" "main_reads msg_sigterm = Some Leaves"
  by code_simp+

lemma main_loop_ints:
  "main_loop (replicate n msg_sigint @ cs) =
    map_option (\<lambda>(es, left). (replicate n Saw_sigint @ es, left)) (main_loop cs)"
  by (induction n) (auto simp: reads_messages option.map_comp comp_def split_def bind_map_option
      map_conv_bind_option)

subsection \<open>The program around the loop\<close>

text \<open>
  One round of the loop: the result of \<^verbatim>\<open>select\<close>; for a readable standard input what \<^verbatim>\<open>fgets\<close> stores
  (\<open>None\<close> at the end of the input); for a readable pipe what it holds.
\<close>

record round =
  ready :: int
  typed :: "bytes option option"
  piped :: "bytes option"

definition echo_input :: "bytes option option \<Rightarrow> sig_call list" where
  "echo_input inp = (case inp of None \<Rightarrow> [] | Some got \<Rightarrow>
     (case got of None \<Rightarrow> []
      | Some l \<Rightarrow> [Say (''User input: '' @ takeWhile (\<lambda>c. c \<noteq> NUL) l)]))"

definition text_saw_sigint :: bytes where
  "text_saw_sigint = ''SIGINT received.'' @ [CHR 0x0A]"

definition text_saw_sigterm :: bytes where
  "text_saw_sigterm = ''SIGTERM received. Exiting program.'' @ [CHR 0x0A]"

fun say_event :: "main_event \<Rightarrow> sig_call list" where
  "say_event Saw_sigint = [Say text_saw_sigint]"
| "say_event Leaves = [Say text_saw_sigterm]"
| "say_event Saw_nothing = []"

text \<open>The calls of the loop, and whether it was left.\<close>

fun select_loop :: "round list \<Rightarrow> (sig_call list \<times> bool) option" where
  "select_loop [] = Some ([], False)"
| "select_loop (r # rs) =
     (if ready r = -1 then Some ([Complain ''select''], True)
      else (case piped r of
          None \<Rightarrow> map_option (\<lambda>(cs, left). (echo_input (typed r) @ cs, left)) (select_loop rs)
        | Some content \<Rightarrow> (case main_reads (take MSG_SIZE content) of
            None \<Rightarrow> None
          | Some e \<Rightarrow>
              if e = Leaves then Some (echo_input (typed r) @ say_event e, True)
              else map_option (\<lambda>(cs, left). (echo_input (typed r) @ say_event e @ cs, left))
                (select_loop rs))))"

record start_answers =
  ans_pipe :: "(int \<times> int) option"
  ans_sigmask :: int
  ans_create :: int

definition text_running :: bytes where
  "text_running = ''Program is running... Press Ctrl+C (SIGINT) or send SIGTERM to terminate.'' @ [CHR 0x0A]"

text \<open>The exit status is \<open>None\<close> while the loop still runs after the given rounds.\<close>

definition signal_main :: "start_answers \<Rightarrow> round list \<Rightarrow> (int option \<times> sig_call list) option" where
  "signal_main a rounds = (case ans_pipe a of
     None \<Rightarrow> Some (Some 1, [Complain ''pipe'', Exit_with 1])
   | Some (rd, wr) \<Rightarrow>
       if ans_sigmask a \<noteq> 0 then Some (Some 1, [Complain ''pthread_sigmask'', Exit_with 1])
       else if ans_create a \<noteq> 0 then Some (Some 1, [Complain ''pthread_create'', Exit_with 1])
       else map_option (\<lambda>(calls, left).
           if left then (Some 0, [Say text_running] @ calls @ [Shut rd, Shut wr, Join_thread])
           else (None, [Say text_running] @ calls)) (select_loop rounds))"

text \<open>Rounds whose pipe content is no SIGTERM: nothing, or one SIGINT message.\<close>

definition harmless :: "round \<Rightarrow> bool" where
  "harmless r \<longleftrightarrow> ready r \<noteq> -1 \<and> (piped r = None \<or> piped r = Some msg_sigint)"

definition round_calls :: "round \<Rightarrow> sig_call list" where
  "round_calls r = echo_input (typed r) @ (if piped r = None then [] else [Say text_saw_sigint])"

lemma take_messages: "take MSG_SIZE msg_sigint = msg_sigint" "take MSG_SIZE msg_sigterm = msg_sigterm"
  by (simp_all add: msg_sigint_def msg_sigterm_def MSG_SIZE_def)

lemma select_loop_harmless:
  "list_all harmless rs \<Longrightarrow> select_loop (rs @ rs') =
    map_option (\<lambda>(cs, left). (concat (map round_calls rs) @ cs, left)) (select_loop rs')"
proof (induction rs)
  case Nil
  then show ?case by (simp add: option.map_ident split_beta)
next
  case (Cons r rs)
  then show ?case
    by (auto simp: harmless_def round_calls_def take_messages reads_messages option.map_comp comp_def
        split_beta)
qed

text \<open>
  At the end of the standard input \<^verbatim>\<open>select\<close> reports it ready in every round and \<^verbatim>\<open>fgets\<close> fails; no
  number of such rounds leaves the loop or says anything.
\<close>

lemma end_of_input_rounds:
  "select_loop (replicate n \<lparr>ready = 1, typed = None, piped = None\<rparr> @ rs) = select_loop rs"
  by (induction n) (simp_all add: echo_input_def option.map_ident option.map_id split_beta)

section \<open>Properties\<close>

text \<open>
  The counting handlers.  Under \<open>k\<close> deliveries the SIGINT program runs until the third and the
  child until the fifth, with the exact count; the parent of \<^verbatim>\<open>parent-child\<close> gets past \<^verbatim>\<open>wait\<close> exactly
  when all five of its signals are delivered, so one that the kernel merges with a pending one leaves
  it waiting for ever.
\<close>

theorem counting_handlers_exit:
  assumes "0 < pid"
  shows "deliver handle_sigint k 0 = (int (min 3 k), k < 3) \<and>
    deliver handle_sigusr1 k 0 = (int (min 5 k), k < 5) \<and>
    count_list (snd (parent_main pid k)) (Kill pid) = 5 \<and>
    fst (parent_main pid k) = (if k < 5 then None else Some 0)"
proof -
  have "[0..<5] = [0, 1, 2, 3, 4 :: nat]" by (simp add: upt_rec)
  then have "count_list (concat (map (\<lambda>i. [Sleep 2, Kill pid]) [0..<5])) (Kill pid) = 5" by simp
  then show ?thesis
    using assms sigint.deliver_start [of k] sigusr1.deliver_start [of k]
    unfolding parent_main_def Let_def by simp
qed

theorem counting_handlers_exit_witness:
  "fst (parent_main 42 4) = None \<and> fst (parent_main 42 5) = Some 0"
  using counting_handlers_exit [of 42 4] counting_handlers_exit [of 42 5] by simp

lemma timer_runs:
  "0 \<le> n \<Longrightarrow> n < 10 \<Longrightarrow> nat (10 - n) \<le> fuel \<Longrightarrow> timer fuel 1 n = (10, nat (10 - n), True)"
proof (induction fuel arbitrary: n)
  case 0
  then show ?case by simp
next
  case (Suc fuel)
  show ?case
  proof (cases "n + 1 < 10")
    case True
    then have "timer fuel 1 (n + 1) = (10, nat (10 - (n + 1)), True)"
      using Suc by (intro Suc.IH) auto
    moreover have "Suc (nat (10 - (n + 1))) = nat (10 - n)" using True by simp
    ultimately show ?thesis using True by (simp add: handle_sigalrm_def Let_def)
  next
    case False
    then show ?thesis using Suc.prems by (simp add: handle_sigalrm_def Let_def)
  qed
qed

text \<open>
  The timer.  One armed alarm keeps exactly one armed until the tenth delivery, at which the
  program exits: it always ends, after ten alarms, with the count 10.
\<close>

theorem timer_exits_after_ten:
  assumes "10 \<le> fuel"
  shows "timer fuel 1 0 = (10, 10, True)"
  using timer_runs [of 0 fuel] assms by simp

theorem timer_exits_after_ten_witness: "timer 12 1 0 = (10, 10, True)"
  by (rule timer_exits_after_ten) simp

text \<open>
  C39: the signal loop.  When each message is read by itself, every SIGINT is reported and the first
  SIGTERM ends the program.  But messages written before the main thread gets to read arrive in one
  read, which the main loop searches for "SIGINT" first: any read that holds both messages reports
  the SIGINT and drops the SIGTERM, the signal thread has ended, and the program can no longer be
  terminated by a signal.
\<close>

theorem signal_loop_spec:
  assumes "length c < 64" "NUL \<notin> set c" "c = pre @ ''SIGINT'' @ post"
  shows "signal_thread (replicate n SIGINT @ [SIGTERM]) =
      (concat (replicate n msg_sigint) @ msg_sigterm, True) \<and>
    main_loop (replicate n msg_sigint @ [msg_sigterm]) = Some (replicate n Saw_sigint @ [Leaves], True) \<and>
    main_loop [c] = Some ([Saw_sigint], False)"
proof -
  have "signal_thread (replicate n SIGINT @ [SIGTERM]) =
      (concat (replicate n msg_sigint) @ msg_sigterm, True)"
    by (induction n) simp_all
  moreover have "contains c ''SIGINT''" using assms(3) by (auto simp: contains_iff)
  then have "main_loop [c] = Some ([Saw_sigint], False)"
    using reads_chunk [OF _ assms(2)] assms(1) by (simp add: MSG_SIZE_def)
  ultimately show ?thesis by (simp add: main_loop_ints reads_messages)
qed

theorem signal_loop_spec_witness:
  "main_loop [msg_sigint @ msg_sigterm] = Some ([Saw_sigint], False) \<and>
   signal_thread [SIGINT, SIGTERM] = (msg_sigint @ msg_sigterm, True)"
  using signal_loop_spec [of "msg_sigint @ msg_sigterm" "[]" "[CHR 0x0A] @ msg_sigterm" 1]
  by (simp add: msg_sigint_def msg_sigterm_def)

text \<open>
  The program of \<^verbatim>\<open>signal-input\<close> as a whole.  Each failing start-up call ends it with status 1
  before anything else.  Otherwise it echoes the typed lines and reports each SIGINT, round by round,
  and the first SIGTERM read by itself ends the loop, closes both ends of the pipe, joins the thread
  and returns 0; a failing \<^verbatim>\<open>select\<close> does the same without a SIGTERM.
\<close>

theorem signal_main_spec:
  assumes "list_all harmless rs" "ready r \<noteq> -1" "piped r = Some msg_sigterm" "ready r' = -1"
    and "ans_pipe a = Some (rd, wr)" "ans_sigmask a = 0" "ans_create a = 0"
  shows "signal_main a (rs @ r # rest) = Some (Some 0, [Say text_running] @
      concat (map round_calls rs) @ echo_input (typed r) @ [Say text_saw_sigterm] @
      [Shut rd, Shut wr, Join_thread]) \<and>
    signal_main a (rs @ r' # rest) = Some (Some 0, [Say text_running] @
      concat (map round_calls rs) @ [Complain ''select''] @ [Shut rd, Shut wr, Join_thread]) \<and>
    signal_main a rs = Some (None, [Say text_running] @ concat (map round_calls rs)) \<and>
    signal_main (a\<lparr>ans_pipe := None\<rparr>) rs = Some (Some 1, [Complain ''pipe'', Exit_with 1]) \<and>
    signal_main (a\<lparr>ans_sigmask := 1\<rparr>) rs = Some (Some 1, [Complain ''pthread_sigmask'', Exit_with 1]) \<and>
    signal_main (a\<lparr>ans_create := 1\<rparr>) rs = Some (Some 1, [Complain ''pthread_create'', Exit_with 1])"
  using assms select_loop_harmless [OF assms(1), of "[]"]
  by (simp add: signal_main_def select_loop_harmless take_messages reads_messages)

theorem signal_main_spec_witness:
  "signal_main \<lparr>ans_pipe = Some (3, 4), ans_sigmask = 0, ans_create = 0\<rparr>
     [\<lparr>ready = 1, typed = None, piped = Some msg_sigint\<rparr>,
      \<lparr>ready = 1, typed = None, piped = Some msg_sigterm\<rparr>] =
   Some (Some 0, [Say text_running, Say text_saw_sigint, Say text_saw_sigterm, Shut 3, Shut 4, Join_thread])"
  using signal_main_spec [where rs = "[\<lparr>ready = 1, typed = None, piped = Some msg_sigint\<rparr>]"
      and r = "\<lparr>ready = 1, typed = None, piped = Some msg_sigterm\<rparr>"
      and r' = "\<lparr>ready = -1, typed = None, piped = None\<rparr>" and rest = "[]"
      and a = "\<lparr>ans_pipe = Some (3, 4), ans_sigmask = 0, ans_create = 0\<rparr>" and rd = 3 and wr = 4]
  by (simp add: harmless_def round_calls_def echo_input_def)

text \<open>
  C40: programs that count signals.  Under \<open>k\<close> deliveries the SIGINT program runs until the third and
  the child of \<^verbatim>\<open>parent-child\<close> until the fifth, with the exact count; its parent gets past \<^verbatim>\<open>wait\<close>
  exactly when all five of its signals are delivered, so one that the kernel merges with a pending
  one leaves it waiting for ever.  The timer, which arms its own next alarm, exits after exactly ten.
\<close>

theorem signal_counters_exit:
  assumes "0 < pid" "10 \<le> fuel"
  shows "deliver handle_sigint k 0 = (int (min 3 k), k < 3) \<and>
    deliver handle_sigusr1 k 0 = (int (min 5 k), k < 5) \<and>
    count_list (snd (parent_main pid k)) (Kill pid) = 5 \<and>
    fst (parent_main pid k) = (if k < 5 then None else Some 0) \<and>
    timer fuel 1 0 = (10, 10, True)"
  using counting_handlers_exit [OF assms(1), of k] timer_exits_after_ten [OF assms(2)] by blast

theorem signal_counters_exit_witness:
  "fst (parent_main 42 4) = None \<and> timer 12 1 0 = (10, 10, True)"
  using signal_counters_exit [where pid = 42 and fuel = 12 and k = 4] by simp

end
