(* ===== verification/Sockets.thy ===== *)
theory Sockets
  imports C_Library
begin

text \<open>
  The eight socket programs of \<^verbatim>\<open>06-ipc-socket\<close>: a client and a server for IPv4 streams, IPv4
  datagrams, UNIX-domain streams and UNIX-domain datagrams.  A program is a function of its
  arguments, its standard input and the answers of the kernel to its exit status and its system
  calls in order, or \<open>None\<close> where it reads past the end of an array.  The calls are checked against
  a type discipline of socket descriptors, which also says what is still open when a program ends.
\<close>

section \<open>Sockets and calls\<close>

datatype family = AF_INET | AF_UNIX
datatype kind = SOCK_STREAM | SOCK_DGRAM

text \<open>An IPv4 address with its four octets and its port, or the path field of a \<^verbatim>\<open>sockaddr_un\<close>.\<close>

datatype address = Inet "nat list" int | Local bytes

text \<open>A system call with its arguments and its result; \<open>Out\<close> is \<^verbatim>\<open>printf\<close> and \<open>Err\<close> is \<^verbatim>\<open>perror\<close>.\<close>

datatype sock_call =
    Unlink bytes
  | Open_socket family kind int
  | Bind_to int address int
  | Listen_on int int int
  | Accept_on int int
  | Connect_to int address int
  | Receive int nat int
  | Transmit int bytes int
  | Transmit_to int bytes address int
  | Close_socket int
  | Out bytes
  | Err bytes

text \<open>
  The environment: the result of each call, the bytes on their way to the socket (\<open>None\<close> is a
  failing receive), and the two address conversions of the C library.
\<close>

record sock_env =
  r_socket :: int
  r_bind :: int
  r_listen :: int
  r_accept :: int
  r_connect :: int
  r_send :: int
  pending :: "bytes option"
  inet_addr4 :: "bytes \<Rightarrow> nat list"
  inet_pton4 :: "bytes \<Rightarrow> nat list option"

type_synonym run = "(int \<times> sock_call list) option"

definition stop_with :: "int \<Rightarrow> sock_call list \<Rightarrow> run" where
  "stop_with code calls = Some (code, calls)"

definition after :: "sock_call list \<Rightarrow> run \<Rightarrow> run" where
  "after calls r = map_option (map_prod id ((@) calls)) r"

lemma sequence_simps [simp]:
  "after calls (stop_with code cs) = stop_with code (calls @ cs)"
  "after calls None = None"
  "after calls (after cs r) = after (calls @ cs) r"
  "stop_with code cs = Some (code', cs') \<longleftrightarrow> code = code' \<and> cs = cs'"
  "stop_with code cs \<noteq> None"
  by (auto simp: after_def stop_with_def option.map_comp map_prod.comp comp_def map_prod_def
      split: prod.splits intro!: option.map_cong)

definition line :: "bytes \<Rightarrow> bytes" where
  "line s = s @ [CHR 0x0A]"

definition text_usage :: "bytes \<Rightarrow> bytes" where
  "text_usage prog = line (''Usage: '' @ prog @ '' <IP> <PORT>'')"

definition text_received :: "bytes \<Rightarrow> bytes" where
  "text_received m = line (''Server received: '' @ m)"

definition text_sent :: "bytes \<Rightarrow> bytes" where
  "text_sent m = line (''Client sent: '' @ m)"

text \<open>
  \<open>receive_into cap buf p\<close> is a \<^verbatim>\<open>read\<close> or \<^verbatim>\<open>recvfrom\<close> of at most \<open>cap\<close> bytes into \<open>buf\<close>: what does
  not fit is left in the stream, or dropped with the rest of the datagram.
\<close>

definition receive_into :: "nat \<Rightarrow> bytes \<Rightarrow> bytes option \<Rightarrow> int \<times> bytes" where
  "receive_into cap buf p = (case p of None \<Rightarrow> (-1, buf)
     | Some d \<Rightarrow> (int (length (take cap d)), overwrite buf (take cap d)))"

text \<open>\<^verbatim>\<open>printf("Server received: %s\n", buffer)\<close>, which runs off a buffer without NUL.\<close>

definition print_received :: "bytes \<Rightarrow> sock_call list \<Rightarrow> int \<Rightarrow> run" where
  "print_received buf calls code =
     (case c_string buf of None \<Rightarrow> None
      | Some m \<Rightarrow> stop_with code (Out (text_received m) # calls))"

section \<open>IPv4 streams\<close>

definition BUFFER_LEN :: nat where "BUFFER_LEN = 1024"

definition text_listening :: "bytes \<Rightarrow> int \<Rightarrow> bytes" where
  "text_listening ip_text port =
     line (''Server is listening on '' @ ip_text @ '':'' @ show_int port @ ''...'')"

definition ipv4_stream_server :: "bytes list \<Rightarrow> sock_env \<Rightarrow> run" where
  "ipv4_stream_server argv e = (case argv of
     [] \<Rightarrow> None
   | prog # args \<Rightarrow> (case args of
     [ip_text, port_text] \<Rightarrow>
       (let port = atoi port_text; buffer = replicate BUFFER_LEN NUL; server_fd = r_socket e in
        after [Open_socket AF_INET SOCK_STREAM server_fd] (
        if server_fd = -1 then stop_with 1 [Err ''socket failed''] else
        let addr = Inet (inet_addr4 e ip_text) (htons_port port) in
        after [Bind_to server_fd addr (r_bind e)] (
        if r_bind e < 0 then stop_with 1 [Err ''bind failed''] else
        after [Listen_on server_fd 1 (r_listen e)] (
        if r_listen e < 0 then stop_with 1 [Err ''listen failed''] else
        let client_fd = r_accept e in
        after [Out (text_listening ip_text port),
               Accept_on server_fd client_fd] (
        if client_fd < 0 then stop_with 1 [Err ''accept failed''] else
        case receive_into BUFFER_LEN buffer (pending e) of (n, buffer) \<Rightarrow>
        after [Receive client_fd BUFFER_LEN n] (
        print_received buffer [Close_socket client_fd, Close_socket server_fd] 0))))))
   | _ \<Rightarrow> stop_with 1 [Out (text_usage prog)]))"

text \<open>
  The line editing of the clients.  \<open>type_message junk inp\<close> is the array after \<^verbatim>\<open>fgets\<close>; the array
  \<open>junk\<close> is not initialised, and stays as it is at the end of the input.  \<open>strip_newline\<close> is
  \<^verbatim>\<open>message[strcspn(message, "\n")] = '\0'\<close>.
\<close>

definition type_message :: "bytes \<Rightarrow> bytes \<Rightarrow> bytes" where
  "type_message junk inp = (case fgets BUFFER_LEN inp of None \<Rightarrow> junk
     | Some (l, rest) \<Rightarrow> overwrite junk (l @ [NUL]))"

definition strip_newline :: "bytes \<Rightarrow> bytes option" where
  "strip_newline buf = do {
     i \<leftarrow> first_index (\<lambda>c. c = CHR 0x0A \<or> c = NUL) buf;
     buf_put buf (int i) NUL
   }"

definition ipv4_stream_client :: "bytes list \<Rightarrow> bytes \<Rightarrow> bytes \<Rightarrow> sock_env \<Rightarrow> run" where
  "ipv4_stream_client argv junk inp e = (case argv of
     [] \<Rightarrow> None
   | prog # args \<Rightarrow> (case args of
     [ip_text, port_text] \<Rightarrow>
       (let port = atoi port_text; sockfd = r_socket e in
        after [Open_socket AF_INET SOCK_STREAM sockfd] (
        if sockfd < 0 then stop_with 1 [Err ''socket creation failed''] else
        case inet_pton4 e ip_text of
          None \<Rightarrow> stop_with 1 [Err ''Invalid address'']
        | Some octets \<Rightarrow>
        after [Connect_to sockfd (Inet octets (htons_port port)) (r_connect e)] (
        if r_connect e < 0 then stop_with 1 [Err ''Connection failed''] else
        after [Out ''Enter message to send: ''] (
        case strip_newline (type_message junk inp) of None \<Rightarrow> None | Some buf \<Rightarrow>
        case c_string buf of None \<Rightarrow> None | Some message \<Rightarrow>
        stop_with 0 [Transmit sockfd message (r_send e), Out (text_sent message),
          Close_socket sockfd]))))
   | _ \<Rightarrow> stop_with 1 [Out (text_usage prog)]))"

section \<open>IPv4 datagrams\<close>

definition PORT :: int where "PORT = 8080"

definition text_udp_waiting :: bytes where
  "text_udp_waiting = line (''UDP Server is waiting for data on port '' @ show_int PORT @ ''...'')"

definition ipv4_dgram_server :: "sock_env \<Rightarrow> run" where
  "ipv4_dgram_server e =
     (let buffer = replicate 1024 NUL; sockfd = r_socket e in
      after [Open_socket AF_INET SOCK_DGRAM sockfd] (
      if sockfd < 0 then stop_with 1 [Err ''socket creation failed''] else
      after [Bind_to sockfd (Inet [0, 0, 0, 0] (htons_port PORT)) (r_bind e)] (
      if r_bind e < 0 then stop_with 1 [Err ''bind failed''] else
      case receive_into 1024 buffer (pending e) of (n, buffer) \<Rightarrow>
      after [Out text_udp_waiting,
             Receive sockfd 1024 n] (
      print_received buffer [Close_socket sockfd] 0))))"

definition ipv4_dgram_client :: "bytes \<Rightarrow> bytes \<Rightarrow> sock_env \<Rightarrow> run" where
  "ipv4_dgram_client junk inp e =
     (let sockfd = r_socket e in
      after [Open_socket AF_INET SOCK_DGRAM sockfd] (
      if sockfd < 0 then stop_with 1 [Err ''socket creation failed''] else
      let octets = (case inet_pton4 e ''127.0.0.1'' of None \<Rightarrow> [0, 0, 0, 0] | Some o4 \<Rightarrow> o4) in
      after [Out ''Enter a message to send: ''] (
      case c_string (type_message junk inp) of None \<Rightarrow> None | Some message \<Rightarrow>
      stop_with 0 [Transmit_to sockfd message (Inet octets (htons_port PORT)) (r_send e),
        Out (text_sent message), Close_socket sockfd])))"

section \<open>UNIX-domain streams\<close>

text \<open>A cleared \<^verbatim>\<open>sun_path\<close> of 108 bytes after the \<^verbatim>\<open>strncpy\<close> of at most 107.\<close>

definition unix_address :: "bytes \<Rightarrow> address" where
  "unix_address path = Local (overwrite (replicate 108 NUL) (strncpy_field 107 path))"

definition SOCKET_PATH :: bytes where "SOCKET_PATH = ''/tmp/mysocket_stream''"

definition text_stream_waiting :: bytes where
  "text_stream_waiting =
     line (''UNIX Stream Server waiting for connection at '' @ SOCKET_PATH @ ''...'')"

definition hello_message :: bytes where "hello_message = ''Hello from client!''"

definition unix_stream_server :: "sock_env \<Rightarrow> run" where
  "unix_stream_server e =
     (let buffer = replicate 1024 NUL; server_fd = r_socket e in
      after [Unlink SOCKET_PATH, Open_socket AF_UNIX SOCK_STREAM server_fd] (
      if server_fd < 0 then stop_with 1 [Err ''socket failed''] else
      after [Bind_to server_fd (unix_address SOCKET_PATH) (r_bind e)] (
      if r_bind e < 0 then stop_with 1 [Err ''bind failed'', Close_socket server_fd] else
      after [Listen_on server_fd 1 (r_listen e)] (
      if r_listen e < 0 then stop_with 1 [Err ''listen failed'', Close_socket server_fd] else
      let client_fd = r_accept e in
      after [Out text_stream_waiting,
             Accept_on server_fd client_fd] (
      if client_fd < 0 then stop_with 1 [Err ''accept failed'', Close_socket server_fd] else
      let clean_up = [Close_socket client_fd, Close_socket server_fd, Unlink SOCKET_PATH] in
      case receive_into (1024 - 1) buffer (pending e) of (n, buffer) \<Rightarrow>
      after [Receive client_fd (1024 - 1) n] (
      if n < 0 then stop_with 0 (Err ''read failed'' # clean_up) else
      case buf_put buffer (1024 - 1) NUL of None \<Rightarrow> None | Some buffer \<Rightarrow>
      print_received buffer clean_up 0))))))"

definition unix_stream_client :: "sock_env \<Rightarrow> run" where
  "unix_stream_client e =
     (let message = hello_message; sockfd = r_socket e in
      after [Open_socket AF_UNIX SOCK_STREAM sockfd] (
      if sockfd < 0 then stop_with 1 [Err ''socket creation failed''] else
      after [Connect_to sockfd (unix_address SOCKET_PATH) (r_connect e)] (
      if r_connect e < 0 then stop_with 1 [Err ''connect failed'', Close_socket sockfd] else
      after [Transmit sockfd message (r_send e)] (
      if r_send e < 0 then stop_with 1 [Err ''send failed'', Close_socket sockfd] else
      stop_with 0 [Out (text_sent message), Close_socket sockfd]))))"

section \<open>UNIX-domain datagrams\<close>

definition SERVER_SOCKET_PATH :: bytes where "SERVER_SOCKET_PATH = ''/tmp/mysocket_dgram_server''"
definition CLIENT_SOCKET_PATH :: bytes where "CLIENT_SOCKET_PATH = ''/tmp/mysocket_dgram_client''"

definition text_dgram_waiting :: bytes where
  "text_dgram_waiting =
     line (''UNIX Datagram Server listening at '' @ SERVER_SOCKET_PATH @ ''...'')"

text \<open>The buffer \<open>junk\<close> of this server is not initialised.\<close>

definition unix_dgram_server :: "bytes \<Rightarrow> sock_env \<Rightarrow> run" where
  "unix_dgram_server junk e =
     (let sockfd = r_socket e in
      after [Unlink SERVER_SOCKET_PATH, Open_socket AF_UNIX SOCK_DGRAM sockfd] (
      if sockfd < 0 then stop_with 1 [Err ''socket''] else
      after [Bind_to sockfd (unix_address SERVER_SOCKET_PATH) (r_bind e)] (
      if r_bind e < 0 then stop_with 1 [Err ''bind'', Close_socket sockfd] else
      case receive_into (1024 - 1) junk (pending e) of (n, buffer) \<Rightarrow>
      after [Out text_dgram_waiting,
             Receive sockfd (1024 - 1) n] (
      if n < 0
      then stop_with 1 [Err ''recvfrom'', Close_socket sockfd, Unlink SERVER_SOCKET_PATH] else
      case buf_put buffer (1024 - 1) NUL of None \<Rightarrow> None | Some buffer \<Rightarrow>
      print_received buffer [Close_socket sockfd, Unlink SERVER_SOCKET_PATH] 0))))"

definition unix_dgram_client :: "sock_env \<Rightarrow> run" where
  "unix_dgram_client e =
     (let message = hello_message; sockfd = r_socket e in
      after [Unlink CLIENT_SOCKET_PATH, Open_socket AF_UNIX SOCK_DGRAM sockfd] (
      if sockfd < 0 then stop_with 1 [Err ''socket''] else
      after [Bind_to sockfd (unix_address CLIENT_SOCKET_PATH) (r_bind e)] (
      if r_bind e < 0 then stop_with 1 [Err ''bind'', Close_socket sockfd] else
      after [Transmit_to sockfd message (unix_address SERVER_SOCKET_PATH) (r_send e)] (
      if r_send e < 0
      then stop_with 1 [Err ''sendto'', Close_socket sockfd, Unlink CLIENT_SOCKET_PATH] else
      stop_with 0 [Out (text_sent message), Close_socket sockfd, Unlink CLIENT_SOCKET_PATH]))))"

section \<open>A type discipline for descriptors\<close>

text \<open>
  A descriptor is typed by its family, its kind and how far it is set up; a call is typed when its
  descriptor has the type the call needs, and changes the type as the kernel does.  A new descriptor
  must not be one that is open.
\<close>

datatype setup_phase = Created | Bound | Listening | Connected

type_synonym sock_types = "int \<rightharpoonup> family \<times> kind \<times> setup_phase"

fun family_of :: "address \<Rightarrow> family" where
  "family_of (Inet octets port) = AF_INET"
| "family_of (Local path) = AF_UNIX"

fun advance_type :: "sock_types \<Rightarrow> int \<Rightarrow> (family \<times> kind \<times> setup_phase \<Rightarrow> bool) \<Rightarrow> setup_phase \<Rightarrow> int \<Rightarrow> sock_types option"
  where
  "advance_type G fd ok ph res = (case G fd of None \<Rightarrow> None
     | Some (f, k, ph0) \<Rightarrow>
         if \<not> ok (f, k, ph0) then None
         else if res < 0 then Some G else Some (G(fd \<mapsto> (f, k, ph))))"

fun introduce :: "sock_types \<Rightarrow> int \<Rightarrow> family \<times> kind \<times> setup_phase \<Rightarrow> sock_types option" where
  "introduce G fd t =
     (if fd < 0 then Some G else if G fd = None then Some (G(fd \<mapsto> t)) else None)"

fun call_type :: "sock_types \<Rightarrow> sock_call \<Rightarrow> sock_types option" where
  "call_type G (Open_socket f k fd) = introduce G fd (f, k, Created)"
| "call_type G (Bind_to fd addr res) =
     advance_type G fd (\<lambda>(f, k, ph). ph = Created \<and> f = family_of addr) Bound res"
| "call_type G (Listen_on fd n res) =
     advance_type G fd (\<lambda>(f, k, ph). k = SOCK_STREAM \<and> ph = Bound) Listening res"
| "call_type G (Accept_on fd new) = (case G fd of
     Some (f, SOCK_STREAM, Listening) \<Rightarrow> introduce G new (f, SOCK_STREAM, Connected)
   | _ \<Rightarrow> None)"
| "call_type G (Connect_to fd addr res) =
     advance_type G fd (\<lambda>(f, k, ph). k = SOCK_STREAM \<and> ph = Created \<and> f = family_of addr) Connected res"
| "call_type G (Receive fd cap n) = (case G fd of
     Some (f, SOCK_STREAM, Connected) \<Rightarrow> Some G | Some (f, SOCK_DGRAM, Bound) \<Rightarrow> Some G
   | _ \<Rightarrow> None)"
| "call_type G (Transmit fd m res) = (case G fd of
     Some (f, SOCK_STREAM, Connected) \<Rightarrow> Some G | _ \<Rightarrow> None)"
| "call_type G (Transmit_to fd m addr res) = (case G fd of
     Some (f, SOCK_DGRAM, ph) \<Rightarrow> if f = family_of addr then Some G else None | _ \<Rightarrow> None)"
| "call_type G (Close_socket fd) = (if G fd = None then None else Some (G(fd := None)))"
| "call_type G c = Some G"

fun calls_type :: "sock_types \<Rightarrow> sock_call list \<Rightarrow> sock_types option" where
  "calls_type G [] = Some G"
| "calls_type G (c # cs) = do { G' \<leftarrow> call_type G c; calls_type G' cs }"

text \<open>The paths of the bound sockets that are in the file system after the calls.\<close>

fun files_after :: "bytes list \<Rightarrow> sock_call list \<Rightarrow> bytes list" where
  "files_after fs [] = fs"
| "files_after fs (Bind_to fd (Local path) res # cs) =
     files_after (if res < 0 then fs else takeWhile (\<lambda>c. c \<noteq> NUL) path # fs) cs"
| "files_after fs (Unlink path # cs) = files_after (filter (\<lambda>f. f \<noteq> path) fs) cs"
| "files_after fs (c # cs) = files_after fs cs"

text \<open>How a program ends: its exit status, the type of what is still open, the files left behind.\<close>

definition ends :: "run \<Rightarrow> (int \<times> sock_types option \<times> bytes list) option" where
  "ends r = map_option (\<lambda>(code, calls).
     (code, calls_type Map.empty calls, files_after [] calls)) r"

lemma ends_simps [simp]:
  "ends None = None"
  "ends (stop_with code calls) = Some (code, calls_type Map.empty calls, files_after [] calls)"
  by (simp_all add: ends_def stop_with_def)

definition well_typed :: "run \<Rightarrow> bool" where
  "well_typed r = (case r of None \<Rightarrow> True | Some (code, calls) \<Rightarrow> calls_type Map.empty calls \<noteq> None)"

lemma well_typed_simps [simp]:
  "well_typed None"
  "well_typed (stop_with code calls) \<longleftrightarrow> calls_type Map.empty calls \<noteq> None"
  by (simp_all add: well_typed_def stop_with_def)

text \<open>What the kernel guarantees: failure is -1, and an accepted connection is a new descriptor.\<close>

definition fresh_descriptors :: "sock_env \<Rightarrow> bool" where
  "fresh_descriptors e \<longleftrightarrow> -1 \<le> r_socket e \<and> (r_accept e < 0 \<or> r_accept e \<noteq> r_socket e)"

text \<open>
  The messages a program puts on the wire and the texts it prints.  A send puts as many bytes on the
  wire as it returns, and none when it fails.
\<close>

definition taken :: "bytes \<Rightarrow> int \<Rightarrow> bytes list" where
  "taken m res = (if res < 0 then [] else [take (nat res) m])"

fun wire_of :: "sock_call list \<Rightarrow> bytes list" where
  "wire_of [] = []"
| "wire_of (Transmit fd m res # cs) = taken m res @ wire_of cs"
| "wire_of (Transmit_to fd m addr res # cs) = taken m res @ wire_of cs"
| "wire_of (c # cs) = wire_of cs"

fun screen_of :: "sock_call list \<Rightarrow> bytes list" where
  "screen_of [] = []"
| "screen_of (Out t # cs) = t # screen_of cs"
| "screen_of (c # cs) = screen_of cs"

definition transmitted :: "run \<Rightarrow> bytes list" where
  "transmitted r = (case r of None \<Rightarrow> [] | Some (code, calls) \<Rightarrow> wire_of calls)"

definition said :: "run \<Rightarrow> bytes list" where
  "said r = (case r of None \<Rightarrow> [] | Some (code, calls) \<Rightarrow> screen_of calls)"

lemma trace_simps [simp]:
  "transmitted None = []" "transmitted (stop_with code calls) = wire_of calls"
  "said None = []" "said (stop_with code calls) = screen_of calls"
  by (simp_all add: transmitted_def said_def stop_with_def)

section \<open>Buffers\<close>

lemma unix_address_path:
  assumes "NUL \<notin> set path" "length path < 108"
  shows "\<exists>field. unix_address path = Local field \<and> length field = 108 \<and>
    takeWhile (\<lambda>c. c \<noteq> NUL) field = path"
proof -
  have "strncpy_field 107 path = path @ replicate (107 - length path) NUL"
    using assms(2) by (simp add: strncpy_field_def)
  moreover have "takeWhile (\<lambda>c. c \<noteq> NUL) (path @ replicate n NUL @ [NUL]) = path" for n
    using assms(1) by (cases n) (auto simp: takeWhile_append takeWhile_eq_all_conv)
  ultimately show ?thesis
    using assms(2) by (simp add: unix_address_def overwrite_def)
qed

lemma path_texts:
  "NUL \<notin> set SOCKET_PATH" "length SOCKET_PATH < 108"
  "NUL \<notin> set SERVER_SOCKET_PATH" "length SERVER_SOCKET_PATH < 108"
  "NUL \<notin> set CLIENT_SOCKET_PATH" "length CLIENT_SOCKET_PATH < 108"
  by (simp_all add: SOCKET_PATH_def SERVER_SOCKET_PATH_def CLIENT_SOCKET_PATH_def)

text \<open>The buffer after a receive into zeros: the message up to its first NUL, if one is in range.\<close>

lemma received_in_zeros:
  "c_string (snd (receive_into n (replicate n NUL) (Some d))) =
    (if length d < n \<or> NUL \<in> set (take n d) then Some (takeWhile (\<lambda>c. c \<noteq> NUL) (take n d)) else None)"
proof (cases "length d < n")
  case True
  then obtain k where "n - length d = Suc k" by (cases "n - length d") auto
  then show ?thesis
    using True by (simp add: receive_into_def overwrite_def c_string_prefix)
next
  case False
  then show ?thesis by (simp add: receive_into_def overwrite_def c_string_def)
qed

lemma string_takeWhile: "NUL \<notin> set m \<Longrightarrow> takeWhile (\<lambda>c. c \<noteq> NUL) m = m"
  by (auto simp: takeWhile_eq_all_conv)

text \<open>A receive that leaves room for the terminator always makes a string.\<close>

lemma received_with_terminator:
  assumes "length buf = Suc n" "length d \<le> n"
  shows "\<exists>b. buf_put (overwrite buf d) (int n) NUL = Some b \<and>
    c_string b = Some (takeWhile (\<lambda>c. c \<noteq> NUL) (d @ drop (length d) (take n buf)))"
proof -
  have "length (overwrite buf d) = Suc n" using assms by (simp add: overwrite_def)
  moreover have "(overwrite buf d)[n := NUL] = take n (overwrite buf d) @ [NUL]"
    using \<open>length (overwrite buf d) = Suc n\<close> by (simp add: upd_conv_take_nth_drop)
  moreover have "take n (overwrite buf d) = d @ drop (length d) (take n buf)"
    using assms by (simp add: overwrite_def drop_take)
  ultimately show ?thesis
    using c_string_prefix [of "d @ drop (length d) (take n buf)" "[]"] by (simp add: buf_put_nat)
qed

lemma fgets_length: "fgets n inp = Some (l, rest) \<Longrightarrow> length l \<le> n - 1"
  by (auto simp: fgets_def Let_def split: if_splits option.splits)

text \<open>The clients' arrays hold a string after a line was typed.\<close>

lemma typed_message:
  assumes "length junk = BUFFER_LEN" "fgets BUFFER_LEN inp = Some (l, rest)"
  shows "\<exists>r. type_message junk inp = l @ NUL # r"
  using assms fgets_length [OF assms(2)]
  by (simp add: type_message_def overwrite_def)

lemma strip_newline_string:
  assumes "strip_newline buf = Some b"
  shows "c_string b = Some (takeWhile (\<lambda>c. c \<noteq> NUL \<and> c \<noteq> CHR 0x0A) buf)"
proof -
  obtain i where i: "first_index (\<lambda>c. c = CHR 0x0A \<or> c = NUL) buf = Some i"
      and b: "buf_put buf (int i) NUL = Some b"
    using assms by (cases "first_index (\<lambda>c. c = CHR 0x0A \<or> c = NUL) buf") (auto simp: strip_newline_def)
  have len: "i < length buf" using i by (rule first_index_SomeD)
  have "takeWhile (\<lambda>c. \<not> (c = CHR 0x0A \<or> c = NUL)) buf = take i buf"
    using i by (rule first_index_takeWhile)
  then have t: "takeWhile (\<lambda>c. c \<noteq> NUL \<and> c \<noteq> CHR 0x0A) buf = take i buf"
    by (simp add: conj_commute)
  then have "NUL \<notin> set (take i buf)" by (metis (mono_tags, lifting) set_takeWhileD)
  moreover have "b = take i buf @ NUL # drop (Suc i) buf"
    using b len by (simp add: buf_put_nat upd_conv_take_nth_drop)
  ultimately show ?thesis using t by (simp add: c_string_append)
qed

lemma strip_newline_chomp:
  "\<exists>b. strip_newline (l @ NUL # r) = Some b \<and> c_string b = Some (chomp l)"
proof -
  obtain i where i: "first_index (\<lambda>c. c = CHR 0x0A \<or> c = NUL) (l @ NUL # r) = Some i"
    using first_index_ex [of NUL "l @ NUL # r" "\<lambda>c. c = CHR 0x0A \<or> c = NUL"] by auto
  then have "i < length (l @ NUL # r)" by (rule first_index_SomeD)
  then obtain b where b: "strip_newline (l @ NUL # r) = Some b"
    using i by (simp only: strip_newline_def) (simp add: buf_put_nat)
  have "takeWhile (\<lambda>c. c \<noteq> NUL \<and> c \<noteq> CHR 0x0A) (l @ NUL # r) = chomp l"
    by (induction l) (auto simp: chomp_def)
  then show ?thesis using strip_newline_string [OF b] b by simp
qed

text \<open>What the message array holds is a string of less than its length, if it holds one.\<close>

lemma c_string_length: "c_string b = Some m \<Longrightarrow> NUL \<notin> set m \<and> length m < length b"
  by (auto simp: c_string_no_NUL dest!: c_string_split)

lemma length_type_message:
  assumes "length junk = BUFFER_LEN"
  shows "length (type_message junk inp) = BUFFER_LEN"
proof (cases "fgets BUFFER_LEN inp")
  case (Some p)
  obtain l r where "p = (l, r)" by (cases p)
  then show ?thesis
    using assms Some fgets_length [of BUFFER_LEN inp l r]
    by (simp add: type_message_def overwrite_def BUFFER_LEN_def)
qed (use assms in \<open>simp add: type_message_def\<close>)

lemma length_strip_newline: "strip_newline buf = Some b \<Longrightarrow> length b = length buf"
  by (cases "first_index (\<lambda>c. c = CHR 0x0A \<or> c = NUL) buf")
    (auto simp: strip_newline_def dest: buf_put_length)

section \<open>How the programs end\<close>

lemma run_cases [simp]:
  "after cs (if b then r else r') = (if b then after cs r else after cs r')"
  "ends (if b then r else r') = (if b then ends r else ends r')"
  "well_typed (if b then r else r') = (if b then well_typed r else well_typed r')"
  by simp_all

lemma after_print [simp]:
  "after cs (print_received buf calls code) = (case c_string buf of None \<Rightarrow> None
     | Some m \<Rightarrow> stop_with code (cs @ Out (text_received m) # calls))"
  by (simp add: print_received_def split: option.split)

lemma unix_paths:
  "unix_address SOCKET_PATH = Local f \<Longrightarrow> takeWhile (\<lambda>c. c \<noteq> NUL) f = SOCKET_PATH"
  "unix_address SERVER_SOCKET_PATH = Local f \<Longrightarrow> takeWhile (\<lambda>c. c \<noteq> NUL) f = SERVER_SOCKET_PATH"
  "unix_address CLIENT_SOCKET_PATH = Local f \<Longrightarrow> takeWhile (\<lambda>c. c \<noteq> NUL) f = CLIENT_SOCKET_PATH"
  using unix_address_path path_texts by fastforce+

lemma unix_address_Local [simp]: "family_of (unix_address path) = AF_UNIX"
  by (simp add: unix_address_def)

lemma files_after_bind [simp]:
  "files_after fs (Bind_to fd (unix_address SOCKET_PATH) res # cs) =
     files_after (if res < 0 then fs else SOCKET_PATH # fs) cs"
  "files_after fs (Bind_to fd (unix_address SERVER_SOCKET_PATH) res # cs) =
     files_after (if res < 0 then fs else SERVER_SOCKET_PATH # fs) cs"
  "files_after fs (Bind_to fd (unix_address CLIENT_SOCKET_PATH) res # cs) =
     files_after (if res < 0 then fs else CLIENT_SOCKET_PATH # fs) cs"
  using unix_paths by (auto simp: unix_address_def)

lemma unix_dgram_client_ends:
  assumes "fresh_descriptors e"
  shows "ends (unix_dgram_client e) =
    Some (if r_socket e < 0 \<or> r_bind e < 0 \<or> r_send e < 0 then 1 else 0, Some Map.empty, [])"
  using assms by (simp add: unix_dgram_client_def Let_def fresh_descriptors_def)

lemma unix_stream_client_ends:
  assumes "fresh_descriptors e"
  shows "ends (unix_stream_client e) =
    Some (if r_socket e < 0 \<or> r_connect e < 0 \<or> r_send e < 0 then 1 else 0, Some Map.empty, [])"
  using assms by (simp add: unix_stream_client_def Let_def fresh_descriptors_def)

text \<open>Both UNIX-domain servers receive 1023 bytes at most and put a NUL behind them.\<close>

lemma local_server_buffer:
  assumes "length buf = 1024"
  shows "\<exists>b. buf_put (overwrite buf (take 1023 d)) 1023 NUL = Some b \<and>
    c_string b = Some (takeWhile (\<lambda>c. c \<noteq> NUL) (take 1023 d @ drop (length (take 1023 d)) (take 1023 buf)))"
  using received_with_terminator [of buf 1023 "take 1023 d"] assms by simp

lemma unix_dgram_server_ends:
  assumes "fresh_descriptors e" "length junk = 1024"
  shows "ends (unix_dgram_server junk e) =
    Some (if r_socket e < 0 \<or> r_bind e < 0 \<or> pending e = None then 1 else 0, Some Map.empty, [])"
proof (cases "pending e")
  case None
  then show ?thesis using assms(1)
    by (simp add: unix_dgram_server_def Let_def fresh_descriptors_def receive_into_def)
next
  case (Some d)
  obtain b where "buf_put (overwrite junk (take 1023 d)) 1023 NUL = Some b" "c_string b \<noteq> None"
    using local_server_buffer [OF assms(2), of d] by auto
  then show ?thesis using assms(1) Some
    by (auto simp: unix_dgram_server_def Let_def fresh_descriptors_def receive_into_def)
qed

lemma unix_stream_server_ends:
  assumes "fresh_descriptors e"
  shows "ends (unix_stream_server e) =
    Some (if r_socket e < 0 \<or> r_bind e < 0 \<or> r_listen e < 0 \<or> r_accept e < 0 then 1 else 0,
      Some Map.empty,
      if 0 \<le> r_socket e \<and> 0 \<le> r_bind e \<and> (r_listen e < 0 \<or> r_accept e < 0) then [SOCKET_PATH] else [])"
proof (cases "pending e")
  case None
  then show ?thesis using assms
    by (auto simp: unix_stream_server_def Let_def fresh_descriptors_def receive_into_def)
next
  case (Some d)
  obtain b where "buf_put (overwrite (replicate 1024 NUL) (take 1023 d)) 1023 NUL = Some b"
      "c_string b \<noteq> None"
    using local_server_buffer [of "replicate 1024 NUL" d] by auto
  then show ?thesis using assms Some
    by (auto simp: unix_stream_server_def Let_def fresh_descriptors_def receive_into_def)
qed

text \<open>What the IPv4 programs leave open.\<close>

definition left_open :: "int \<Rightarrow> family \<times> kind \<times> setup_phase \<Rightarrow> sock_types" where
  "left_open fd t = Map.empty(fd \<mapsto> t)"

lemma ipv4_stream_server_ends:
  assumes "fresh_descriptors e"
    "c_string (snd (receive_into BUFFER_LEN (replicate BUFFER_LEN NUL) (pending e))) \<noteq> None"
  shows "ends (ipv4_stream_server [prog, ip_text, port_text] e) =
    (if r_socket e = -1 then Some (1, Some Map.empty, [])
     else if r_bind e < 0 then Some (1, Some (left_open (r_socket e) (AF_INET, SOCK_STREAM, Created)), [])
     else if r_listen e < 0 then Some (1, Some (left_open (r_socket e) (AF_INET, SOCK_STREAM, Bound)), [])
     else if r_accept e < 0
     then Some (1, Some (left_open (r_socket e) (AF_INET, SOCK_STREAM, Listening)), [])
     else Some (0, Some Map.empty, []))"
  using assms
  by (auto simp: ipv4_stream_server_def Let_def fresh_descriptors_def left_open_def split: prod.splits)

lemma ipv4_stream_client_ends:
  assumes "fresh_descriptors e" "length junk = BUFFER_LEN" "inp \<noteq> []"
  shows "ends (ipv4_stream_client [prog, ip_text, port_text] junk inp e) =
    (if r_socket e < 0 then Some (1, Some Map.empty, [])
     else if inet_pton4 e ip_text = None \<or> r_connect e < 0
     then Some (1, Some (left_open (r_socket e) (AF_INET, SOCK_STREAM, Created)), [])
     else Some (0, Some Map.empty, []))"
proof -
  obtain l rest where "fgets BUFFER_LEN inp = Some (l, rest)"
    using assms(3) by (auto simp: fgets_def Let_def)
  then obtain r where "type_message junk inp = l @ NUL # r"
    using typed_message [OF assms(2)] by blast
  then obtain b where "strip_newline (type_message junk inp) = Some b" "c_string b = Some (chomp l)"
    using strip_newline_chomp by metis
  then show ?thesis using assms(1)
    by (auto simp: ipv4_stream_client_def Let_def fresh_descriptors_def left_open_def
        split: option.splits)
qed

lemma ipv4_dgram_server_typed:
  "fresh_descriptors e \<Longrightarrow> well_typed (ipv4_dgram_server e)"
  by (auto simp: ipv4_dgram_server_def Let_def fresh_descriptors_def split: prod.splits option.splits)

lemma ipv4_dgram_client_typed:
  "fresh_descriptors e \<Longrightarrow> well_typed (ipv4_dgram_client junk inp e)"
  by (auto simp: ipv4_dgram_client_def Let_def fresh_descriptors_def split: option.splits)

lemma ipv4_stream_server_typed:
  "fresh_descriptors e \<Longrightarrow> well_typed (ipv4_stream_server argv e)"
  by (auto simp: ipv4_stream_server_def Let_def fresh_descriptors_def
      split: prod.splits option.splits list.splits)

lemma ipv4_stream_client_typed:
  "fresh_descriptors e \<Longrightarrow> well_typed (ipv4_stream_client argv junk inp e)"
  by (auto simp: ipv4_stream_client_def Let_def fresh_descriptors_def
      split: option.splits list.splits)

lemma ends_typed: "ends r = Some (code, Some G, fs) \<Longrightarrow> well_typed r"
  by (cases r) (auto simp: ends_def well_typed_def)

text \<open>
  C19: the descriptor discipline.  Whatever the kernel answers, each of the eight programs uses
  every descriptor only in the state the call needs: it binds and connects fresh sockets of the
  address's family, listens on bound streams, accepts on listening ones, receives on connected
  streams and bound datagram sockets, sends on connected streams and datagram sockets, closes what
  is open and nothing twice.
\<close>

theorem socket_programs_typed:
  assumes "fresh_descriptors e" "length junk = 1024"
  shows "well_typed (ipv4_stream_server argv e) \<and> well_typed (ipv4_stream_client argv junk inp e) \<and>
    well_typed (ipv4_dgram_server e) \<and> well_typed (ipv4_dgram_client junk inp e) \<and>
    well_typed (unix_stream_server e) \<and> well_typed (unix_stream_client e) \<and>
    well_typed (unix_dgram_server junk e) \<and> well_typed (unix_dgram_client e)"
  using assms ipv4_dgram_server_typed ipv4_dgram_client_typed ipv4_stream_server_typed
    ipv4_stream_client_typed ends_typed [OF unix_stream_server_ends]
    ends_typed [OF unix_stream_client_ends] ends_typed [OF unix_dgram_server_ends]
    ends_typed [OF unix_dgram_client_ends] by blast

text \<open>A kernel that grants everything and has the message \<open>m\<close> on its way.\<close>

definition willing :: "bytes option \<Rightarrow> sock_env" where
  "willing m = \<lparr>r_socket = 3, r_bind = 0, r_listen = 0, r_accept = 4, r_connect = 0, r_send = 18,
     pending = m, inet_addr4 = (\<lambda>t. [127, 0, 0, 1]), inet_pton4 = (\<lambda>t. Some [127, 0, 0, 1])\<rparr>"

lemma willing_simps [simp]:
  "fresh_descriptors (willing m)" "r_socket (willing m) = 3" "r_bind (willing m) = 0"
  "r_listen (willing m) = 0" "r_accept (willing m) = 4" "r_connect (willing m) = 0"
  "r_send (willing m) = 18" "pending (willing m) = m"
  by (simp_all add: willing_def fresh_descriptors_def)

theorem socket_programs_typed_witness:
  "well_typed (ipv4_stream_server [''s'', ''127.0.0.1'', ''80''] (willing (Some ''hi'')))"
  using socket_programs_typed [where e = "willing (Some ''hi'')" and junk = "replicate 1024 NUL"]
  by simp

text \<open>
  C20: clean-up of the UNIX-domain programs.  On every path, the error paths included, the four
  programs close all they opened.  The exit status is 1 exactly when a call failed, with one
  exception: after a failed \<^verbatim>\<open>read\<close> the stream server exits with 0 (its status does not depend
  on \<open>pending\<close>), although its comment promises a non-zero status on failure.  The datagram programs also
  remove the socket file they bound, and so does the stream server except when \<^verbatim>\<open>listen\<close> or
  \<^verbatim>\<open>accept\<close> fails: then its file stays behind.
\<close>

theorem local_sockets_released:
  assumes "fresh_descriptors e" "length junk = 1024"
  shows "ends (unix_stream_server e) =
      Some (if r_socket e < 0 \<or> r_bind e < 0 \<or> r_listen e < 0 \<or> r_accept e < 0 then 1 else 0,
        Some Map.empty,
        if 0 \<le> r_socket e \<and> 0 \<le> r_bind e \<and> (r_listen e < 0 \<or> r_accept e < 0)
        then [SOCKET_PATH] else []) \<and>
    ends (unix_stream_client e) =
      Some (if r_socket e < 0 \<or> r_connect e < 0 \<or> r_send e < 0 then 1 else 0, Some Map.empty, []) \<and>
    ends (unix_dgram_server junk e) =
      Some (if r_socket e < 0 \<or> r_bind e < 0 \<or> pending e = None then 1 else 0, Some Map.empty, []) \<and>
    ends (unix_dgram_client e) =
      Some (if r_socket e < 0 \<or> r_bind e < 0 \<or> r_send e < 0 then 1 else 0, Some Map.empty, [])"
  using assms
  by (simp only: unix_stream_server_ends unix_stream_client_ends unix_dgram_server_ends
      unix_dgram_client_ends)

theorem local_sockets_released_witness:
  "ends (unix_stream_server ((willing None)\<lparr>r_accept := -1\<rparr>)) = Some (1, Some Map.empty, [SOCKET_PATH])"
  using local_sockets_released
    [where e = "(willing None)\<lparr>r_accept := -1\<rparr>" and junk = "replicate 1024 NUL"]
  by (simp add: fresh_descriptors_def)

text \<open>
  Clean-up of the IPv4 stream programs.  After success nothing is open; after each failing call
  behind \<^verbatim>\<open>socket\<close> they return without closing the socket, which is left open in the state that call
  found it in.
\<close>

theorem ipv4_stream_programs_leak_on_error:
  assumes "fresh_descriptors e" "length junk = BUFFER_LEN" "inp \<noteq> []"
    "c_string (snd (receive_into BUFFER_LEN (replicate BUFFER_LEN NUL) (pending e))) \<noteq> None"
  shows "ends (ipv4_stream_server [prog, ip_text, port_text] e) =
      (if r_socket e = -1 then Some (1, Some Map.empty, [])
       else if r_bind e < 0
       then Some (1, Some (left_open (r_socket e) (AF_INET, SOCK_STREAM, Created)), [])
       else if r_listen e < 0
       then Some (1, Some (left_open (r_socket e) (AF_INET, SOCK_STREAM, Bound)), [])
       else if r_accept e < 0
       then Some (1, Some (left_open (r_socket e) (AF_INET, SOCK_STREAM, Listening)), [])
       else Some (0, Some Map.empty, [])) \<and>
    ends (ipv4_stream_client [prog, ip_text, port_text] junk inp e) =
      (if r_socket e < 0 then Some (1, Some Map.empty, [])
       else if inet_pton4 e ip_text = None \<or> r_connect e < 0
       then Some (1, Some (left_open (r_socket e) (AF_INET, SOCK_STREAM, Created)), [])
       else Some (0, Some Map.empty, []))"
  using ipv4_stream_server_ends [OF assms(1,4)] ipv4_stream_client_ends [OF assms(1-3)] by blast

theorem ipv4_stream_programs_leak_on_error_witness:
  "ends (ipv4_stream_server [''s'', ''127.0.0.1'', ''80''] ((willing (Some ''hi''))\<lparr>r_accept := -1\<rparr>)) =
    Some (1, Some (left_open 3 (AF_INET, SOCK_STREAM, Listening)), [])"
  using ipv4_stream_programs_leak_on_error
    [where e = "(willing (Some ''hi''))\<lparr>r_accept := -1\<rparr>" and junk = "replicate BUFFER_LEN NUL"
      and inp = "''hi''" and prog = "''s''" and ip_text = "''127.0.0.1''" and port_text = "''80''"]
  by (simp add: fresh_descriptors_def received_in_zeros BUFFER_LEN_def)

section \<open>From client to server\<close>

text \<open>
  The contract of a client and a server that talk over one socket: what the client puts on the wire
  is a string that fits the server's buffer, and the server prints such a string as it came.
\<close>

locale message_channel =
  fixes admissible :: "'i \<Rightarrow> bool" and client :: "'i \<Rightarrow> run"
    and ready :: "'e \<Rightarrow> bool" and server :: "'e \<Rightarrow> bytes \<Rightarrow> run"
  assumes client_sends_strings:
      "admissible i \<Longrightarrow> m \<in> set (transmitted (client i)) \<Longrightarrow> NUL \<notin> set m \<and> length m < 1024"
    and server_prints_strings:
      "ready e \<Longrightarrow> NUL \<notin> set m \<Longrightarrow> length m < 1024 \<Longrightarrow> text_received m \<in> set (said (server e m))"
begin

lemma delivered:
  assumes "admissible i" "ready e" "m \<in> set (transmitted (client i))"
  shows "text_received m \<in> set (said (server e m))"
  using client_sends_strings [OF assms(1,3)] server_prints_strings [OF assms(2)] by blast

end

definition server_ready :: "sock_env \<Rightarrow> bool" where
  "server_ready e \<longleftrightarrow> 0 \<le> r_socket e \<and> 0 \<le> r_bind e \<and> 0 \<le> r_listen e \<and> 0 \<le> r_accept e"

lemma after_traces [simp]:
  "transmitted (if b then r else r') = (if b then transmitted r else transmitted r')"
  "said (if b then r else r') = (if b then said r else said r')"
  by simp_all

lemma string_in_zeros:
  assumes "NUL \<notin> set m" "length m < n"
  shows "c_string (snd (receive_into n (replicate n NUL) (Some m))) = Some m"
  using assms by (simp add: received_in_zeros string_takeWhile)

lemma taken_string:
  assumes "m \<in> set (taken msg res)" "NUL \<notin> set msg \<and> length msg < n"
  shows "NUL \<notin> set m \<and> length m < n"
  using assms by (auto simp: taken_def dest: in_set_takeD split: if_splits)

lemma taken_whole [simp]: "taken m (int (length m)) = [m]"
  by (simp add: taken_def)

lemma ipv4_stream_client_strings:
  assumes "length junk = BUFFER_LEN" "m \<in> set (transmitted (ipv4_stream_client argv junk inp e))"
  shows "NUL \<notin> set m \<and> length m < 1024"
proof -
  obtain b msg where b: "strip_newline (type_message junk inp) = Some b" "c_string b = Some msg"
    and m: "m \<in> set (taken msg (r_send e))"
    using assms(2)
    by (auto simp: ipv4_stream_client_def Let_def split: list.splits option.splits if_splits)
  have "NUL \<notin> set msg \<and> length msg < 1024"
    using b c_string_length [of b msg] length_strip_newline length_type_message [OF assms(1)]
    by (simp add: BUFFER_LEN_def)
  then show ?thesis by (rule taken_string [OF m])
qed

lemma ipv4_stream_server_strings:
  assumes "server_ready e" "NUL \<notin> set m" "length m < 1024"
  shows "text_received m \<in> set (said (ipv4_stream_server [prog, ip_text, port_text] (e\<lparr>pending := Some m\<rparr>)))"
  using assms string_in_zeros [of m BUFFER_LEN]
  by (auto simp: ipv4_stream_server_def Let_def server_ready_def BUFFER_LEN_def split: prod.splits)

interpretation ipv4_stream: message_channel
  "\<lambda>(argv, junk, inp, e). length junk = BUFFER_LEN"
  "\<lambda>(argv, junk, inp, e). ipv4_stream_client argv junk inp e"
  "\<lambda>(prog, ip_text, port_text, e). server_ready e"
  "\<lambda>(prog, ip_text, port_text, e) m. ipv4_stream_server [prog, ip_text, port_text] (e\<lparr>pending := Some m\<rparr>)"
  by unfold_locales (auto dest: ipv4_stream_client_strings intro: ipv4_stream_server_strings)

lemma ipv4_dgram_client_strings:
  assumes "length junk = BUFFER_LEN" "m \<in> set (transmitted (ipv4_dgram_client junk inp e))"
  shows "NUL \<notin> set m \<and> length m < 1024"
proof -
  obtain msg where msg: "c_string (type_message junk inp) = Some msg"
    and m: "m \<in> set (taken msg (r_send e))"
    using assms(2) by (auto simp: ipv4_dgram_client_def Let_def split: option.splits if_splits)
  have "NUL \<notin> set msg \<and> length msg < 1024"
    using c_string_length [OF msg] length_type_message [OF assms(1)] by (simp add: BUFFER_LEN_def)
  then show ?thesis by (rule taken_string [OF m])
qed

lemma ipv4_dgram_server_strings:
  assumes "server_ready e" "NUL \<notin> set m" "length m < 1024"
  shows "text_received m \<in> set (said (ipv4_dgram_server (e\<lparr>pending := Some m\<rparr>)))"
  using assms string_in_zeros [of m 1024]
  by (auto simp: ipv4_dgram_server_def Let_def server_ready_def split: prod.splits)

interpretation ipv4_dgram: message_channel
  "\<lambda>(junk, inp, e). length junk = BUFFER_LEN"
  "\<lambda>(junk, inp, e). ipv4_dgram_client junk inp e"
  server_ready
  "\<lambda>e m. ipv4_dgram_server (e\<lparr>pending := Some m\<rparr>)"
  by unfold_locales (auto dest: ipv4_dgram_client_strings intro: ipv4_dgram_server_strings)

lemma unix_stream_client_strings:
  "m \<in> set (transmitted (unix_stream_client e)) \<Longrightarrow> m \<in> set (taken hello_message (r_send e))"
  by (auto simp: unix_stream_client_def Let_def taken_def split: if_splits)

lemma unix_stream_server_strings:
  assumes "server_ready e" "NUL \<notin> set m" "length m < 1024"
  shows "text_received m \<in> set (said (unix_stream_server (e\<lparr>pending := Some m\<rparr>)))"
proof -
  have m: "take 1023 m = m" using assms(3) by simp
  have "takeWhile (\<lambda>c. c \<noteq> NUL) (m @ drop (length m) (take 1023 (replicate 1024 NUL))) = m"
    using assms(2) by (cases "1023 - length m") (auto simp: takeWhile_append string_takeWhile)
  then obtain b where "buf_put (overwrite (replicate 1024 NUL) m) 1023 NUL = Some b"
      "c_string b = Some m"
    using local_server_buffer [of "replicate 1024 NUL" m] unfolding m by auto
  then show ?thesis using assms m
    by (auto simp: unix_stream_server_def Let_def server_ready_def receive_into_def)
qed

interpretation unix_stream: message_channel
  "\<lambda>e. True" unix_stream_client server_ready "\<lambda>e m. unix_stream_server (e\<lparr>pending := Some m\<rparr>)"
proof unfold_locales
  fix e m
  assume "m \<in> set (transmitted (unix_stream_client e))"
  then have "m \<in> set (taken hello_message (r_send e))" by (rule unix_stream_client_strings)
  then show "NUL \<notin> set m \<and> length m < 1024"
    by (rule taken_string) (simp add: hello_message_def)
qed (rule unix_stream_server_strings)

lemma typed_line:
  assumes "length junk = BUFFER_LEN" "CHR 0x0A \<notin> set l" "length l < 1023"
  shows "\<exists>r. type_message junk (l @ CHR 0x0A # rest) = line l @ NUL # r"
proof -
  have "fgets BUFFER_LEN (l @ CHR 0x0A # rest) = Some (line l, rest)"
    using fgets_line [OF assms(2), of BUFFER_LEN rest] assms(3) by (simp add: BUFFER_LEN_def line_def)
  then show ?thesis using typed_message [OF assms(1)] by blast
qed

lemma ipv4_stream_client_wire:
  assumes "length junk = BUFFER_LEN" "CHR 0x0A \<notin> set l" "NUL \<notin> set l" "length l < 1023"
    and "0 \<le> r_socket e" "inet_pton4 e ip_text \<noteq> None" "0 \<le> r_connect e"
    and "r_send e = int (length l)"
  shows "transmitted (ipv4_stream_client [prog, ip_text, port_text] junk (l @ CHR 0x0A # rest) e) = [l]"
proof -
  obtain r where "type_message junk (l @ CHR 0x0A # rest) = line l @ NUL # r"
    using typed_line [OF assms(1,2,4)] by blast
  moreover have "chomp (line l) = l" using assms(2,3) by (simp add: line_def chomp_line)
  ultimately obtain b where "strip_newline (type_message junk (l @ CHR 0x0A # rest)) = Some b"
      "c_string b = Some l"
    using strip_newline_chomp by metis
  then show ?thesis using assms(5-8)
    by (auto simp: ipv4_stream_client_def Let_def)
qed

lemma ipv4_dgram_client_wire:
  assumes "length junk = BUFFER_LEN" "CHR 0x0A \<notin> set l" "NUL \<notin> set l" "length l < 1023"
    and "0 \<le> r_socket e" "r_send e = int (length (line l))"
  shows "transmitted (ipv4_dgram_client junk (l @ CHR 0x0A # rest) e) = [line l]"
proof -
  obtain r where "type_message junk (l @ CHR 0x0A # rest) = line l @ NUL # r"
    using typed_line [OF assms(1,2,4)] by blast
  moreover have "NUL \<notin> set (line l)" using assms(3) by (simp add: line_def)
  ultimately show ?thesis using assms(5,6)
    by (simp add: ipv4_dgram_client_def Let_def c_string_append)
qed

lemma unix_stream_client_wire:
  "0 \<le> r_socket e \<Longrightarrow> 0 \<le> r_connect e \<Longrightarrow> r_send e = int (length hello_message) \<Longrightarrow>
    transmitted (unix_stream_client e) = [hello_message]"
  by (simp add: unix_stream_client_def Let_def)

lemma hello_facts:
  "NUL \<notin> set hello_message" "length hello_message = 18" "''Hello from client!'' = hello_message"
  by (simp_all add: hello_message_def)

lemma unix_dgram_client_wire:
  "0 \<le> r_socket e \<Longrightarrow> 0 \<le> r_bind e \<Longrightarrow> r_send e = int (length hello_message) \<Longrightarrow>
    transmitted (unix_dgram_client e) = [hello_message]"
  by (simp add: unix_dgram_client_def Let_def)

lemma unix_dgram_server_prints:
  assumes "length junk = 1024" "server_ready e" "pending e = Some d"
  shows "said (unix_dgram_server junk e) = [text_dgram_waiting, text_received
    (takeWhile (\<lambda>c. c \<noteq> NUL) (take 1023 d @ drop (length (take 1023 d)) (take 1023 junk)))]"
proof -
  obtain b where "buf_put (overwrite junk (take 1023 d)) 1023 NUL = Some b"
      "c_string b = Some (takeWhile (\<lambda>c. c \<noteq> NUL) (take 1023 d @ drop (length (take 1023 d)) (take 1023 junk)))"
    using local_server_buffer [OF assms(1), of d] by auto
  then show ?thesis using assms(2,3)
    by (simp add: unix_dgram_server_def Let_def receive_into_def server_ready_def)
qed

text \<open>
  The UNIX datagram server puts its terminator at the end of an array it never initialised, not
  behind the message.  So it prints the message followed by whatever the array held before, up to
  the first NUL there, and prints the message itself exactly when the byte behind it happened to be
  NUL.
\<close>

theorem unix_dgram_server_shows_stale_bytes:
  assumes "length junk = 1024" "server_ready e" "pending e = Some m" "NUL \<notin> set m" "length m < 1023"
  shows "said (unix_dgram_server junk e) = [text_dgram_waiting,
      text_received (m @ takeWhile (\<lambda>c. c \<noteq> NUL) (drop (length m) (take 1023 junk)))] \<and>
    (text_received m \<in> set (said (unix_dgram_server junk e)) \<longleftrightarrow> junk ! length m = NUL)"
proof -
  have m: "take 1023 m = m" using assms(5) by simp
  have said: "said (unix_dgram_server junk e) = [text_dgram_waiting,
      text_received (m @ takeWhile (\<lambda>c. c \<noteq> NUL) (drop (length m) (take 1023 junk)))]"
    using unix_dgram_server_prints [OF assms(1-3)] assms(4) unfolding m by (simp add: takeWhile_append)
  have "drop (length m) (take 1023 junk) = junk ! length m # drop (Suc (length m)) (take 1023 junk)"
    using assms(1,5) by (subst Cons_nth_drop_Suc [symmetric]) simp_all
  then show ?thesis
    unfolding said by (simp add: text_received_def text_dgram_waiting_def line_def)
qed

theorem unix_dgram_server_shows_stale_bytes_witness:
  "said (unix_dgram_server (''secrets'' @ replicate 1017 NUL) (willing (Some ''hi''))) =
    [text_dgram_waiting, text_received ''hicrets'']"
  using unix_dgram_server_shows_stale_bytes
    [where junk = "''secrets'' @ replicate 1017 NUL" and e = "willing (Some ''hi'')" and m = "''hi''"]
  by (simp add: server_ready_def)

text \<open>
  The transport: a client's run puts one message on the wire, and the server's one receive finds
  exactly that.  TCP and UNIX streams promise it only for what one segment carries, and UDP does not
  promise it at all, so it is a hypothesis.
\<close>

definition carried :: "run \<Rightarrow> sock_env \<Rightarrow> bool" where
  "carried r e \<longleftrightarrow> (case transmitted r of [m] \<Rightarrow> pending e = Some m | _ \<Rightarrow> False)"

definition client_ready :: "nat \<Rightarrow> sock_env \<Rightarrow> bool" where
  "client_ready n e \<longleftrightarrow> 0 \<le> r_socket e \<and> 0 \<le> r_bind e \<and> 0 \<le> r_connect e \<and> r_send e = int n"

lemma carriedD: "carried r e \<Longrightarrow> transmitted r = [m] \<Longrightarrow> e\<lparr>pending := Some m\<rparr> = e"
  by (simp add: carried_def)

text \<open>
  C21: delivery.  A line of at most 1022 characters without NUL is typed into a client whose calls
  succeed and whose send takes the whole message, and the server's calls succeed and its one receive
  finds what the client put on the wire.  Then the IPv4 stream client sends the line without its
  newline and the IPv4 datagram client with it, the two UNIX clients send their fixed greeting, and
  both IPv4 servers and the UNIX stream server print what was sent to them.  The UNIX datagram server
  prints the greeting as it was sent exactly when the byte behind it in its uninitialised buffer
  happens to be NUL.
\<close>

theorem socket_messages_delivered:
  assumes "length junk = BUFFER_LEN" "CHR 0x0A \<notin> set l" "NUL \<notin> set l" "length l \<le> 1022"
    and "client_ready (length l) c" "inet_pton4 c ip_text \<noteq> None" "client_ready (length (line l)) c'"
    and "client_ready (length hello_message) c''"
    and "server_ready e" "server_ready e'" "server_ready e''" "server_ready d"
    and "carried (ipv4_stream_client [prog, ip_text, port_text] junk (l @ CHR 0x0A # rest) c) e"
    and "carried (ipv4_dgram_client junk (l @ CHR 0x0A # rest) c') e'"
    and "carried (unix_stream_client c'') e''" "carried (unix_dgram_client c'') d"
  shows "transmitted (ipv4_stream_client [prog, ip_text, port_text] junk (l @ CHR 0x0A # rest) c) = [l] \<and>
    text_received l \<in> set (said (ipv4_stream_server [prog', ip_text, port_text] e)) \<and>
    transmitted (ipv4_dgram_client junk (l @ CHR 0x0A # rest) c') = [line l] \<and>
    text_received (line l) \<in> set (said (ipv4_dgram_server e')) \<and>
    transmitted (unix_stream_client c'') = [''Hello from client!''] \<and>
    text_received ''Hello from client!'' \<in> set (said (unix_stream_server e'')) \<and>
    transmitted (unix_dgram_client c'') = [''Hello from client!''] \<and>
    (text_received ''Hello from client!'' \<in> set (said (unix_dgram_server junk d)) \<longleftrightarrow>
      junk ! 18 = NUL)"
proof -
  have wire: "transmitted (ipv4_stream_client [prog, ip_text, port_text] junk (l @ CHR 0x0A # rest) c) = [l]"
    "transmitted (ipv4_dgram_client junk (l @ CHR 0x0A # rest) c') = [line l]"
    "transmitted (unix_stream_client c'') = [hello_message]"
    "transmitted (unix_dgram_client c'') = [hello_message]"
    using assms(1-8)
    by (simp_all add: ipv4_stream_client_wire ipv4_dgram_client_wire unix_stream_client_wire
        unix_dgram_client_wire client_ready_def)
  note arrived = assms(13) [THEN carriedD, OF wire(1)] assms(14) [THEN carriedD, OF wire(2)]
    assms(15) [THEN carriedD, OF wire(3)] assms(16) [THEN carriedD, OF wire(4)]
  have "text_received l \<in> set (said (ipv4_stream_server [prog', ip_text, port_text] e))"
    using ipv4_stream.delivered [where i = "([prog, ip_text, port_text], junk, l @ CHR 0x0A # rest, c)"
        and e = "(prog', ip_text, port_text, e)" and m = l] assms(1,9) wire(1) arrived(1) by simp
  moreover have "text_received (line l) \<in> set (said (ipv4_dgram_server e'))"
    using ipv4_dgram.delivered [where i = "(junk, l @ CHR 0x0A # rest, c')" and e = e' and m = "line l"]
      assms(1,10) wire(2) arrived(2) by simp
  moreover have "text_received hello_message \<in> set (said (unix_stream_server e''))"
    using unix_stream.delivered [where i = c'' and e = e'' and m = hello_message]
      assms(11) wire(3) arrived(3) by simp
  moreover have "text_received hello_message \<in> set (said (unix_dgram_server junk d)) \<longleftrightarrow>
      junk ! length hello_message = NUL"
    using assms(1,12,16) wire(4)
    by (subst unix_dgram_server_shows_stale_bytes [THEN conjunct2])
      (simp_all add: BUFFER_LEN_def carried_def hello_facts)
  ultimately show ?thesis using wire unfolding hello_facts(2) by (simp add: hello_facts(3))
qed

lemma willing_ready: "server_ready (willing m)"
  by (simp add: server_ready_def)

theorem socket_messages_delivered_witness:
  "text_received ''hi'' \<in>
    set (said (ipv4_stream_server [''s'', ''127.0.0.1'', ''80''] (willing (Some ''hi''))))"
proof -
  define kernel where "kernel n m = (willing m)\<lparr>r_send := n\<rparr>" for n m
  have ready: "server_ready (kernel n m)" "client_ready k (kernel (int k) m)"
      "inet_pton4 (kernel n m) ''127.0.0.1'' \<noteq> None" for n m k
    by (simp_all add: kernel_def willing_def server_ready_def client_ready_def)
  have wire: "transmitted (ipv4_stream_client [''c'', ''127.0.0.1'', ''80''] (replicate BUFFER_LEN NUL)
        (''hi'' @ CHR 0x0A # []) (kernel 2 None)) = [''hi'']"
    "transmitted (ipv4_dgram_client (replicate BUFFER_LEN NUL) (''hi'' @ CHR 0x0A # []) (kernel 3 None)) =
      [line ''hi'']"
    "transmitted (unix_stream_client (kernel 18 None)) = [hello_message]"
    "transmitted (unix_dgram_client (kernel 18 None)) = [hello_message]"
    by (rule ipv4_stream_client_wire ipv4_dgram_client_wire unix_stream_client_wire unix_dgram_client_wire;
        simp add: kernel_def willing_def line_def hello_message_def)+
  have carried: "carried (ipv4_stream_client [''c'', ''127.0.0.1'', ''80''] (replicate BUFFER_LEN NUL)
        (''hi'' @ CHR 0x0A # []) (kernel 2 None)) (willing (Some ''hi''))"
    "carried (ipv4_dgram_client (replicate BUFFER_LEN NUL) (''hi'' @ CHR 0x0A # []) (kernel 3 None))
      (willing (Some (line ''hi'')))"
    "carried (unix_stream_client (kernel 18 None)) (willing (Some hello_message))"
    "carried (unix_dgram_client (kernel 18 None)) (willing (Some hello_message))"
    unfolding carried_def wire by simp_all
  show ?thesis
    using socket_messages_delivered [OF _ _ _ _ ready(2) [where m = None] ready(3)
        ready(2) [where m = None] ready(2) [where m = None] willing_ready
        willing_ready willing_ready willing_ready, where junk = "replicate BUFFER_LEN NUL" and l = "''hi''"
        and rest = "[]" and prog = "''c''" and prog' = "''s''" 
        and port_text = "''80''"]
      carried by (simp add: line_def hello_facts)
qed

lemma overrun_iff:
  "c_string (snd (receive_into n (replicate n NUL) p)) = None \<longleftrightarrow>
    (\<exists>d. p = Some d \<and> n \<le> length d \<and> NUL \<notin> set (take n d))" if "0 < n"
proof (cases p)
  case None
  then show ?thesis using that by (simp add: receive_into_def c_string_def)
next
  case (Some d)
  then show ?thesis by (auto simp: received_in_zeros not_less)
qed

lemma unix_stream_server_bounded: "unix_stream_server e \<noteq> None"
proof (cases "pending e")
  case None
  then show ?thesis by (auto simp: unix_stream_server_def Let_def receive_into_def)
next
  case (Some d)
  obtain b where "buf_put (overwrite (replicate 1024 NUL) (take 1023 d)) 1023 NUL = Some b"
      "c_string b \<noteq> None"
    using local_server_buffer [of "replicate 1024 NUL" d] by auto
  then show ?thesis using Some
    by (auto simp: unix_stream_server_def Let_def receive_into_def)
qed

text \<open>
  C22: the receive buffers.  The IPv4 servers ask for as many bytes as their buffer has, so exactly
  a message whose first 1024 bytes hold no NUL makes them print past the end of the buffer; the
  UNIX stream server asks for one byte less and is safe for every input.
\<close>

theorem servers_overrun_iff_full:
  assumes "server_ready e"
  shows "(ipv4_stream_server [prog, ip_text, port_text] e = None \<longleftrightarrow>
      (\<exists>d. pending e = Some d \<and> 1024 \<le> length d \<and> NUL \<notin> set (take 1024 d))) \<and>
    (ipv4_dgram_server e = None \<longleftrightarrow>
      (\<exists>d. pending e = Some d \<and> 1024 \<le> length d \<and> NUL \<notin> set (take 1024 d))) \<and>
    unix_stream_server e \<noteq> None"
proof -
  have "(ipv4_stream_server [prog, ip_text, port_text] e = None) =
      (c_string (snd (receive_into 1024 (replicate 1024 NUL) (pending e))) = None)"
    "(ipv4_dgram_server e = None) =
      (c_string (snd (receive_into 1024 (replicate 1024 NUL) (pending e))) = None)"
    using assms by (auto simp: ipv4_stream_server_def ipv4_dgram_server_def Let_def server_ready_def
        BUFFER_LEN_def split: prod.splits option.splits)
  then show ?thesis by (simp add: overrun_iff unix_stream_server_bounded)
qed

theorem servers_overrun_iff_full_witness:
  "ipv4_dgram_server (willing (Some (replicate 1024 CHR ''A''))) = None"
  using servers_overrun_iff_full [where e = "willing (Some (replicate 1024 CHR ''A''))"]
  by (simp add: server_ready_def)

end
