(* ===== verification/Processes.thy ===== *)
theory Processes
  imports C_Library
begin

text \<open>
  The process examples of \<^verbatim>\<open>03-process\<close>: \<^verbatim>\<open>fork-and-wait\<close>, \<^verbatim>\<open>exec\<close>, \<^verbatim>\<open>orphan\<close> and \<^verbatim>\<open>zombie\<close>.  Each
  program is the list of operations its process still has to do after \<^verbatim>\<open>fork\<close>, as a function of its
  own id and the result of \<^verbatim>\<open>fork\<close>, so that the parent, the child and the failing call are the three
  branches of the same definition.  Parent and child run under any schedule over the kernel's process
  table, which keeps the exit status of a child until its parent waits.
\<close>

section \<open>Operations\<close>

datatype proc_op =
    Puts bytes | Puts_parent "int \<Rightarrow> bytes" | Eputs bytes | Sleep_for nat
  | Wait_child | Report_status | Exec_program bytes "bytes list" | Exit_with int

subsection \<open>Wait status\<close>

text \<open>How a process ended: by \<^verbatim>\<open>exit\<close>, or killed by a signal.\<close>

datatype ending = Exited int | Signaled nat

text \<open>The status word of \<^verbatim>\<open>wait\<close>, and the macros that read it.\<close>

fun wait_status :: "ending \<Rightarrow> nat" where
  "wait_status (Exited code) = nat (code mod 256) * 256"
| "wait_status (Signaled sig) = sig"

definition WIFEXITED :: "nat \<Rightarrow> bool" where
  "WIFEXITED st \<longleftrightarrow> st mod 128 = 0"

definition WEXITSTATUS :: "nat \<Rightarrow> nat" where
  "WEXITSTATUS st = st div 256 mod 256"

subsection \<open>The environment variables\<close>

type_synonym environ = "(bytes \<times> bytes) list"

definition getenv :: "bytes \<Rightarrow> environ \<Rightarrow> bytes option" where
  "getenv name env = map_of env name"

fun setenv :: "bytes \<Rightarrow> bytes \<Rightarrow> int \<Rightarrow> environ \<Rightarrow> environ" where
  "setenv name val over [] = [(name, val)]"
| "setenv name val over ((n, v) # env) =
     (if n = name then (n, if over \<noteq> 0 then val else v) # env
      else (n, v) # setenv name val over env)"

lemma getenv_setenv:
  "getenv n (setenv name val 1 env) = (if n = name then Some val else getenv n env)"
  by (induction name val "1 :: int" env rule: setenv.induct) (auto simp: getenv_def)

section \<open>The programs\<close>

definition text_line :: "bytes \<Rightarrow> bytes" where
  "text_line t = t @ [CHR 0x0A]"

definition text_status :: "nat \<Rightarrow> bytes" where
  "text_status st = text_line (''Parent process: Child exited with status '' @ show_nat st)"

definition text_abnormal :: bytes where
  "text_abnormal = text_line ''Parent process: Child did not exit normally.''"

definition text_child_pid :: "int \<Rightarrow> bytes" where
  "text_child_pid self = text_line (''Child process: My PID is '' @ show_int self)"

definition text_parent_pid :: "int \<Rightarrow> bytes" where
  "text_parent_pid self = text_line (''Parent process: My PID is '' @ show_int self)"

definition text_new_child :: "int \<Rightarrow> bytes" where
  "text_new_child pid = text_line (''Parent process: Child PID is '' @ show_int pid)"

definition fork_and_wait_main :: "int \<Rightarrow> int \<Rightarrow> proc_op list" where
  "fork_and_wait_main self pid =
     (if pid < 0 then [Eputs ''Fork failed'', Exit_with 1]
      else if pid = 0 then [Puts (text_child_pid self), Exit_with 10]
      else [Puts (text_parent_pid self), Puts (text_new_child pid), Wait_child, Report_status])
     @ [Exit_with 0]"

text \<open>The text the parent prints for the status it collected.\<close>

definition report_status :: "nat \<Rightarrow> bytes" where
  "report_status st = (if WIFEXITED st then text_status (WEXITSTATUS st) else text_abnormal)"

definition MY_COMMAND :: bytes where "MY_COMMAND = ''MY_COMMAND''"

definition text_finished :: bytes where
  "text_finished = text_line ''Parent process: Child has finished.''"

definition exec_main :: "environ \<Rightarrow> int \<Rightarrow> proc_op list" where
  "exec_main env0 pid =
     (let env = setenv MY_COMMAND ''ls'' 1 env0 in
      (if pid < 0 then [Eputs ''Fork failed'', Exit_with 1]
       else if pid = 0 then
         (case getenv MY_COMMAND env of
            None \<Rightarrow> [Eputs (text_line ''Environment variable MY_COMMAND not found''), Exit_with 1]
          | Some command \<Rightarrow>
              [Exec_program command [command], Eputs ''exec failed'', Exit_with 1])
       else [Wait_child, Puts text_finished]) @ [Exit_with 0])"

definition text_orphan :: "int \<Rightarrow> int \<Rightarrow> bytes" where
  "text_orphan self ppid = text_line (''Child process (PID: '' @ show_int self @
     ''), new parent (PPID): '' @ show_int ppid)"

definition orphan_main :: "int \<Rightarrow> int \<Rightarrow> proc_op list" where
  "orphan_main self pid =
     (if pid = 0 then [Sleep_for 10, Puts_parent (text_orphan self)]
      else [Puts (text_line (''Parent process (PID: '' @ show_int self @ '') is terminating.'')),
            Exit_with 0]) @ [Exit_with 0]"

definition zombie_main :: "int \<Rightarrow> int \<Rightarrow> proc_op list" where
  "zombie_main self pid =
     (if pid = 0
      then [Puts (text_line (''Child (PID: '' @ show_int self @ '') is terminating.'')), Exit_with 0]
      else [Puts (text_line (''Parent (PID: '' @ show_int self @
              '') is not calling wait(). Sleeping for 30 seconds...'')),
            Sleep_for 30]) @ [Exit_with 0]"

section \<open>The process table\<close>

datatype life = Alive | Zombie nat

text \<open>Process 1 takes over the children of a process that ends, and waits for them at once.\<close>

definition INIT :: int where "INIT = 1"

type_synonym ptable = "int \<rightharpoonup> int \<times> life"

fun adopt :: "int \<Rightarrow> (int \<times> life) option \<Rightarrow> (int \<times> life) option" where
  "adopt dead None = None"
| "adopt dead (Some (pp, Alive)) = Some (if pp = dead then INIT else pp, Alive)"
| "adopt dead (Some (pp, Zombie st)) = (if pp = dead then None else Some (pp, Zombie st))"

fun bury :: "nat \<Rightarrow> (int \<times> life) option \<Rightarrow> (int \<times> life) option" where
  "bury st None = None"
| "bury st (Some (pp, l)) = (if pp = INIT then None else Some (pp, Zombie st))"

definition exit_process :: "int \<Rightarrow> nat \<Rightarrow> ptable \<Rightarrow> ptable" where
  "exit_process p st T q = (if q = p then bury st (T p) else adopt p (T q))"

section \<open>Parent and child under a schedule\<close>

datatype role = Par | Chi

record family_state =
  code :: "role \<Rightarrow> proc_op list"
  procs :: ptable
  ended :: "role \<Rightarrow> ending option"
  waited :: bool
  status_word :: nat
  printed :: "(role \<times> bytes) list"

text \<open>
  One operation of one process; \<open>pid_of\<close> gives the ids, \<open>exec_result\<close> how an executed program ends
  (\<open>None\<close> if \<^verbatim>\<open>execlp\<close> fails).  A \<^verbatim>\<open>wait\<close> with a running child leaves the state unchanged.
\<close>

fun run_op :: "(role \<Rightarrow> int) \<Rightarrow> ending option \<Rightarrow> role \<Rightarrow> proc_op \<Rightarrow> proc_op list \<Rightarrow>
    family_state \<Rightarrow> family_state" where
  "run_op pid_of ex r (Puts t) cs s = s\<lparr>code := (code s)(r := cs), printed := printed s @ [(r, t)]\<rparr>"
| "run_op pid_of ex r (Puts_parent f) cs s =
     s\<lparr>code := (code s)(r := cs), printed := printed s @
       [(r, f (case procs s (pid_of r) of None \<Rightarrow> 0 | Some (pp, l) \<Rightarrow> pp))]\<rparr>"
| "run_op pid_of ex r (Eputs t) cs s = s\<lparr>code := (code s)(r := cs), printed := printed s @ [(r, t)]\<rparr>"
| "run_op pid_of ex r (Sleep_for n) cs s = s\<lparr>code := (code s)(r := cs)\<rparr>"
| "run_op pid_of ex r Wait_child cs s =
     (case procs s (pid_of Chi) of
        Some (pp, Alive) \<Rightarrow> if pp = pid_of r then s else s\<lparr>code := (code s)(r := cs)\<rparr>
      | Some (pp, Zombie st) \<Rightarrow>
          if pp = pid_of r
          then s\<lparr>code := (code s)(r := cs), procs := (procs s)(pid_of Chi := None),
                 waited := True, status_word := st\<rparr>
          else s\<lparr>code := (code s)(r := cs)\<rparr>
      | None \<Rightarrow> s\<lparr>code := (code s)(r := cs)\<rparr>)"
| "run_op pid_of ex r Report_status cs s =
     s\<lparr>code := (code s)(r := cs), printed := printed s @ [(r, report_status (status_word s))]\<rparr>"
| "run_op pid_of ex r (Exec_program cmd args) cs s =
     (case ex of None \<Rightarrow> s\<lparr>code := (code s)(r := cs)\<rparr>
      | Some e \<Rightarrow> s\<lparr>code := (code s)(r := []), procs := exit_process (pid_of r) (wait_status e) (procs s),
          ended := (ended s)(r := Some e)\<rparr>)"
| "run_op pid_of ex r (Exit_with e) cs s =
     s\<lparr>code := (code s)(r := []), procs := exit_process (pid_of r) (wait_status (Exited e)) (procs s),
       ended := (ended s)(r := Some (Exited e))\<rparr>"

fun run_turn :: "(role \<Rightarrow> int) \<Rightarrow> ending option \<Rightarrow> role \<Rightarrow> family_state \<Rightarrow> family_state" where
  "run_turn pid_of ex r s = (case code s r of [] \<Rightarrow> s | c # cs \<Rightarrow> run_op pid_of ex r c cs s)"

text \<open>An event is a turn of one process, or a signal that kills the child.\<close>

datatype event = Turn role | Kill nat

fun run_event :: "(role \<Rightarrow> int) \<Rightarrow> ending option \<Rightarrow> event \<Rightarrow> family_state \<Rightarrow> family_state" where
  "run_event pid_of ex (Turn r) s = run_turn pid_of ex r s"
| "run_event pid_of ex (Kill sig) s =
     (if ended s Chi \<noteq> None then s
      else s\<lparr>code := (code s)(Chi := []),
        procs := exit_process (pid_of Chi) (wait_status (Signaled sig)) (procs s),
        ended := (ended s)(Chi := Some (Signaled sig))\<rparr>)"

fun run_schedule :: "(role \<Rightarrow> int) \<Rightarrow> ending option \<Rightarrow> event list \<Rightarrow> family_state \<Rightarrow> family_state" where
  "run_schedule pid_of ex [] s = s"
| "run_schedule pid_of ex (ev # evs) s = run_schedule pid_of ex evs (run_event pid_of ex ev s)"

text \<open>After a \<^verbatim>\<open>fork\<close> that succeeded: the parent has the child's id, the child 0.\<close>

definition forked :: "(role \<Rightarrow> int) \<Rightarrow> int \<Rightarrow> (int \<Rightarrow> int \<Rightarrow> proc_op list) \<Rightarrow> family_state" where
  "forked pid_of shell main = \<lparr>
     code = (\<lambda>r. case r of Par \<Rightarrow> main (pid_of Par) (pid_of Chi) | Chi \<Rightarrow> main (pid_of Chi) 0),
     procs = [pid_of Par \<mapsto> (shell, Alive), pid_of Chi \<mapsto> (pid_of Par, Alive)],
     ended = (\<lambda>r. None), waited = False, status_word = 0, printed = []\<rparr>"

definition pids_ok :: "(role \<Rightarrow> int) \<Rightarrow> int \<Rightarrow> bool" where
  "pids_ok pid_of shell \<longleftrightarrow> pid_of Par \<noteq> pid_of Chi \<and> INIT < pid_of Par \<and> INIT < pid_of Chi \<and>
     shell \<noteq> pid_of Par \<and> shell \<noteq> pid_of Chi"

section \<open>The table as a function of who has ended\<close>

fun child_entry :: "(role \<Rightarrow> int) \<Rightarrow> ending option \<Rightarrow> ending option \<Rightarrow> bool \<Rightarrow> (int \<times> life) option" where
  "child_entry pid_of None None w = Some (pid_of Par, Alive)"
| "child_entry pid_of (Some e) None w = Some (INIT, Alive)"
| "child_entry pid_of None (Some e) w = (if w then None else Some (pid_of Par, Zombie (wait_status e)))"
| "child_entry pid_of (Some e) (Some e') w = None"

fun parent_entry :: "int \<Rightarrow> ending option \<Rightarrow> (int \<times> life) option" where
  "parent_entry shell None = Some (shell, Alive)"
| "parent_entry shell (Some e) = bury (wait_status e) (Some (shell, Alive))"

definition family_ok :: "(role \<Rightarrow> int) \<Rightarrow> int \<Rightarrow> family_state \<Rightarrow> bool" where
  "family_ok pid_of shell s \<longleftrightarrow>
     procs s (pid_of Par) = parent_entry shell (ended s Par) \<and>
     procs s (pid_of Chi) = child_entry pid_of (ended s Par) (ended s Chi) (waited s) \<and>
     (\<forall>r. ended s r \<noteq> None \<longrightarrow> code s r = []) \<and>
     (waited s \<longrightarrow> map_option wait_status (ended s Chi) = Some (status_word s))"

lemma family_ok_forked: "pids_ok pid_of shell \<Longrightarrow> family_ok pid_of shell (forked pid_of shell main)"
  by (auto simp: family_ok_def forked_def pids_ok_def)

lemma family_ok_ends:
  assumes "pids_ok pid_of shell" "family_ok pid_of shell s" "ended s r = None"
  shows "family_ok pid_of shell (s\<lparr>code := (code s)(r := []),
    procs := exit_process (pid_of r) (wait_status e) (procs s), ended := (ended s)(r := Some e)\<rparr>)"
  using assms
  by (cases r; cases "ended s Par"; cases "ended s Chi"; cases "waited s")
    (auto simp: family_ok_def pids_ok_def exit_process_def)

lemma family_ok_advance:
  assumes "family_ok pid_of shell s" "code s r \<noteq> []"
  shows "family_ok pid_of shell (s\<lparr>code := (code s)(r := cs)\<rparr>)"
    and "family_ok pid_of shell (s\<lparr>code := (code s)(r := cs), printed := out\<rparr>)"
  using assms by (auto simp: family_ok_def)

lemma child_entry_zombie:
  "child_entry pid_of a b w = Some (pp, Zombie st) \<longleftrightarrow>
    a = None \<and> \<not> w \<and> pp = pid_of Par \<and> (\<exists>x. b = Some x \<and> st = wait_status x)"
  by (cases a; cases b; cases w) auto

lemma family_ok_reap:
  assumes "pids_ok pid_of shell" "family_ok pid_of shell s" "code s Par \<noteq> []"
    and "ended s Chi = Some e" "st = wait_status e"
  shows "family_ok pid_of shell (s\<lparr>code := (code s)(Par := cs), procs := (procs s)(pid_of Chi := None),
    waited := True, status_word := st\<rparr>)"
proof -
  have "ended s Par = None" using assms(2,3) by (auto simp: family_ok_def)
  then show ?thesis
    using assms unfolding family_ok_def pids_ok_def by auto
qed

lemma family_ok_wait:
  assumes "pids_ok pid_of shell" "family_ok pid_of shell s" "code s r = Wait_child # cs"
  shows "family_ok pid_of shell (run_op pid_of ex r Wait_child cs s)"
proof -
  have run: "ended s r = None" "code s r \<noteq> []" using assms(2,3) by (auto simp: family_ok_def)
  note adv = family_ok_advance(1) [OF assms(2) run(2), of cs]
  have zombie: "family_ok pid_of shell (run_op pid_of ex r Wait_child cs s)"
    if "procs s (pid_of Chi) = Some (pp, Zombie st)" for pp st
  proof -
    have "child_entry pid_of (ended s Par) (ended s Chi) (waited s) = Some (pp, Zombie st)"
      using assms(2) that by (simp add: family_ok_def)
    then obtain x where x: "pp = pid_of Par" "ended s Chi = Some x" "st = wait_status x"
      unfolding child_entry_zombie by blast
    then have r: "r = Par" using run(1) by (cases r) auto
    then show ?thesis
      using that x family_ok_reap [OF assms(1,2) _ x(2,3)] run(2) by simp
  qed
  show ?thesis
  proof (cases "procs s (pid_of Chi)")
    case None
    then show ?thesis using adv by simp
  next
    case (Some entry)
    obtain pp l where "entry = (pp, l)" by (cases entry)
    then show ?thesis using Some zombie adv assms(2) by (cases l) simp_all
  qed
qed

lemma family_ok_op:
  assumes "pids_ok pid_of shell" "family_ok pid_of shell s" "code s r = c # cs"
  shows "family_ok pid_of shell (run_op pid_of ex r c cs s)"
proof -
  have run: "ended s r = None" "code s r \<noteq> []" using assms(2,3) by (auto simp: family_ok_def)
  note ends = family_ok_ends [OF assms(1,2) run(1)]
  note adv = family_ok_advance [OF assms(2) run(2)]
  show ?thesis
  proof (cases c)
    case Wait_child
    then show ?thesis using family_ok_wait [OF assms(1,2)] assms(3) by simp
  next
    case (Exec_program cmd args)
    then show ?thesis using ends adv(1) by (cases ex) simp_all
  next
    case (Exit_with e)
    then show ?thesis using ends [of "Exited e"] by simp
  qed (use adv in simp_all)
qed

lemma family_ok_event:
  assumes "pids_ok pid_of shell" "family_ok pid_of shell s"
  shows "family_ok pid_of shell (run_event pid_of ex ev s)"
proof (cases ev)
  case (Turn r)
  then show ?thesis using assms family_ok_op [OF assms] by (cases "code s r") simp_all
next
  case (Kill sig)
  then show ?thesis using assms family_ok_ends [OF assms, of Chi "Signaled sig"] by simp
qed

text \<open>
  The interface of a family of two processes: an initial state and an invariant that every event
  keeps.
\<close>

locale family_invariant =
  fixes pid_of :: "role \<Rightarrow> int" and ex :: "ending option" and J :: "family_state \<Rightarrow> bool"
  assumes event_keeps: "J s \<Longrightarrow> J (run_event pid_of ex ev s)"
begin

lemma schedule_keeps: "J s \<Longrightarrow> J (run_schedule pid_of ex evs s)"
  by (induction evs arbitrary: s) (simp_all add: event_keeps)

end

interpretation family: family_invariant pid_of ex "\<lambda>s. pids_ok pid_of shell \<and> family_ok pid_of shell s"
  by unfold_locales (simp add: family_ok_event)

section \<open>Programs without and with a wait\<close>

text \<open>A program that never waits: an ended child stays until the parent ends.\<close>

definition never_waits :: "family_state \<Rightarrow> bool" where
  "never_waits s \<longleftrightarrow> \<not> waited s \<and> (\<forall>r. Wait_child \<notin> set (code s r))"

lemma never_waits_op:
  assumes "never_waits s" "code s r = c # cs"
  shows "never_waits (run_op pid_of ex r c cs s)"
proof -
  have "Wait_child \<notin> set (code s r)" using assms(1) unfolding never_waits_def by blast
  then have "Wait_child \<notin> set cs" "c \<noteq> Wait_child" using assms(2) by auto
  then show ?thesis using assms(1)
    by (cases c) (auto simp: never_waits_def split: option.splits)
qed

interpretation no_wait: family_invariant pid_of ex never_waits
proof unfold_locales
  fix s ev
  assume n: "never_waits s"
  show "never_waits (run_event pid_of ex ev s)"
  proof (cases ev)
    case (Turn r)
    then show ?thesis using n never_waits_op [OF n] by (cases "code s r") simp_all
  next
    case (Kill sig)
    then show ?thesis using n by (simp add: never_waits_def)
  qed
qed

text \<open>The code still comes to a \<^verbatim>\<open>wait\<close> before it can end.\<close>

fun awaits :: "proc_op list \<Rightarrow> bool" where
  "awaits [] \<longleftrightarrow> False"
| "awaits (Wait_child # cs) \<longleftrightarrow> True"
| "awaits (Exit_with e # cs) \<longleftrightarrow> False"
| "awaits (Exec_program cmd args # cs) \<longleftrightarrow> False"
| "awaits (c # cs) \<longleftrightarrow> awaits cs"

definition waits_first :: "(role \<Rightarrow> int) \<Rightarrow> int \<Rightarrow> family_state \<Rightarrow> bool" where
  "waits_first pid_of shell s \<longleftrightarrow> pids_ok pid_of shell \<and> family_ok pid_of shell s \<and>
     (awaits (code s Par) \<or> waited s)"

lemma waits_first_parent:
  assumes "waits_first pid_of shell s" "code s Par = c # cs"
  shows "awaits (code (run_op pid_of ex Par c cs s) Par) \<or> waited (run_op pid_of ex Par c cs s)"
proof (cases "waited s")
  case True
  then show ?thesis by (cases c) (auto split: option.splits life.splits)
next
  case False
  then have a: "awaits (c # cs)" using assms by (simp add: waits_first_def)
  have ok: "family_ok pid_of shell s" "pids_ok pid_of shell" using assms(1) by (simp_all add: waits_first_def)
  then have "ended s Par = None" using assms(2) by (auto simp: family_ok_def)
  then have entry: "procs s (pid_of Chi) = Some (pid_of Par,
      case ended s Chi of None \<Rightarrow> Alive | Some e \<Rightarrow> Zombie (wait_status e))"
    using ok(1) False by (cases "ended s Chi") (simp_all add: family_ok_def)
  show ?thesis
  proof (cases c)
    case Wait_child
    then show ?thesis using entry assms(2) by (cases "ended s Chi") simp_all
  qed (use a in simp_all)
qed

interpretation waiting: family_invariant pid_of ex "waits_first pid_of shell"
proof unfold_locales
  fix s ev
  assume w: "waits_first pid_of shell s"
  then have ok: "pids_ok pid_of shell" "family_ok pid_of shell (run_event pid_of ex ev s)"
    by (simp_all add: waits_first_def family_ok_event)
  have other: "code (run_op pid_of ex Chi c cs s) Par = code s Par \<and>
      (waited s \<longrightarrow> waited (run_op pid_of ex Chi c cs s))" for c cs
    by (cases c) (auto split: option.splits life.splits)
  show "waits_first pid_of shell (run_event pid_of ex ev s)"
  proof (cases ev)
    case (Turn r)
    show ?thesis
    proof (cases "code s r")
      case Nil
      then show ?thesis using w Turn by simp
    next
      case (Cons c cs)
      then show ?thesis
        using ok Turn other waits_first_parent [OF w] w
        by (cases r) (auto simp: waits_first_def)
    qed
  next
    case (Kill sig)
    then show ?thesis using ok w by (simp add: waits_first_def)
  qed
qed

section \<open>The reporting parent\<close>

fun child_stage :: "ending option \<Rightarrow> proc_op list \<Rightarrow> bool" where
  "child_stage None cs \<longleftrightarrow> (\<exists>ts. cs = map Puts ts @ [Exit_with 10, Exit_with 0])"
| "child_stage (Some (Exited e)) cs \<longleftrightarrow> e = 10"
| "child_stage (Some (Signaled sig)) cs \<longleftrightarrow> True"

definition reported :: "family_state \<Rightarrow> bool" where
  "reported s \<longleftrightarrow> printed s \<noteq> [] \<and> last (printed s) = (Par, report_status (status_word s))"

definition parent_stage :: "family_state \<Rightarrow> bool" where
  "parent_stage s \<longleftrightarrow> (case ended s Par of
     None \<Rightarrow> (\<exists>ts. code s Par = map Puts ts @ [Wait_child, Report_status, Exit_with 0]) \<or>
       waited s \<and> code s Par = [Report_status, Exit_with 0] \<or>
       waited s \<and> code s Par = [Exit_with 0] \<and> reported s
   | Some e \<Rightarrow> e = Exited 0 \<and> reported s)"

definition reporting :: "(role \<Rightarrow> int) \<Rightarrow> int \<Rightarrow> family_state \<Rightarrow> bool" where
  "reporting pid_of shell s \<longleftrightarrow> waits_first pid_of shell s \<and> parent_stage s \<and>
     child_stage (ended s Chi) (code s Chi)"

lemma awaits_Puts [simp]: "awaits (map Puts ts @ cs) = awaits cs"
  by (induction ts) simp_all

lemma ended_no_code: "waits_first pid_of shell s \<Longrightarrow> code s r \<noteq> [] \<Longrightarrow> ended s r = None"
  by (auto simp: waits_first_def family_ok_def)

lemma waited_ended: "waits_first pid_of shell s \<Longrightarrow> waited s \<Longrightarrow> ended s Chi \<noteq> None"
  by (auto simp: waits_first_def family_ok_def)

lemma reporting_child:
  assumes "reporting pid_of shell s" "code s Chi = c # cs"
  shows "parent_stage (run_op pid_of ex Chi c cs s) \<and>
    child_stage (ended (run_op pid_of ex Chi c cs s) Chi) (code (run_op pid_of ex Chi c cs s) Chi)"
proof -
  have e: "ended s Chi = None" using ended_no_code [of pid_of shell s Chi] assms by (simp add: reporting_def)
  then have w: "\<not> waited s" using waited_ended [of pid_of shell s] assms(1)
    by (auto simp: reporting_def)
  have "ended s Par = None"
    using assms(1) e w by (cases "ended s Par")
      (auto simp: reporting_def waits_first_def family_ok_def)
  then obtain us where us: "code s Par = map Puts us @ [Wait_child, Report_status, Exit_with 0]"
    using assms(1) w by (auto simp: reporting_def parent_stage_def)
  obtain ts where "c # cs = map Puts ts @ [Exit_with 10, Exit_with 0]"
    using assms e by (auto simp: reporting_def)
  then show ?thesis
    using us \<open>ended s Par = None\<close> e by (cases ts) (auto simp: parent_stage_def)
qed

lemma reporting_parent:
  assumes "reporting pid_of shell s" "code s Par = c # cs"
  shows "parent_stage (run_op pid_of ex Par c cs s) \<and>
    child_stage (ended (run_op pid_of ex Par c cs s) Chi) (code (run_op pid_of ex Par c cs s) Chi)"
proof -
  have w: "waits_first pid_of shell s" using assms(1) by (simp add: reporting_def)
  have e: "ended s Par = None" using ended_no_code [OF w, of Par] assms(2) by simp
  have child: "child_stage (ended s Chi) (code s Chi)" using assms(1) by (simp add: reporting_def)
  consider ts where "code s Par = map Puts ts @ [Wait_child, Report_status, Exit_with 0]"
    | "waited s" "code s Par = [Report_status, Exit_with 0]"
    | "waited s" "code s Par = [Exit_with 0]" "reported s"
    using assms(1) e by (auto simp: reporting_def parent_stage_def)
  then show ?thesis
  proof cases
    case 1
    show ?thesis
    proof (cases ts)
      case Nil
      then have c: "c = Wait_child" "cs = [Report_status, Exit_with 0]" using 1 assms(2) by auto
      then have "awaits (code (run_op pid_of ex Par c cs s) Par) \<or> waited (run_op pid_of ex Par c cs s)"
        using waits_first_parent [OF w assms(2)] by blast
      then show ?thesis using c e child assms(2)
        by (auto simp: parent_stage_def split: option.splits life.splits if_splits)
    next
      case (Cons t us)
      then have "c = Puts t" "cs = map Puts us @ [Wait_child, Report_status, Exit_with 0]"
        using 1 assms(2) by auto
      then show ?thesis using e child by (auto simp: parent_stage_def)
    qed
  next
    case 2
    then show ?thesis using assms(2) e child by (auto simp: parent_stage_def reported_def)
  next
    case 3
    then show ?thesis using assms(2) e child by (auto simp: parent_stage_def reported_def)
  qed
qed

interpretation reports: family_invariant pid_of ex "reporting pid_of shell"
proof unfold_locales
  fix s ev
  assume r: "reporting pid_of shell s"
  then have w: "waits_first pid_of shell (run_event pid_of ex ev s)"
    using waiting.event_keeps by (auto simp: reporting_def)
  show "reporting pid_of shell (run_event pid_of ex ev s)"
  proof (cases ev)
    case (Turn p)
    show ?thesis
    proof (cases "code s p")
      case Nil
      then show ?thesis using r Turn by simp
    next
      case (Cons c cs)
      then show ?thesis
        using w Turn reporting_child [OF r] reporting_parent [OF r]
        by (cases p) (auto simp: reporting_def)
    qed
  next
    case (Kill sig)
    then show ?thesis using w r by (auto simp: reporting_def parent_stage_def reported_def split: option.splits)
  qed
qed

section \<open>Properties\<close>

definition example_pids :: "role \<Rightarrow> int" where
  "example_pids r = (case r of Par \<Rightarrow> 100 | Chi \<Rightarrow> 101)"

lemma example_pids_ok: "pids_ok example_pids 50"
  by (simp add: pids_ok_def example_pids_def INIT_def)

lemma status_texts:
  "report_status (wait_status (Exited e)) = text_status (nat (e mod 256))"
  "0 < sig \<Longrightarrow> sig < 128 \<Longrightarrow> report_status (wait_status (Signaled sig)) = text_abnormal"
proof -
  have n: "nat (e mod 256) < 256" by (simp add: nat_less_iff)
  have "(n * 256) mod 128 = 0" for n :: nat by presburger
  then show "report_status (wait_status (Exited e)) = text_status (nat (e mod 256))"
    using n by (simp add: report_status_def WIFEXITED_def WEXITSTATUS_def)
qed (simp add: report_status_def WIFEXITED_def)

lemma reporting_forked:
  assumes "pids_ok pid_of shell"
  shows "reporting pid_of shell (forked pid_of shell fork_and_wait_main)"
proof -
  let ?s = "forked pid_of shell fork_and_wait_main"
  have p: "0 < pid_of Chi" "0 < pid_of Par" using assms by (simp_all add: pids_ok_def INIT_def)
  have par: "code ?s Par = map Puts [text_parent_pid (pid_of Par), text_new_child (pid_of Chi)] @
      [Wait_child, Report_status, Exit_with 0]"
    using p by (simp add: forked_def fork_and_wait_main_def)
  have chi: "code ?s Chi = map Puts [text_child_pid (pid_of Chi)] @ [Exit_with 10, Exit_with 0]"
    by (simp add: forked_def fork_and_wait_main_def)
  have ended: "ended ?s Par = None" "ended ?s Chi = None" by (simp_all add: forked_def)
  have "awaits (code ?s Par)" unfolding par by simp
  moreover have "parent_stage ?s" unfolding parent_stage_def ended option.case using par by blast
  moreover have "child_stage (ended ?s Chi) (code ?s Chi)" unfolding ended child_stage.simps using chi by blast
  ultimately show ?thesis
    using assms family_ok_forked [OF assms, of fork_and_wait_main]
    by (simp only: reporting_def waits_first_def simp_thms)
qed

lemma text_status_10: "text_status 10 = ''Parent process: Child exited with status 10'' @ [CHR 0x0A]"
  by code_simp

text \<open>
  C34: fork and wait.  Under every schedule, signals to the child included, the parent ends only
  after the child has ended and been reaped, and its last line reports how: the exit status 10, or
  that the child did not exit normally when a signal ended it.
\<close>

theorem fork_and_wait_reports:
  assumes "pids_ok pid_of shell"
    and "ended (run_schedule pid_of ex evs (forked pid_of shell fork_and_wait_main)) Par \<noteq> None"
  shows "let s = run_schedule pid_of ex evs (forked pid_of shell fork_and_wait_main) in
    \<exists>x. ended s Chi = Some x \<and> (x = Exited 10 \<or> (\<exists>sig. x = Signaled sig)) \<and>
      procs s (pid_of Chi) = None \<and> ended s Par = Some (Exited 0) \<and>
      (x = Exited 10 \<longrightarrow> last (printed s) =
        (Par, ''Parent process: Child exited with status 10'' @ [CHR 0x0A])) \<and>
      (\<forall>sig. x = Signaled sig \<and> 0 < sig \<and> sig < 128 \<longrightarrow> last (printed s) =
        (Par, ''Parent process: Child did not exit normally.'' @ [CHR 0x0A]))"
proof -
  let ?s = "run_schedule pid_of ex evs (forked pid_of shell fork_and_wait_main)"
  have r: "reporting pid_of shell ?s"
    by (rule reports.schedule_keeps) (rule reporting_forked [OF assms(1)])
  then have w: "waits_first pid_of shell ?s" and p: "parent_stage ?s"
      and c: "child_stage (ended ?s Chi) (code ?s Chi)"
    by (simp_all add: reporting_def)
  obtain e where e: "ended ?s Par = Some e" using assms(2) by blast
  then have "code ?s Par = []" using w by (auto simp: waits_first_def family_ok_def)
  then have waited: "waited ?s" using w by (simp add: waits_first_def)
  then obtain x where x: "ended ?s Chi = Some x" "status_word ?s = wait_status x"
    using w by (auto simp: waits_first_def family_ok_def)
  have "x = Exited 10 \<or> (\<exists>sig. x = Signaled sig)" using c x(1) by (cases x) auto
  moreover have "procs ?s (pid_of Chi) = None"
    using w e x(1) by (simp add: waits_first_def family_ok_def)
  moreover have "e = Exited 0" "last (printed ?s) = (Par, report_status (wait_status x))"
    using p e x(2) by (auto simp: parent_stage_def reported_def)
  moreover have "report_status (wait_status (Exited 10))
      = ''Parent process: Child exited with status 10'' @ [CHR 0x0A]"
    using status_texts(1) [of 10] by (simp add: text_status_10)
  moreover have "report_status (wait_status (Signaled sig))
      = ''Parent process: Child did not exit normally.'' @ [CHR 0x0A]" if "0 < sig" "sig < 128" for sig
    using status_texts(2) [OF that] by (simp add: text_abnormal_def text_line_def)
  ultimately show ?thesis using e x(1) by (auto simp: Let_def)
qed

theorem fork_and_wait_reports_witness:
  "last (printed (run_schedule example_pids None
     [Turn Par, Turn Par, Turn Chi, Turn Chi, Turn Par, Turn Par, Turn Par]
     (forked example_pids 50 fork_and_wait_main)))
     = (Par, ''Parent process: Child exited with status 10'' @ [CHR 0x0A])"
  using fork_and_wait_reports [OF example_pids_ok, where ex = None
      and evs = "[Turn Par, Turn Par, Turn Chi, Turn Chi, Turn Par, Turn Par, Turn Par]"]
  by (simp add: Let_def forked_def fork_and_wait_main_def example_pids_def exit_process_def INIT_def)

lemma exec_branches:
  "exec_main env 0 = [Exec_program ''ls'' [''ls''], Eputs ''exec failed'', Exit_with 1, Exit_with 0]"
  "0 < pid \<Longrightarrow> exec_main env pid = [Wait_child, Puts text_finished, Exit_with 0]"
  by (simp_all add: exec_main_def Let_def getenv_setenv)

text \<open>
  The environment.  Whatever the environment holds, the child finds "ls" in it and executes
  \<^verbatim>\<open>ls\<close> with itself as its only argument; the branch for a missing variable is never taken.  The
  parent prints its last line only after the child has ended, and leaves no zombie.
\<close>

theorem exec_child_runs_command:
  assumes "pids_ok pid_of shell"
    and "ended (run_schedule pid_of ex evs (forked pid_of shell (\<lambda>self. exec_main env))) Par \<noteq> None"
  shows "exec_main env 0 =
      [Exec_program ''ls'' [''ls''], Eputs ''exec failed'', Exit_with 1, Exit_with 0] \<and>
    (let s = run_schedule pid_of ex evs (forked pid_of shell (\<lambda>self. exec_main env)) in
      ended s Chi \<noteq> None \<and> procs s (pid_of Chi) = None)"
proof -
  let ?s = "run_schedule pid_of ex evs (forked pid_of shell (\<lambda>self. exec_main env))"
  have "awaits (exec_main env (pid_of Chi))"
    using assms(1) by (simp add: exec_branches pids_ok_def INIT_def)
  then have "waits_first pid_of shell (forked pid_of shell (\<lambda>self. exec_main env))"
    using assms(1) family_ok_forked [OF assms(1), of "\<lambda>self. exec_main env"]
    by (simp add: waits_first_def) (simp add: forked_def)
  then have w: "waits_first pid_of shell ?s" by (rule waiting.schedule_keeps)
  obtain e where e: "ended ?s Par = Some e" using assms(2) by blast
  then have "code ?s Par = []" using w by (auto simp: waits_first_def family_ok_def)
  then have "waited ?s" using w by (simp add: waits_first_def)
  then obtain x where "ended ?s Chi = Some x" using waited_ended [OF w] by blast
  moreover from this have "procs ?s (pid_of Chi) = None"
    using w e by (simp add: waits_first_def family_ok_def)
  ultimately show ?thesis by (simp add: Let_def exec_branches)
qed

theorem exec_child_runs_command_witness:
  "procs (run_schedule example_pids (Some (Exited 0)) [Turn Chi, Turn Par, Turn Par, Turn Par]
     (forked example_pids 50 (\<lambda>self. exec_main []))) 101 = None"
  using exec_child_runs_command [OF example_pids_ok, where ex = "Some (Exited 0)"
      and evs = "[Turn Chi, Turn Par, Turn Par, Turn Par]" and env = "[]"]
  by (simp add: Let_def forked_def exec_branches example_pids_def exit_process_def INIT_def)

lemma zombie_family:
  assumes "pids_ok pid_of shell"
  shows "never_waits (forked pid_of shell zombie_main)" "never_waits (forked pid_of shell orphan_main)"
  by (auto simp: never_waits_def forked_def zombie_main_def orphan_main_def split: role.split)

text \<open>A family that never waits, at any point of any schedule.\<close>

lemma unwaited_child:
  assumes "pids_ok pid_of shell" "never_waits (forked pid_of shell main)"
  shows "procs (run_schedule pid_of ex evs (forked pid_of shell main)) (pid_of Chi) =
    (case ended (run_schedule pid_of ex evs (forked pid_of shell main)) Chi of
       None \<Rightarrow> Some (if ended (run_schedule pid_of ex evs (forked pid_of shell main)) Par = None
                 then pid_of Par else INIT, Alive)
     | Some e \<Rightarrow> if ended (run_schedule pid_of ex evs (forked pid_of shell main)) Par = None
                 then Some (pid_of Par, Zombie (wait_status e)) else None)"
proof -
  let ?s = "run_schedule pid_of ex evs (forked pid_of shell main)"
  have "family_ok pid_of shell ?s"
    using family.schedule_keeps [of pid_of shell "forked pid_of shell main" ex evs] assms(1)
      family_ok_forked [OF assms(1), of main] by simp
  moreover have "\<not> waited ?s"
    using no_wait.schedule_keeps [OF assms(2)] unfolding never_waits_def by blast
  ultimately show ?thesis
    by (cases "ended ?s Par"; cases "ended ?s Chi") (simp_all add: family_ok_def)
qed

text \<open>The orphan's line, once its parent has ended.\<close>

definition orphan_code :: "(role \<Rightarrow> int) \<Rightarrow> family_state \<Rightarrow> bool" where
  "orphan_code pid_of s \<longleftrightarrow> code s Chi \<in>
     {[Sleep_for 10, Puts_parent (text_orphan (pid_of Chi)), Exit_with 0],
      [Puts_parent (text_orphan (pid_of Chi)), Exit_with 0], [Exit_with 0], []}"

definition orphaned :: "(role \<Rightarrow> int) \<Rightarrow> int \<Rightarrow> family_state \<Rightarrow> bool" where
  "orphaned pid_of shell s \<longleftrightarrow> pids_ok pid_of shell \<and> family_ok pid_of shell s \<and> ended s Par \<noteq> None \<and>
     orphan_code pid_of s \<and>
     (\<forall>t. (Chi, t) \<in> set (printed s) \<longrightarrow> t = text_orphan (pid_of Chi) INIT)"

interpretation orphans: family_invariant pid_of ex "orphaned pid_of shell"
proof unfold_locales
  fix s ev
  assume o: "orphaned pid_of shell s"
  then have ok: "family_ok pid_of shell (run_event pid_of ex ev s)" "pids_ok pid_of shell"
    by (simp_all add: orphaned_def family_ok_event)
  have par: "code s Par = []" using o by (auto simp: orphaned_def family_ok_def)
  show "orphaned pid_of shell (run_event pid_of ex ev s)"
  proof (cases ev)
    case (Turn r)
    show ?thesis
    proof (cases "code s r")
      case Nil
      then show ?thesis using o Turn by simp
    next
      case (Cons c cs)
      then have r: "r = Chi" using par by (cases r) auto
      then have "ended s Chi = None" using o Cons by (auto simp: orphaned_def family_ok_def)
      then have "procs s (pid_of Chi) = Some (INIT, Alive)"
        using o by (auto simp: orphaned_def family_ok_def)
      then show ?thesis using o ok Turn Cons r
        unfolding orphaned_def orphan_code_def by auto
    qed
  next
    case (Kill sig)
    then show ?thesis using o ok by (auto simp: orphaned_def orphan_code_def)
  qed
qed

lemma other_code: "code (run_op pid_of ex Par c cs s) Chi = code s Chi"
  by (cases c) (auto split: option.splits life.splits)

interpretation orphan_codes: family_invariant pid_of ex "orphan_code pid_of"
proof unfold_locales
  fix s ev
  assume o: "orphan_code pid_of s"
  show "orphan_code pid_of (run_event pid_of ex ev s)"
  proof (cases ev)
    case (Turn r)
    then show ?thesis using o other_code
      by (cases r; cases "code s r") (auto simp: orphan_code_def)
  next
    case (Kill sig)
    then show ?thesis using o by (simp add: orphan_code_def)
  qed
qed

text \<open>
  The zombie.  At every point of every schedule of \<^verbatim>\<open>zombie.c\<close> the child's entry is determined by
  who has ended: an ended child stays in the table with its status as long as its parent lives, and
  is gone as soon as the parent ends too.
\<close>

theorem zombie_until_parent_ends:
  assumes "pids_ok pid_of shell"
  shows "let s = run_schedule pid_of ex evs (forked pid_of shell zombie_main) in
    procs s (pid_of Chi) = (case ended s Chi of
      None \<Rightarrow> Some (if ended s Par = None then pid_of Par else INIT, Alive)
    | Some e \<Rightarrow> if ended s Par = None then Some (pid_of Par, Zombie (wait_status e)) else None)"
  unfolding Let_def by (rule unwaited_child [OF assms zombie_family(1) [OF assms]])

theorem zombie_until_parent_ends_witness:
  "procs (run_schedule example_pids None [Turn Chi, Turn Par, Turn Chi]
     (forked example_pids 50 zombie_main)) 101 = Some (100, Zombie 0)"
  using zombie_until_parent_ends
    [OF example_pids_ok, where ex = None and evs = "[Turn Chi, Turn Par, Turn Chi]"]
  by (simp add: Let_def forked_def zombie_main_def example_pids_def)

text \<open>
  The orphan.  If the parent of \<^verbatim>\<open>orphan.c\<close> has ended before the child printed, then whatever
  happens next, the parent id the child prints is that of process 1; and a child that ends after its
  parent leaves no zombie.
\<close>

theorem orphan_reports_init:
  assumes "pids_ok pid_of shell" "s = run_schedule pid_of ex evs (forked pid_of shell orphan_main)"
    and "ended s Par \<noteq> None" "Chi \<notin> fst ` set (printed s)"
  shows "{t. (Chi, t) \<in> set (printed (run_schedule pid_of ex evs' s))}
      \<subseteq> {text_orphan (pid_of Chi) INIT} \<and>
    procs (run_schedule pid_of ex evs' s) (pid_of Chi) =
      (case ended (run_schedule pid_of ex evs' s) Chi of None \<Rightarrow> Some (INIT, Alive) | Some e \<Rightarrow> None)"
proof -
  have "orphan_code pid_of (forked pid_of shell orphan_main)"
    by (simp add: orphan_code_def forked_def orphan_main_def)
  then have "orphan_code pid_of s" unfolding assms(2) by (rule orphan_codes.schedule_keeps)
  moreover have "family_ok pid_of shell s"
    using family.schedule_keeps [of pid_of shell "forked pid_of shell orphan_main" ex evs] assms(1)
      family_ok_forked [OF assms(1), of orphan_main] unfolding assms(2) by simp
  moreover have "\<forall>t. (Chi, t) \<in> set (printed s) \<longrightarrow> t = text_orphan (pid_of Chi) INIT"
    using assms(4) by (auto simp: image_iff)
  ultimately have "orphaned pid_of shell s" using assms(1,3) by (simp add: orphaned_def)
  then have o: "orphaned pid_of shell (run_schedule pid_of ex evs' s)"
    by (rule orphans.schedule_keeps)
  then obtain e where "ended (run_schedule pid_of ex evs' s) Par = Some e"
    by (auto simp: orphaned_def)
  then show ?thesis using o
    by (cases "ended (run_schedule pid_of ex evs' s) Chi") (auto simp: orphaned_def family_ok_def)
qed

theorem orphan_reports_init_witness:
  "{t. (Chi, t) \<in> set (printed (run_schedule example_pids None
       [Turn Chi, Turn Chi] (run_schedule example_pids None [Turn Par, Turn Par]
         (forked example_pids 50 orphan_main))))} \<subseteq> {text_orphan 101 1}"
  using orphan_reports_init [OF example_pids_ok refl, where ex = None and evs = "[Turn Par, Turn Par]"
      and evs' = "[Turn Chi, Turn Chi]"]
  by (simp add: forked_def orphan_main_def example_pids_def INIT_def)

end
