(* ===== verification/Pipeline.thy ===== *)
theory Pipeline
  imports C_Library
begin

text \<open>
  The program of \<^verbatim>\<open>08-ipc-pipe\<close>, which runs \<^verbatim>\<open>ls -l | wc -l\<close>: a parent and two children that are
  interleaved freely, each with its own descriptor table.  The programs \<^verbatim>\<open>ls\<close> and \<^verbatim>\<open>wc\<close> are not part
  of the repository but parameters: \<open>ls argv\<close> is what the one writes to descriptor 1 when it is executed
  with the arguments \<open>argv\<close>, and \<open>wc argv text\<close> what the other writes when it is executed with \<open>argv\<close> and
  has read \<open>text\<close> from descriptor 0 until the end of file.
\<close>

section \<open>Descriptor tables\<close>

datatype open_file = Terminal | Pipe_read | Pipe_write

text \<open>The open file of each descriptor; a new one takes the lowest free number.\<close>

type_synonym table = "open_file option list"

definition open_lowest :: "open_file \<Rightarrow> table \<Rightarrow> nat \<times> table" where
  "open_lowest f T = (case first_index (\<lambda>e. e = None) T of
     Some i \<Rightarrow> (i, T[i := Some f]) | None \<Rightarrow> (length T, T @ [Some f]))"

definition open_pipe :: "table \<Rightarrow> nat \<times> nat \<times> table" where
  "open_pipe T = (case open_lowest Pipe_read T of (r, T1) \<Rightarrow>
     case open_lowest Pipe_write T1 of (w, T2) \<Rightarrow> (r, w, T2))"

definition entry :: "table \<Rightarrow> nat \<Rightarrow> open_file option" where
  "entry T fd = (if fd < length T then T ! fd else None)"

definition close_fd :: "nat \<Rightarrow> table \<Rightarrow> table" where
  "close_fd fd T = T[fd := None]"

definition dup2_fd :: "nat \<Rightarrow> nat \<Rightarrow> table \<Rightarrow> table" where
  "dup2_fd old new T = (case entry T old of None \<Rightarrow> T | Some f \<Rightarrow> T[new := Some f])"

definition holds :: "open_file \<Rightarrow> table \<Rightarrow> bool" where
  "holds f T \<longleftrightarrow> Some f \<in> set T"

section \<open>The code\<close>

datatype who = Parent | Child1 | Child2

datatype fd_var = R | W

datatype pipe_op =
    Pipe | Fork who | Close fd_var | Dup2 fd_var nat
  | Execlp bytes "bytes list" | Perror bytes | Wait | Exit int

definition STDIN_FILENO :: nat where "STDIN_FILENO = 0"
definition STDOUT_FILENO :: nat where "STDOUT_FILENO = 1"

definition parent_code :: "pipe_op list" where
  "parent_code = [Pipe, Fork Child1, Fork Child2, Close R, Close W, Wait, Wait, Exit 0]"

definition writer_code :: "pipe_op list" where
  "writer_code = [Close R, Dup2 W STDOUT_FILENO, Close W,
     Execlp ''ls'' [''ls'', ''-l''], Perror ''execlp ls'', Exit 1]"

definition reader_code :: "pipe_op list" where
  "reader_code = [Close W, Dup2 R STDIN_FILENO, Close R,
     Execlp ''wc'' [''wc'', ''-l''], Perror ''execlp wc'', Exit 1]"

fun code_of :: "who \<Rightarrow> pipe_op list" where
  "code_of Parent = parent_code"
| "code_of Child1 = writer_code"
| "code_of Child2 = reader_code"

text \<open>The effect of an operation on the table of its process, for the array \<open>fd\<close>.\<close>

fun fd_of :: "nat \<times> nat \<Rightarrow> fd_var \<Rightarrow> nat" where
  "fd_of (r, w) R = r"
| "fd_of (r, w) W = w"

fun table_after :: "nat \<times> nat \<Rightarrow> pipe_op \<Rightarrow> table \<Rightarrow> table" where
  "table_after fd Pipe T = snd (snd (open_pipe T))"
| "table_after fd (Close x) T = close_fd (fd_of fd x) T"
| "table_after fd (Dup2 x n) T = dup2_fd (fd_of fd x) n T"
| "table_after fd c T = T"

fun tables_after :: "nat \<times> nat \<Rightarrow> pipe_op list \<Rightarrow> table \<Rightarrow> table" where
  "tables_after fd [] T = T"
| "tables_after fd (c # cs) T = tables_after fd cs (table_after fd c T)"

section \<open>The processes together\<close>

datatype status = Unborn | Runs "pipe_op list" | Lists bytes | Counts "bytes list" bytes | Ended int

definition SIGPIPE_STATUS :: int where "SIGPIPE_STATUS = 141"

definition PIPE_CAPACITY :: nat where "PIPE_CAPACITY = 65536"

record pipeline =
  status :: "who \<Rightarrow> status"
  table_of :: "who \<Rightarrow> table"
  fd :: "nat \<times> nat"
  buffer :: bytes
  reaped :: nat
  screen :: "bytes list"
  errors :: "bytes list"
  complaints :: "bytes list"

definition standard_table :: table where
  "standard_table = [Some Terminal, Some Terminal, Some Terminal]"

definition started :: "pipeline \<Rightarrow> bool" where
  "started s \<longleftrightarrow> s = \<lparr>status = (\<lambda>p. Unborn)(Parent := Runs parent_code),
     table_of = (\<lambda>p. [])(Parent := standard_table), fd = (0, 0), buffer = [], reaped = 0,
     screen = [], errors = [], complaints = []\<rparr>"

definition move :: "who \<Rightarrow> status \<Rightarrow> table \<Rightarrow> pipeline \<Rightarrow> pipeline" where
  "move p st T s = s\<lparr>status := (status s)(p := st), table_of := (table_of s)(p := T)\<rparr>"

definition somebody_holds :: "open_file \<Rightarrow> pipeline \<Rightarrow> bool" where
  "somebody_holds f s \<longleftrightarrow>
     holds f (table_of s Parent) \<or> holds f (table_of s Child1) \<or> holds f (table_of s Child2)"

fun has_ended :: "status \<Rightarrow> bool" where
  "has_ended (Ended e) \<longleftrightarrow> True"
| "has_ended st \<longleftrightarrow> False"

definition children_ended :: "pipeline \<Rightarrow> nat" where
  "children_ended s = of_bool (has_ended (status s Child1)) + of_bool (has_ended (status s Child2))"

definition newlines :: "bytes \<Rightarrow> nat" where
  "newlines t = length (filter (\<lambda>c. c = CHR 0x0A) t)"

definition count_line :: "nat \<Rightarrow> bytes" where
  "count_line n = show_nat n @ [CHR 0x0A]"

text \<open>
  One step of one process.  \<open>errors\<close> records the calls that failed, \<open>complaints\<close> what \<^verbatim>\<open>perror\<close> was given.
  A program that was executed replaces the code; when \<^verbatim>\<open>execlp\<close> fails, the code behind it goes on.
\<close>

inductive pipe_step ::
    "(bytes list \<Rightarrow> bytes) \<Rightarrow> (bytes list \<Rightarrow> bytes \<Rightarrow> bytes) \<Rightarrow> pipeline \<Rightarrow> pipeline \<Rightarrow> bool"
  for ls :: "bytes list \<Rightarrow> bytes" and wc :: "bytes list \<Rightarrow> bytes \<Rightarrow> bytes" where
  opens: "status s Parent = Runs (Pipe # cs) \<Longrightarrow> open_pipe (table_of s Parent) = (r, w, T) \<Longrightarrow>
    pipe_step ls wc s (move Parent (Runs cs) T (s\<lparr>fd := (r, w)\<rparr>))"
| open_fails: "status s Parent = Runs (Pipe # cs) \<Longrightarrow>
    pipe_step ls wc s (move Parent (Runs [Exit 1]) (table_of s Parent) (s\<lparr>errors := errors s @ [''pipe''],
      complaints := complaints s @ [''pipe'']\<rparr>))"
| forks: "status s Parent = Runs (Fork c # cs) \<Longrightarrow>
    pipe_step ls wc s (move c (Runs (code_of c)) (table_of s Parent)
      (move Parent (Runs cs) (table_of s Parent) s))"
| fork_fails: "status s Parent = Runs (Fork c # cs) \<Longrightarrow>
    pipe_step ls wc s (move Parent (Runs [Exit 1]) (table_of s Parent) (s\<lparr>errors := errors s @ [''fork''],
      complaints := complaints s @ [''fork'']\<rparr>))"
| closes: "status s p = Runs (Close x # cs) \<Longrightarrow>
    pipe_step ls wc s (move p (Runs cs) (table_after (fd s) (Close x) (table_of s p)) s)"
| dups: "status s p = Runs (Dup2 x n # cs) \<Longrightarrow>
    pipe_step ls wc s (move p (Runs cs) (table_after (fd s) (Dup2 x n) (table_of s p)) s)"
| waits: "status s Parent = Runs (Wait # cs) \<Longrightarrow> reaped s < children_ended s \<Longrightarrow>
    pipe_step ls wc s (move Parent (Runs cs) (table_of s Parent) (s\<lparr>reaped := reaped s + 1\<rparr>))"
| exits: "status s p = Runs (Exit e # cs) \<Longrightarrow> pipe_step ls wc s (move p (Ended e) [] s)"
| exec_ls: "status s p = Runs (Execlp ''ls'' argv # cs) \<Longrightarrow>
    pipe_step ls wc s (move p (Lists (ls argv)) (table_of s p) s)"
| exec_wc: "status s p = Runs (Execlp ''wc'' argv # cs) \<Longrightarrow>
    pipe_step ls wc s (move p (Counts argv []) (table_of s p) s)"
| exec_fails: "status s p = Runs (Execlp prog argv # cs) \<Longrightarrow>
    pipe_step ls wc s (move p (Runs cs) (table_of s p) (s\<lparr>errors := errors s @ [prog]\<rparr>))"
| complains: "status s p = Runs (Perror m # cs) \<Longrightarrow>
    pipe_step ls wc s (move p (Runs cs) (table_of s p) (s\<lparr>complaints := complaints s @ [m]\<rparr>))"
| ls_writes: "status s p = Lists (c # text) \<Longrightarrow> entry (table_of s p) STDOUT_FILENO = Some Pipe_write \<Longrightarrow>
    somebody_holds Pipe_read s \<Longrightarrow> length (buffer s) < PIPE_CAPACITY \<Longrightarrow>
    pipe_step ls wc s (move p (Lists text) (table_of s p) (s\<lparr>buffer := buffer s @ [c]\<rparr>))"
| ls_killed: "status s p = Lists (c # text) \<Longrightarrow> entry (table_of s p) STDOUT_FILENO = Some Pipe_write \<Longrightarrow>
    \<not> somebody_holds Pipe_read s \<Longrightarrow> pipe_step ls wc s (move p (Ended SIGPIPE_STATUS) [] s)"
| ls_ends: "status s p = Lists [] \<Longrightarrow> pipe_step ls wc s (move p (Ended 0) [] s)"
| wc_reads: "status s p = Counts argv text \<Longrightarrow> entry (table_of s p) STDIN_FILENO = Some Pipe_read \<Longrightarrow>
    buffer s = c # rest \<Longrightarrow>
    pipe_step ls wc s (move p (Counts argv (text @ [c])) (table_of s p) (s\<lparr>buffer := rest\<rparr>))"
| wc_ends: "status s p = Counts argv text \<Longrightarrow> entry (table_of s p) STDIN_FILENO = Some Pipe_read \<Longrightarrow>
    buffer s = [] \<Longrightarrow> \<not> somebody_holds Pipe_write s \<Longrightarrow>
    pipe_step ls wc s (move p (Ended 0) [] (s\<lparr>screen := screen s @ [wc argv text]\<rparr>))"

inductive_cases pipe_stepE: "pipe_step ls wc s t"

section \<open>Where each process can be\<close>

text \<open>The code a process has left with its table, at each point of its run.\<close>

fun path :: "nat \<times> nat \<Rightarrow> pipe_op list \<Rightarrow> table \<Rightarrow> (pipe_op list \<times> table) list" where
  "path f [] T = []"
| "path f (c # cs) T = (c # cs, T) # path f cs (table_after f c T)"

lemma path_step:
  "(c # cs, T) \<in> set (path f code T0) \<Longrightarrow> cs \<noteq> [] \<Longrightarrow> (cs, table_after f c T) \<in> set (path f code T0)"
  by (induction f code T0 rule: path.induct) (auto simp: neq_Nil_conv)

definition piped_table :: table where
  "piped_table = standard_table @ [Some Pipe_read, Some Pipe_write]"

definition writer_table :: table where
  "writer_table = [Some Terminal, Some Pipe_write, Some Terminal, None, None]"

definition reader_table :: table where
  "reader_table = [Some Pipe_read, Some Terminal, Some Terminal, None, None]"

lemma open_pipe_standard: "open_pipe standard_table = (3, 4, piped_table)"
  by (simp add: open_pipe_def open_lowest_def standard_table_def piped_table_def)

lemmas pipe_defs = parent_code_def writer_code_def reader_code_def standard_table_def
  piped_table_def writer_table_def reader_table_def close_fd_def dup2_fd_def entry_def
  STDIN_FILENO_def STDOUT_FILENO_def

fun parent_local :: "status \<Rightarrow> table \<Rightarrow> bool" where
  "parent_local (Runs cs) T \<longleftrightarrow> (cs, T) \<in> set (path (3, 4) parent_code standard_table) \<or> cs = [Exit 1]"
| "parent_local (Ended e) T \<longleftrightarrow> T = []"
| "parent_local st T \<longleftrightarrow> False"

fun writer_local :: "status \<Rightarrow> table \<Rightarrow> bool" where
  "writer_local Unborn T \<longleftrightarrow> T = []"
| "writer_local (Runs cs) T \<longleftrightarrow> (cs, T) \<in> set (path (3, 4) writer_code piped_table)"
| "writer_local (Lists text) T \<longleftrightarrow> T = writer_table"
| "writer_local (Counts a n) T \<longleftrightarrow> False"
| "writer_local (Ended e) T \<longleftrightarrow> T = []"

fun reader_local :: "status \<Rightarrow> table \<Rightarrow> bool" where
  "reader_local Unborn T \<longleftrightarrow> T = []"
| "reader_local (Runs cs) T \<longleftrightarrow> (cs, T) \<in> set (path (3, 4) reader_code piped_table)"
| "reader_local (Lists text) T \<longleftrightarrow> False"
| "reader_local (Counts a n) T \<longleftrightarrow> T = reader_table"
| "reader_local (Ended e) T \<longleftrightarrow> T = []"

fun born_ok :: "status \<Rightarrow> bool \<Rightarrow> bool \<Rightarrow> bool \<Rightarrow> nat \<Rightarrow> bool" where
  "born_ok (Runs cs) b1 b2 f r \<longleftrightarrow> (b2 \<longrightarrow> b1) \<and> (b1 \<longrightarrow> f) \<and>
     (cs = [Exit 1] \<or>
       (b1 \<longleftrightarrow> Fork Child1 \<notin> set cs) \<and> (b2 \<longleftrightarrow> Fork Child2 \<notin> set cs) \<and>
       (f \<or> Pipe \<in> set cs) \<and> count_list cs Wait + r = 2)"
| "born_ok (Ended e) b1 b2 f r \<longleftrightarrow> (b2 \<longrightarrow> b1) \<and> (b1 \<longrightarrow> f)"
| "born_ok st b1 b2 f r \<longleftrightarrow> False"

definition control :: "pipeline \<Rightarrow> bool" where
  "control s \<longleftrightarrow> parent_local (status s Parent) (table_of s Parent) \<and>
     writer_local (status s Child1) (table_of s Child1) \<and>
     reader_local (status s Child2) (table_of s Child2) \<and>
     born_ok (status s Parent) (status s Child1 \<noteq> Unborn) (status s Child2 \<noteq> Unborn)
       (fd s = (3, 4)) (reaped s)"

lemma parent_path:
  "path (3, 4) parent_code standard_table =
    [([Pipe, Fork Child1, Fork Child2, Close R, Close W, Wait, Wait, Exit 0], standard_table),
     ([Fork Child1, Fork Child2, Close R, Close W, Wait, Wait, Exit 0], piped_table),
     ([Fork Child2, Close R, Close W, Wait, Wait, Exit 0], piped_table),
     ([Close R, Close W, Wait, Wait, Exit 0], piped_table),
     ([Close W, Wait, Wait, Exit 0], piped_table[3 := None]),
     ([Wait, Wait, Exit 0], piped_table[3 := None, 4 := None]),
     ([Wait, Exit 0], piped_table[3 := None, 4 := None]),
     ([Exit 0], piped_table[3 := None, 4 := None])]"
  by (simp add: parent_code_def open_pipe_standard close_fd_def)

lemma writer_path:
  "path (3, 4) writer_code piped_table =
    [([Close R, Dup2 W 1, Close W, Execlp ''ls'' [''ls'', ''-l''], Perror ''execlp ls'', Exit 1], piped_table),
     ([Dup2 W 1, Close W, Execlp ''ls'' [''ls'', ''-l''], Perror ''execlp ls'', Exit 1], piped_table[3 := None]),
     ([Close W, Execlp ''ls'' [''ls'', ''-l''], Perror ''execlp ls'', Exit 1],
       piped_table[3 := None, 1 := Some Pipe_write]),
     ([Execlp ''ls'' [''ls'', ''-l''], Perror ''execlp ls'', Exit 1], writer_table),
     ([Perror ''execlp ls'', Exit 1], writer_table), ([Exit 1], writer_table)]"
  by (simp add: pipe_defs)

lemma reader_path:
  "path (3, 4) reader_code piped_table =
    [([Close W, Dup2 R 0, Close R, Execlp ''wc'' [''wc'', ''-l''], Perror ''execlp wc'', Exit 1], piped_table),
     ([Dup2 R 0, Close R, Execlp ''wc'' [''wc'', ''-l''], Perror ''execlp wc'', Exit 1], piped_table[4 := None]),
     ([Close R, Execlp ''wc'' [''wc'', ''-l''], Perror ''execlp wc'', Exit 1],
       piped_table[4 := None, 0 := Some Pipe_read]),
     ([Execlp ''wc'' [''wc'', ''-l''], Perror ''execlp wc'', Exit 1], reader_table),
     ([Perror ''execlp wc'', Exit 1], reader_table), ([Exit 1], reader_table)]"
  by (simp add: pipe_defs)

lemma move_simps [simp]:
  "status (move p st T s) = (status s)(p := st)"
  "table_of (move p st T s) = (table_of s)(p := T)"
  "fd (move p st T s) = fd s" "buffer (move p st T s) = buffer s"
  "reaped (move p st T s) = reaped s" "screen (move p st T s) = screen s"
  "errors (move p st T s) = errors s" "complaints (move p st T s) = complaints s"
  by (simp_all add: move_def)

lemma control_started: "started s \<Longrightarrow> control s"
  by (simp add: started_def control_def parent_path) (simp add: parent_code_def)

text \<open>What the paths say about the next operation.\<close>

lemma parent_next:
  assumes "parent_local (Runs (c # cs)) T" "\<forall>e. c \<noteq> Exit e"
  shows "parent_local (Runs cs) (table_after (3, 4) c T)"
proof -
  have "(c # cs, T) \<in> set (path (3, 4) parent_code standard_table)"
    using assms by auto
  moreover from this have "cs \<noteq> []"
    using assms(2) unfolding parent_path by auto
  ultimately show ?thesis
    by (simp only: parent_local.simps path_step simp_thms)
qed

lemma parent_ops:
  assumes "parent_local (Runs (c # cs)) T"
  shows "c = Pipe \<Longrightarrow> T = standard_table"
    and "c = Fork d \<Longrightarrow> T = piped_table \<and> (d = Child1 \<or> d = Child2)"
    and "c \<noteq> Dup2 x n" and "c \<noteq> Execlp prog argv" and "c \<noteq> Perror m"
  using assms unfolding parent_local.simps parent_path by auto

text \<open>Behind \<^verbatim>\<open>execlp\<close> a child only complains and exits.\<close>

fun failing :: "status \<Rightarrow> bool" where
  "failing (Runs (Perror m # cs)) \<longleftrightarrow> True"
| "failing (Runs (Exit e # cs)) \<longleftrightarrow> True"
| "failing st \<longleftrightarrow> False"

lemma writer_next:
  assumes "writer_local (Runs (c # cs)) T" "\<forall>e. c \<noteq> Exit e"
  shows "writer_local (Runs cs) (table_after (3, 4) c T)"
proof -
  have here: "(c # cs, T) \<in> set (path (3, 4) writer_code piped_table)"
    using assms(1) by simp
  moreover have "cs \<noteq> []"
    using here assms(2) unfolding writer_path by auto
  ultimately show ?thesis
    unfolding writer_local.simps by (rule path_step)
qed

lemma writer_ops:
  assumes "writer_local (Runs (c # cs)) T"
  shows "c = Execlp prog argv \<Longrightarrow> prog = ''ls'' \<and> argv = [''ls'', ''-l''] \<and> T = writer_table"
    and "c = Close x \<or> c = Dup2 x n \<Longrightarrow> \<not> failing (Runs cs)"
  using assms unfolding writer_local.simps writer_path by auto

lemma reader_next:
  assumes "reader_local (Runs (c # cs)) T" "\<forall>e. c \<noteq> Exit e"
  shows "reader_local (Runs cs) (table_after (3, 4) c T)"
proof -
  have here: "(c # cs, T) \<in> set (path (3, 4) reader_code piped_table)"
    using assms(1) by simp
  moreover have "cs \<noteq> []"
    using here assms(2) unfolding reader_path by auto
  ultimately show ?thesis
    unfolding reader_local.simps by (rule path_step)
qed

lemma reader_ops:
  assumes "reader_local (Runs (c # cs)) T"
  shows "c = Execlp prog argv \<Longrightarrow> prog = ''wc'' \<and> argv = [''wc'', ''-l''] \<and> T = reader_table"
    and "c = Close x \<or> c = Dup2 x n \<Longrightarrow> \<not> failing (Runs cs)"
  using assms unfolding reader_local.simps reader_path by auto

lemma born_next:
  assumes "parent_local (Runs (c # cs)) T" "born_ok (Runs (c # cs)) b1 b2 f r"
  shows "c = Pipe \<Longrightarrow> born_ok (Runs cs) b1 b2 True r \<and> \<not> b1 \<and> \<not> b2"
    and "c = Fork Child1 \<Longrightarrow> born_ok (Runs cs) True b2 f r \<and> \<not> b1 \<and> \<not> b2"
    and "c = Fork Child2 \<Longrightarrow> born_ok (Runs cs) b1 True f r \<and> b1 \<and> \<not> b2"
    and "c = Close x \<Longrightarrow> born_ok (Runs cs) b1 b2 f r \<and> f \<and> b1 \<and> b2"
    and "c = Wait \<Longrightarrow> born_ok (Runs cs) b1 b2 f (r + 1) \<and> r < 2 \<and> b1 \<and> b2"
    and "c = Exit e \<Longrightarrow> born_ok (Ended e) b1 b2 f r"
    and "born_ok (Runs [Exit 1]) b1 b2 f r"
  using assms by (auto simp: parent_path)

lemma controlD:
  assumes "control s"
  shows "parent_local (status s Parent) (table_of s Parent)"
    and "writer_local (status s Child1) (table_of s Child1)"
    and "reader_local (status s Child2) (table_of s Child2)"
    and "born_ok (status s Parent) (status s Child1 \<noteq> Unborn) (status s Child2 \<noteq> Unborn)
       (fd s = (3, 4)) (reaped s)"
    and "status s Child1 \<noteq> Unborn \<Longrightarrow> fd s = (3, 4)"
    and "status s Child2 \<noteq> Unborn \<Longrightarrow> fd s = (3, 4)"
  using assms by (auto simp: control_def elim!: born_ok.elims)

text \<open>A step that changes one process only.\<close>

lemma control_move:
  assumes "control s" "status s p \<noteq> Unborn" "st \<noteq> Unborn"
    and "p = Parent \<Longrightarrow> parent_local st T \<and> born_ok st (status s Child1 \<noteq> Unborn)
      (status s Child2 \<noteq> Unborn) (fd s' = (3, 4)) (reaped s')"
    and "p = Child1 \<Longrightarrow> writer_local st T \<and> fd s' = fd s \<and> reaped s' = reaped s"
    and "p = Child2 \<Longrightarrow> reader_local st T \<and> fd s' = fd s \<and> reaped s' = reaped s"
    and "status s' = status s" "table_of s' = table_of s"
  shows "control (move p st T s')"
  using assms by (cases p) (simp_all add: control_def)

lemma control_run_step:
  assumes "control s" "status s p = Runs (c # cs)" "c = Close x \<or> c = Dup2 x n"
  shows "control (move p (Runs cs) (table_after (fd s) c (table_of s p)) s)"
proof (rule control_move [OF assms(1)])
  show "p = Parent \<Longrightarrow> parent_local (Runs cs) (table_after (fd s) c (table_of s p)) \<and>
      born_ok (Runs cs) (status s Child1 \<noteq> Unborn) (status s Child2 \<noteq> Unborn) (fd s = (3, 4)) (reaped s)"
    using controlD [OF assms(1)] assms(2,3) parent_next [of c cs "table_of s Parent"]
      parent_ops(3) [of c cs "table_of s Parent"]
      born_next(4) [of c cs "table_of s Parent"] by auto
  show "p = Child1 \<Longrightarrow> writer_local (Runs cs) (table_after (fd s) c (table_of s p)) \<and>
      fd s = fd s \<and> reaped s = reaped s"
    using controlD [OF assms(1)] assms(2,3) writer_next [of c cs "table_of s Child1"] by auto
  show "p = Child2 \<Longrightarrow> reader_local (Runs cs) (table_after (fd s) c (table_of s p)) \<and>
      fd s = fd s \<and> reaped s = reaped s"
    using controlD [OF assms(1)] assms(2,3) reader_next [of c cs "table_of s Child2"] by auto
qed (use assms in simp_all)

lemma child_starts:
  "writer_local (Runs writer_code) piped_table" "reader_local (Runs reader_code) piped_table"
  by (simp_all add: writer_code_def reader_code_def)

lemma control_fork:
  assumes "control s" "status s Parent = Runs (Fork c # cs)"
  shows "control (move c (Runs (code_of c)) (table_of s Parent)
    (move Parent (Runs cs) (table_of s Parent) s))"
proof -
  note local = controlD(1) [OF assms(1), unfolded assms(2)]
  note born = controlD(4) [OF assms(1), unfolded assms(2)]
  have next_ok: "parent_local (Runs cs) piped_table" and T: "table_of s Parent = piped_table"
    using parent_next [OF local] parent_ops(2) [OF local, of c] by simp_all
  consider "c = Child1" | "c = Child2" using parent_ops(2) [OF local, of c] by blast
  then show ?thesis
  proof cases
    case 1
    then show ?thesis
      using assms(1) next_ok T child_starts(1) born_next(2) [OF local born]
      by (auto simp: control_def)
  next
    case 2
    then show ?thesis
      using assms(1) next_ok T child_starts(2) born_next(3) [OF local born]
      by (auto simp: control_def)
  qed
qed

lemma control_parent:
  assumes "control s" "status s Parent = Runs (c # cs)" "parent_local st T"
    and "born_ok st (status s Child1 \<noteq> Unborn) (status s Child2 \<noteq> Unborn) (fd s' = (3, 4)) (reaped s')"
    and "status s' = status s" "table_of s' = table_of s"
  shows "control (move Parent st T s')"
  using assms by (simp add: control_def)

lemma who_execs:
  assumes "control s" "status s p = Runs (Execlp prog argv # cs)"
  shows "p = Child1 \<and> prog = ''ls'' \<and> argv = [''ls'', ''-l''] \<and> table_of s p = writer_table \<or>
    p = Child2 \<and> prog = ''wc'' \<and> argv = [''wc'', ''-l''] \<and> table_of s p = reader_table"
proof (cases p)
  case Parent
  then show ?thesis
    using controlD(1) [OF assms(1)] assms(2)
      parent_ops(4) [of "Execlp prog argv" cs "table_of s Parent" prog argv] by simp
next
  case Child1
  then show ?thesis
    using controlD(2) [OF assms(1)] assms(2)
      writer_ops(1) [of "Execlp prog argv" cs "table_of s Child1" prog argv] by simp
next
  case Child2
  then show ?thesis
    using controlD(3) [OF assms(1)] assms(2)
      reader_ops(1) [of "Execlp prog argv" cs "table_of s Child2" prog argv] by simp
qed

lemma who_complains:
  "control s \<Longrightarrow> status s p = Runs (Perror m # cs) \<Longrightarrow> p \<noteq> Parent"
  using controlD(1) [of s] parent_ops(5) [of "Perror m" cs "table_of s Parent" m] by auto

text \<open>A child that goes on in its code behind an operation without effect on its table.\<close>

lemma control_child_goes_on:
  assumes "control s" "status s p = Runs (c # cs)" "(\<exists>prog argv. c = Execlp prog argv) \<or> (\<exists>m. c = Perror m)"
    and "status s' = status s" "table_of s' = table_of s" "fd s' = fd s" "reaped s' = reaped s"
  shows "control (move p (Runs cs) (table_of s p) s')"
proof -
  have p: "p \<noteq> Parent" using assms(2,3) who_execs [OF assms(1)] who_complains [OF assms(1)] by blast
  have t: "table_after (3, 4) c T = T" "\<forall>e. c \<noteq> Exit e" for T using assms(3) by auto
  show ?thesis
  proof (rule control_move [OF assms(1)])
    show "p = Child1 \<Longrightarrow> writer_local (Runs cs) (table_of s p) \<and> fd s' = fd s \<and> reaped s' = reaped s"
      using controlD(2) [OF assms(1)] assms(2,6,7) writer_next [of c cs "table_of s p"] t by simp
    show "p = Child2 \<Longrightarrow> reader_local (Runs cs) (table_of s p) \<and> fd s' = fd s \<and> reaped s' = reaped s"
      using controlD(3) [OF assms(1)] assms(2,6,7) reader_next [of c cs "table_of s p"] t by simp
  qed (use p assms in simp_all)
qed

lemma who_lists:
  "control s \<Longrightarrow> status s p = Lists text \<Longrightarrow> p = Child1 \<and> table_of s p = writer_table"
  using controlD(1-3) [of s] by (cases p) auto

lemma who_counts:
  "control s \<Longrightarrow> status s p = Counts a n \<Longrightarrow> p = Child2 \<and> table_of s p = reader_table"
  using controlD(1-3) [of s] by (cases p) auto

lemma control_step:
  assumes "pipe_step ls wc s t" "control s"
  shows "control t"
  using assms
proof (induction rule: pipe_step.induct)
  case (opens s cs r w T)
  note c = controlD [OF opens.prems, unfolded opens.hyps(1)]
  have "r = 3" "w = 4" "T = piped_table"
    using parent_ops(1) [OF c(1)] opens.hyps(2) by (auto simp: open_pipe_standard)
  then show ?case
    using parent_next [OF c(1)] parent_ops(1) [OF c(1)] born_next(1) [OF c(1,4)]
    by (intro control_parent [OF opens.prems opens.hyps(1)]) (auto simp: open_pipe_standard)
next
  case (open_fails s cs)
  note c = controlD [OF open_fails.prems, unfolded open_fails.hyps(1)]
  show ?case using born_next(7) [OF c(1,4)]
    by (intro control_parent [OF open_fails.prems open_fails.hyps(1)]) auto
next
  case (forks s c cs)
  then show ?case by (intro control_fork)
next
  case (fork_fails s c cs)
  note c = controlD [OF fork_fails.prems, unfolded fork_fails.hyps(1)]
  show ?case using born_next(7) [OF c(1,4)]
    by (intro control_parent [OF fork_fails.prems fork_fails.hyps(1)]) auto
next
  case (closes s p x cs)
  then show ?case by (intro control_run_step) auto
next
  case (dups s p x n cs)
  then show ?case by (intro control_run_step) auto
next
  case (waits s cs)
  note c = controlD [OF waits.prems, unfolded waits.hyps(1)]
  show ?case using parent_next [OF c(1)] born_next(5) [OF c(1,4)]
    by (intro control_parent [OF waits.prems waits.hyps(1)]) auto
next
  case (exits s p e cs)
  then show ?case
    using controlD(4) [OF exits.prems]
    by (cases p) (auto intro!: control_move [OF exits.prems])
next
  case (exec_ls s p argv cs)
  then show ?case
    using who_execs [OF exec_ls.prems exec_ls.hyps] by (intro control_move [OF exec_ls.prems]) auto
next
  case (exec_wc s p argv cs)
  then show ?case
    using who_execs [OF exec_wc.prems exec_wc.hyps] by (intro control_move [OF exec_wc.prems]) auto
next
  case (exec_fails s p prog argv cs)
  then show ?case by (intro control_child_goes_on) auto
next
  case (complains s p m cs)
  then show ?case by (intro control_child_goes_on) auto
next
  case (ls_writes s p c xs)
  then show ?case
    using who_lists [OF ls_writes.prems ls_writes.hyps(1)]
    by (intro control_move [OF ls_writes.prems]) auto
next
  case (ls_killed s p c xs)
  then show ?case
    using who_lists [OF ls_killed.prems ls_killed.hyps(1)]
    by (intro control_move [OF ls_killed.prems]) auto
next
  case (ls_ends s p)
  then show ?case
    using who_lists [OF ls_ends.prems ls_ends.hyps] by (intro control_move [OF ls_ends.prems]) auto
next
  case (wc_reads s p argv xs c rest)
  then show ?case
    using who_counts [OF wc_reads.prems wc_reads.hyps(1)]
    by (intro control_move [OF wc_reads.prems]) auto
next
  case (wc_ends s p argv xs)
  then show ?case
    using who_counts [OF wc_ends.prems wc_ends.hyps(1)]
    by (intro control_move [OF wc_ends.prems]) auto
qed

interpretation pipeline_control: inductive_invariant started "pipe_step ls wc" control
  by unfold_locales (auto intro: control_started control_step)

section \<open>Who holds which end\<close>

lemma parent_holds_read:
  "parent_local (Runs cs) T \<Longrightarrow> cs \<noteq> [Exit 1] \<Longrightarrow> Fork Child1 \<notin> set cs \<Longrightarrow> Fork Child2 \<in> set cs \<Longrightarrow>
    holds Pipe_read T"
  unfolding parent_local.simps parent_path by (auto simp: holds_def piped_table_def)

lemma table_holds:
  "holds Pipe_write piped_table" "holds Pipe_write (piped_table[3 := None])"
  "holds Pipe_write (piped_table[3 := None, 1 := Some Pipe_write])" "holds Pipe_write writer_table"
  "holds Pipe_read piped_table" "holds Pipe_read (piped_table[4 := None])"
  "holds Pipe_read (piped_table[4 := None, 0 := Some Pipe_read])" "holds Pipe_read reader_table"
  by (simp_all add: holds_def piped_table_def standard_table_def writer_table_def reader_table_def)

lemma writer_holds_write:
  "writer_local st T \<Longrightarrow> st \<noteq> Unborn \<Longrightarrow> \<not> has_ended st \<Longrightarrow> holds Pipe_write T"
  by (cases st) (auto simp: writer_path table_holds simp del: One_nat_def)

lemma reader_holds_read:
  "reader_local st T \<Longrightarrow> st \<noteq> Unborn \<Longrightarrow> \<not> has_ended st \<Longrightarrow> holds Pipe_read T"
  by (cases st) (auto simp: reader_path table_holds)

lemma reader_drops_write:
  "reader_local (Counts a n) T \<Longrightarrow> \<not> holds Pipe_write T"
  by (simp add: holds_def reader_table_def)

lemma parent_drops_both:
  "parent_local (Runs (Wait # cs)) T \<Longrightarrow> \<not> holds f T \<or> f = Terminal"
  unfolding parent_local.simps parent_path
  by (cases f) (auto simp: holds_def piped_table_def standard_table_def)

section \<open>What arrives\<close>

fun unsent :: "bytes \<Rightarrow> status \<Rightarrow> bytes" where
  "unsent out (Lists text) = text"
| "unsent out (Ended e) = []"
| "unsent out st = out"

text \<open>The bytes \<^verbatim>\<open>wc\<close> has read, those in the pipe and those \<^verbatim>\<open>ls\<close> has not written yet are the listing.\<close>

fun tally :: "(bytes list \<Rightarrow> bytes \<Rightarrow> bytes) \<Rightarrow> bytes \<Rightarrow> status \<Rightarrow> status \<Rightarrow> bytes \<Rightarrow> bytes list \<Rightarrow> bool" where
  "tally wc out st1 (Ended e) buf scr \<longleftrightarrow> has_ended st1 \<and> scr = [wc [''wc'', ''-l''] out]"
| "tally wc out st1 (Counts argv text) buf scr \<longleftrightarrow>
     argv = [''wc'', ''-l''] \<and> scr = [] \<and> text @ buf @ unsent out st1 = out"
| "tally wc out st1 st2 buf scr \<longleftrightarrow> scr = [] \<and> buf @ unsent out st1 = out"

fun quiet :: "status \<Rightarrow> nat \<Rightarrow> bool" where
  "quiet (Runs cs) n \<longleftrightarrow> cs \<noteq> [Exit 1]"
| "quiet (Ended e) n \<longleftrightarrow> e = 0 \<and> n = 2"
| "quiet st n \<longleftrightarrow> False"

text \<open>The listing.\<close>

definition listing :: "(bytes list \<Rightarrow> bytes) \<Rightarrow> bytes" where
  "listing ls = ls [''ls'', ''-l'']"

definition delivery :: "(bytes list \<Rightarrow> bytes) \<Rightarrow> (bytes list \<Rightarrow> bytes \<Rightarrow> bytes) \<Rightarrow> pipeline \<Rightarrow> bool" where
  "delivery ls wc s \<longleftrightarrow> control s \<and> reaped s \<le> children_ended s \<and>
     (errors s = [] \<longrightarrow> quiet (status s Parent) (children_ended s) \<and>
       \<not> failing (status s Child1) \<and> \<not> failing (status s Child2) \<and>
       tally wc (listing ls) (status s Child1) (status s Child2) (buffer s) (screen s))"

lemma children_ended_move:
  "children_ended (move p st T s) =
    of_bool (has_ended (if p = Child1 then st else status s Child1)) +
    of_bool (has_ended (if p = Child2 then st else status s Child2))"
  by (simp add: children_ended_def)

lemma children_ended_same [simp]:
  "children_ended (s\<lparr>fd := a\<rparr>) = children_ended s"
  "children_ended (s\<lparr>errors := b\<rparr>) = children_ended s"
  "children_ended (s\<lparr>complaints := g\<rparr>) = children_ended s"
  "children_ended (s\<lparr>reaped := c\<rparr>) = children_ended s"
  "children_ended (s\<lparr>buffer := d\<rparr>) = children_ended s"
  "children_ended (s\<lparr>screen := f\<rparr>) = children_ended s"
  by (simp_all add: children_ended_def)

lemma fork_unborn:
  assumes "control s" "status s Parent = Runs (Fork c # cs)"
  shows "status s c = Unborn \<and> c \<noteq> Parent"
proof -
  note local = controlD(1) [OF assms(1), unfolded assms(2)]
  note born = controlD(4) [OF assms(1), unfolded assms(2)]
  consider "c = Child1" | "c = Child2" using parent_ops(2) [OF local, of c] by blast
  then show ?thesis using born_next(2,3) [OF local born] by cases auto
qed

lemma reaped_step:
  assumes "pipe_step ls wc s t" "reaped s \<le> children_ended s" "control s"
  shows "reaped t \<le> children_ended t"
  using assms
proof (induction rule: pipe_step.induct)
  case (forks s c cs)
  then show ?case using fork_unborn [OF forks.prems(2) forks.hyps]
    by (cases c) (auto simp: children_ended_def of_bool_def split: if_splits)
qed (auto simp: children_ended_def of_bool_def split: if_splits)

text \<open>In a run without errors \<^verbatim>\<open>ls\<close> always has a reader, and \<^verbatim>\<open>wc\<close> sees the end of file only after it.\<close>

lemma reader_exists:
  assumes "delivery ls wc s" "errors s = []" "status s Child1 = Lists text"
  shows "somebody_holds Pipe_read s"
proof -
  have c: "control s" and q: "quiet (status s Parent) (children_ended s)"
    and t: "tally wc (listing ls) (status s Child1) (status s Child2) (buffer s) (screen s)"
    using assms(1,2) by (auto simp: delivery_def)
  show ?thesis
  proof (cases "status s Child2 = Unborn")
    case True
    then obtain cs where cs: "status s Parent = Runs cs"
      using q assms(3) by (cases "status s Parent") (auto simp: children_ended_def)
    then have "holds Pipe_read (table_of s Parent)"
      using controlD(1,4) [OF c] q True assms(3) parent_holds_read [of cs "table_of s Parent"] by auto
    then show ?thesis by (simp add: somebody_holds_def)
  next
    case False
    moreover have "\<not> has_ended (status s Child2)"
      using t assms(3) by (cases "status s Child2") auto
    ultimately have "holds Pipe_read (table_of s Child2)"
      using reader_holds_read controlD(3) [OF c] by blast
    then show ?thesis by (simp add: somebody_holds_def)
  qed
qed

lemma end_of_file_after_writer:
  assumes "control s" "status s Child2 \<noteq> Unborn" "\<not> somebody_holds Pipe_write s"
  shows "has_ended (status s Child1)"
proof -
  have "status s Child1 \<noteq> Unborn"
    using controlD(4) [OF assms(1)] assms(2) by (cases "status s Parent") auto
  then show ?thesis
    using writer_holds_write controlD(2) [OF assms(1)] assms(3) by (auto simp: somebody_holds_def)
qed

lemma unsent_ended: "has_ended st \<Longrightarrow> unsent out st = []"
  by (cases st) auto

lemma delivery_started: "started s \<Longrightarrow> delivery ls wc s"
  using control_started [of s] by (simp add: delivery_def started_def parent_code_def)

text \<open>A parent that has ended quietly has seen both children end, so nothing moves any more.\<close>

lemma quiet_child_moves:
  assumes "quiet (status s Parent) (children_ended s)" "p \<noteq> Parent" "\<not> has_ended (status s p)"
  shows "quiet (status s Parent) n"
proof -
  have "children_ended s \<noteq> 2"
    using assms(2,3) by (cases p) (auto simp: children_ended_def of_bool_def)
  then show ?thesis using assms(1) by (cases "status s Parent") auto
qed

lemma parent_exit:
  "parent_local (Runs (Exit e # cs)) T \<Longrightarrow> Exit e # cs \<noteq> [Exit 1] \<Longrightarrow> e = 0 \<and> cs = []"
  unfolding parent_local.simps parent_path by auto

lemma parent_continues:
  assumes "parent_local (Runs (c # cs)) T" "\<forall>e. c \<noteq> Exit e"
  shows "cs \<noteq> [Exit 1]"
  using assms unfolding parent_local.simps parent_path by auto

lemma quiet_step:
  assumes "pipe_step ls wc s t" "delivery ls wc s" "errors t = []"
  shows "quiet (status t Parent) (children_ended t)"
  using assms
proof (induction rule: pipe_step.induct)
  case (opens s cs r w T)
  then show ?case using parent_continues [of Pipe cs] controlD(1) [of s] by (auto simp: delivery_def)
next
  case (forks s c cs)
  then have "control s" by (simp add: delivery_def)
  then show ?case
    using fork_unborn [OF _ forks.hyps] parent_continues [of "Fork c" cs] controlD(1) [of s] forks.hyps
    by auto
next
  case (closes s p x cs)
  then have "control s" and q: "quiet (status s Parent) (children_ended s)"
    by (auto simp: delivery_def)
  then show ?case
    using closes.hyps parent_continues [of "Close x" cs] controlD(1) [of s]
      quiet_child_moves [OF q, of p] by (cases "p = Parent") auto
next
  case (dups s p x n cs)
  then have "control s" and q: "quiet (status s Parent) (children_ended s)"
    by (auto simp: delivery_def)
  then show ?case
    using dups.hyps parent_continues [of "Dup2 x n" cs] controlD(1) [of s]
      quiet_child_moves [OF q, of p] by (cases "p = Parent") auto
next
  case (waits s cs)
  then show ?case using parent_continues [of Wait cs] controlD(1) [of s] by (auto simp: delivery_def)
next
  case (exits s p e cs)
  then have c: "control s" and q: "quiet (status s Parent) (children_ended s)"
      and r: "reaped s \<le> children_ended s"
    by (auto simp: delivery_def)
  have p: "p = Parent" using exits by (cases p) (auto simp: delivery_def)
  then have "e = 0 \<and> cs = []"
    using parent_exit [of e cs "table_of s Parent"] controlD(1) [OF c] exits.hyps q by auto
  moreover from this have "reaped s = 2" using controlD(4) [OF c] exits.hyps p by simp
  ultimately show ?case using p r by (simp add: children_ended_def of_bool_def split: if_splits)
next
  case (exec_ls s p argv cs)
  then show ?case using who_execs [of s p] quiet_child_moves [of s p] by (auto simp: delivery_def)
next
  case (exec_wc s p argv cs)
  then show ?case using who_execs [of s p] quiet_child_moves [of s p] by (auto simp: delivery_def)
next
  case (ls_writes s p c xs)
  then show ?case using who_lists [of s p] quiet_child_moves [of s p] by (auto simp: delivery_def)
next
  case (ls_killed s p c xs)
  then show ?case using who_lists [of s p] quiet_child_moves [of s p] by (auto simp: delivery_def)
next
  case (ls_ends s p)
  then show ?case using who_lists [of s p] quiet_child_moves [of s p] by (auto simp: delivery_def)
next
  case (wc_reads s p argv xs c rest)
  then show ?case using who_counts [of s p] quiet_child_moves [of s p] by (auto simp: delivery_def)
next
  case (wc_ends s p argv xs)
  then show ?case using who_counts [of s p] quiet_child_moves [of s p] by (auto simp: delivery_def)
next
  case (complains s p m cs)
  then show ?case using who_complains [OF _ complains.hyps] by (cases p) (auto simp: delivery_def)
qed simp_all

lemma failing_step:
  assumes "pipe_step ls wc s t" "delivery ls wc s" "errors t = []"
  shows "\<not> failing (status t Child1) \<and> \<not> failing (status t Child2)"
  using assms
proof (induction rule: pipe_step.induct)
  case (forks s c cs)
  then show ?case
    by (cases c) (auto simp: delivery_def writer_code_def reader_code_def)
next
  case (closes s p x cs)
  then show ?case
    using controlD(2,3) [of s] writer_ops(2) [of "Close x" cs _ x] reader_ops(2) [of "Close x" cs _ x]
    by (cases p) (auto simp: delivery_def simp del: writer_local.simps reader_local.simps)
next
  case (dups s p x n cs)
  then show ?case
    using controlD(2,3) [of s] writer_ops(2) [of "Dup2 x n" cs _ x n] reader_ops(2) [of "Dup2 x n" cs _ x n]
    by (cases p) (auto simp: delivery_def simp del: writer_local.simps reader_local.simps)
next
  case (complains s p m cs)
  then show ?case using who_complains [OF _ complains.hyps] by (cases p) (auto simp: delivery_def)
qed (auto simp: delivery_def)

lemma tally_step:
  assumes "pipe_step ls wc s t" "delivery ls wc s" "errors t = []"
  shows "tally wc (listing ls) (status t Child1) (status t Child2) (buffer t) (screen t)"
  using assms
proof (induction rule: pipe_step.induct)
  case (forks s c cs)
  then have "control s" "tally wc (listing ls) (status s Child1) (status s Child2) (buffer s) (screen s)"
    by (simp_all add: delivery_def)
  then show ?case
    using fork_unborn [OF _ forks.hyps] controlD(4) [of s] forks.hyps by (cases c) auto
next
  case (closes s p x cs)
  then show ?case by (cases p; cases "status s Child2") (auto simp: delivery_def)
next
  case (dups s p x n cs)
  then show ?case by (cases p; cases "status s Child2") (auto simp: delivery_def)
next
  case (exits s p e cs)
  then have "p = Parent" by (cases p) (auto simp: delivery_def)
  then show ?case using exits by (simp add: delivery_def)
next
  case (complains s p m cs)
  then show ?case using who_complains [OF _ complains.hyps] by (cases p) (auto simp: delivery_def)
next
  case (exec_ls s p argv cs)
  then have "p = Child1" "tally wc (listing ls) (status s Child1) (status s Child2) (buffer s) (screen s)"
    using who_execs [OF _ exec_ls.hyps] by (auto simp: delivery_def)
  then show ?case using exec_ls.hyps who_execs [OF _ exec_ls.hyps] exec_ls.prems
    by (cases "status s Child2") (auto simp: delivery_def listing_def)
next
  case (exec_wc s p argv cs)
  then have "p = Child2" "tally wc (listing ls) (status s Child1) (status s Child2) (buffer s) (screen s)"
    using who_execs [OF _ exec_wc.hyps] by (auto simp: delivery_def)
  then show ?case using exec_wc.hyps who_execs [OF _ exec_wc.hyps] exec_wc.prems
    by (auto simp: delivery_def)
next
  case (ls_writes s p c xs)
  then have "p = Child1" "tally wc (listing ls) (status s Child1) (status s Child2) (buffer s) (screen s)"
    using who_lists [OF _ ls_writes.hyps(1)] by (auto simp: delivery_def)
  then show ?case using ls_writes.hyps(1) by (cases "status s Child2") auto
next
  case (ls_killed s p c xs)
  then have "p = Child1" using who_lists [OF _ ls_killed.hyps(1)] by (auto simp: delivery_def)
  then show ?case using ls_killed reader_exists [of ls wc s "c # xs"] by auto
next
  case (ls_ends s p)
  then have "p = Child1" "tally wc (listing ls) (status s Child1) (status s Child2) (buffer s) (screen s)"
    using who_lists [OF _ ls_ends.hyps] by (auto simp: delivery_def)
  then show ?case using ls_ends.hyps by (cases "status s Child2") auto
next
  case (wc_reads s p argv xs c rest)
  then have "p = Child2" "tally wc (listing ls) (status s Child1) (status s Child2) (buffer s) (screen s)"
    using who_counts [OF _ wc_reads.hyps(1)] by (auto simp: delivery_def)
  then show ?case using wc_reads.hyps by simp
next
  case (wc_ends s p argv xs)
  then have c: "control s" and "p = Child2"
      "tally wc (listing ls) (status s Child1) (status s Child2) (buffer s) (screen s)"
    using who_counts [OF _ wc_ends.hyps(1)] by (auto simp: delivery_def)
  then show ?case
    using wc_ends.hyps end_of_file_after_writer [OF c] by (simp add: unsent_ended)
qed (simp_all add: delivery_def)

lemma delivery_step:
  assumes "pipe_step ls wc s t" "delivery ls wc s"
  shows "delivery ls wc t"
  using assms control_step reaped_step quiet_step failing_step tally_step unfolding delivery_def by blast

interpretation pipeline_delivery: inductive_invariant started "pipe_step ls wc" "delivery ls wc"
  by unfold_locales (auto intro: delivery_started delivery_step)

section \<open>Every run ends\<close>

fun op_weight :: "(bytes list \<Rightarrow> bytes) \<Rightarrow> pipe_op \<Rightarrow> nat" where
  "op_weight ls (Fork c) = (if c = Child1 then 2 * length (listing ls) + 14 else 14)"
| "op_weight ls (Execlp prog argv) = (if prog = ''ls'' then 2 * length (ls argv) + 3 else 3)"
| "op_weight ls Pipe = 4"
| "op_weight ls (Exit e) = 1"
| "op_weight ls c = 2"

fun status_weight :: "(bytes list \<Rightarrow> bytes) \<Rightarrow> status \<Rightarrow> nat" where
  "status_weight ls Unborn = 0"
| "status_weight ls (Runs cs) = sum_list (map (op_weight ls) cs) + 1"
| "status_weight ls (Lists text) = 2 * length text + 2"
| "status_weight ls (Counts argv text) = 2"
| "status_weight ls (Ended e) = 0"

definition weight :: "(bytes list \<Rightarrow> bytes) \<Rightarrow> pipeline \<Rightarrow> nat" where
  "weight ls s = status_weight ls (status s Parent) + status_weight ls (status s Child1) +
     status_weight ls (status s Child2) + length (buffer s)"

lemma weight_move:
  "weight ls (move p st T s) + status_weight ls (status s p) = weight ls s + status_weight ls st"
  by (cases p) (simp_all add: weight_def)

lemma weight_fields [simp]:
  "weight ls (s\<lparr>fd := a\<rparr>) = weight ls s" "weight ls (s\<lparr>errors := b\<rparr>) = weight ls s"
  "weight ls (s\<lparr>complaints := e\<rparr>) = weight ls s"
  "weight ls (s\<lparr>reaped := c\<rparr>) = weight ls s" "weight ls (s\<lparr>screen := d\<rparr>) = weight ls s"
  by (simp_all add: weight_def)

lemma weight_down:
  assumes "status s p = st0" "status_weight ls st < status_weight ls st0"
  shows "weight ls (move p st T s) < weight ls s"
  using weight_move [of ls p st T s] assms by simp

lemma weight_step:
  assumes "pipe_step ls wc s t" "control s"
  shows "weight ls t < weight ls s"
  using assms
proof (induction rule: pipe_step.induct)
  case (forks s c cs)
  have c: "status s c = Unborn" "c \<noteq> Parent" using fork_unborn [OF forks.prems forks.hyps] by auto
  have "status_weight ls (Runs (code_of c)) < op_weight ls (Fork c)"
    using c(2) by (cases c) (simp_all add: writer_code_def reader_code_def listing_def)
  then show ?case
    using c forks.hyps weight_move [of ls c "Runs (code_of c)" "table_of s Parent"
        "move Parent (Runs cs) (table_of s Parent) s"]
      weight_move [of ls Parent "Runs cs" "table_of s Parent" s] by simp
next
  case (ls_writes s p c xs)
  then show ?case by (cases p) (simp_all add: weight_def)
next
  case (wc_reads s p argv xs c rest)
  then show ?case by (cases p) (simp_all add: weight_def)
next
  case (opens s cs r w T)
  then show ?case by (auto intro: weight_down [THEN less_le_trans])
next
  case (waits s cs)
  then show ?case by (auto intro: weight_down [THEN less_le_trans])
qed (auto intro: weight_down [THEN less_le_trans])

definition finished :: "pipeline \<Rightarrow> bool" where
  "finished s \<longleftrightarrow> has_ended (status s Parent) \<and>
     (status s Child1 = Unborn \<or> has_ended (status s Child1)) \<and>
     (status s Child2 = Unborn \<or> has_ended (status s Child2))"

lemma parent_moves:
  assumes "control s" "status s Parent = Runs cs" "\<forall>cs'. cs \<noteq> Wait # cs'"
  shows "\<exists>t. pipe_step ls wc s t \<and> errors t = errors s"
proof -
  have "parent_local (Runs cs) (table_of s Parent)" using controlD(1) [OF assms(1)] assms(2) by simp
  then obtain c cs' where cs: "cs = c # cs'"
    unfolding parent_local.simps parent_path by auto
  show ?thesis
  proof (cases c)
    case Pipe
    moreover obtain r w T where "open_pipe (table_of s Parent) = (r, w, T)"
      by (cases "open_pipe (table_of s Parent)") auto
    ultimately show ?thesis using opens [of s cs' r w T] assms(2) cs by fastforce
  next
    case Wait
    then show ?thesis using assms(3) cs by blast
  next
    case (Fork d)
    then show ?thesis using forks [of s d cs'] assms(2) cs by fastforce
  next
    case (Close x)
    then show ?thesis using closes [of s Parent x cs'] assms(2) cs by fastforce
  next
    case (Dup2 x n)
    then show ?thesis using dups [of s Parent x n cs'] assms(2) cs by fastforce
  next
    case (Execlp prog argv)
    then show ?thesis using who_execs [OF assms(1), of Parent] assms(2) cs by blast
  next
    case (Perror m)
    then show ?thesis using who_complains [OF assms(1), of Parent] assms(2) cs by blast
  next
    case (Exit e)
    then show ?thesis using exits [of s Parent e cs'] assms(2) cs by fastforce
  qed
qed

lemma child_moves:
  assumes "control s" "status s p = Runs cs" "p \<noteq> Parent"
  shows "\<exists>t. pipe_step ls wc s t \<and> errors t = errors s"
proof -
  have "writer_local (Runs cs) (table_of s Child1) \<or> reader_local (Runs cs) (table_of s Child2)"
    using controlD(2,3) [OF assms(1)] assms(2,3) by (cases p) auto
  then obtain c cs' where cs: "cs = c # cs'"
    unfolding writer_local.simps reader_local.simps writer_path reader_path by auto
  have run: "status s p = Runs (c # cs')" using assms(2) cs by simp
  have "c \<noteq> Pipe" "\<forall>d. c \<noteq> Fork d" "c \<noteq> Wait"
    using \<open>writer_local _ _ \<or> reader_local _ _\<close> unfolding cs writer_local.simps reader_local.simps
      writer_path reader_path by auto
  then show ?thesis
  proof (cases c)
    case (Close x)
    then show ?thesis using closes [of s p x cs'] run by fastforce
  next
    case (Dup2 x n)
    then show ?thesis using dups [of s p x n cs'] run by fastforce
  next
    case (Execlp prog argv)
    then have "status s p = Runs (Execlp prog argv # cs')" using run by simp
    then show ?thesis
      using who_execs [OF assms(1), of p prog argv cs'] exec_ls [of s p argv cs'] exec_wc [of s p argv cs']
      by fastforce
  next
    case (Perror m)
    then show ?thesis using complains [of s p m cs'] run by fastforce
  next
    case (Exit e)
    then show ?thesis using exits [of s p e cs'] run by fastforce
  qed simp_all
qed

lemma finished_stuck: "finished s \<Longrightarrow> \<not> pipe_step ls wc s t"
proof
  assume f: "finished s" and t: "pipe_step ls wc s t"
  have "(status s p = Unborn \<or> has_ended (status s p))" for p
    using f by (cases p) (simp_all add: finished_def)
  then show False using t by (elim pipe_stepE) (metis has_ended.simps(2-5) status.distinct(1,3,5))+
qed

lemma holding_parent_moves:
  assumes "control s" "holds f (table_of s Parent)" "f \<noteq> Terminal"
  shows "\<exists>t. pipe_step ls wc s t \<and> errors t = errors s"
proof -
  have local: "parent_local (status s Parent) (table_of s Parent)" by (rule controlD(1) [OF assms(1)])
  then obtain cs where cs: "status s Parent = Runs cs"
    using assms(2) by (cases "status s Parent") (auto simp: holds_def)
  moreover have "\<forall>cs'. cs \<noteq> Wait # cs'"
    using local parent_drops_both [of _ "table_of s Parent" f] assms(2,3) cs by auto
  ultimately show ?thesis by (rule parent_moves [OF assms(1)])
qed

lemma lister_moves:
  assumes "control s" "status s Child1 = Lists xs"
    and "length (buffer s) < PIPE_CAPACITY \<or> \<not> somebody_holds Pipe_read s"
  shows "\<exists>t. pipe_step ls wc s t \<and> errors t = errors s"
proof -
  have "entry (table_of s Child1) STDOUT_FILENO = Some Pipe_write"
    using who_lists [OF assms(1,2)] by (simp add: writer_table_def entry_def STDOUT_FILENO_def)
  then show ?thesis
  proof (cases xs)
    case Nil
    then show ?thesis using ls_ends [of s Child1] assms(2) by fastforce
  next
    case (Cons c ys)
    then show ?thesis
      using ls_writes [of s Child1 c ys] ls_killed [of s Child1 c ys] assms(2,3)
        \<open>entry (table_of s Child1) STDOUT_FILENO = Some Pipe_write\<close> by fastforce
  qed
qed

lemma counter_moves:
  assumes "control s" "status s Child2 = Counts argv n" "\<forall>cs. status s Child1 \<noteq> Runs cs"
  shows "\<exists>t. pipe_step ls wc s t \<and> errors t = errors s"
proof -
  have T: "table_of s Child2 = reader_table" using who_counts [OF assms(1,2)] by simp
  then have stdin: "entry (table_of s Child2) STDIN_FILENO = Some Pipe_read"
    and holds2: "holds Pipe_read (table_of s Child2)" "\<not> holds Pipe_write (table_of s Child2)"
    by (simp_all add: entry_def reader_table_def STDIN_FILENO_def holds_def)
  show ?thesis
  proof (cases "buffer s")
    case (Cons c rest)
    then show ?thesis using wc_reads [OF assms(2) stdin] by fastforce
  next
    case Nil
    consider "\<not> somebody_holds Pipe_write s" | "holds Pipe_write (table_of s Parent)"
      | "holds Pipe_write (table_of s Child1)"
      using holds2(2) by (auto simp: somebody_holds_def)
    then show ?thesis
    proof cases
      case 1
      then show ?thesis using wc_ends [OF assms(2) stdin Nil] by fastforce
    next
      case 2
      then show ?thesis by (rule holding_parent_moves [OF assms(1)]) simp
    next
      case 3
      then obtain xs where "status s Child1 = Lists xs"
        using controlD(2) [OF assms(1)] assms(3) by (cases "status s Child1") (auto simp: holds_def)
      then show ?thesis
        by (rule lister_moves [OF assms(1)]) (simp add: Nil PIPE_CAPACITY_def)
    qed
  qed
qed

lemma lister_alone_moves:
  assumes "control s" "status s Child1 = Lists xs" "table_of s Child2 = []"
  shows "\<exists>t. pipe_step ls wc s t \<and> errors t = errors s"
proof (cases "holds Pipe_read (table_of s Parent)")
  case True
  then show ?thesis by (rule holding_parent_moves [OF assms(1)]) simp
next
  case False
  moreover have "\<not> holds Pipe_read (table_of s Child1)"
    using who_lists [OF assms(1,2)] by (simp add: holds_def writer_table_def)
  ultimately have "\<not> somebody_holds Pipe_read s"
    using assms(3) by (simp add: somebody_holds_def holds_def)
  then show ?thesis using lister_moves [OF assms(1,2)] by blast
qed

lemma last_parent_moves:
  assumes "control s" "reaped s \<le> children_ended s" "status s Parent = Runs cs"
    and "status s Child1 = Unborn \<or> has_ended (status s Child1)"
    and "status s Child2 = Unborn \<or> has_ended (status s Child2)"
  shows "\<exists>t. pipe_step ls wc s t \<and> errors t = errors s"
proof (cases "\<exists>cs'. cs = Wait # cs'")
  case True
  then obtain cs' where cs: "status s Parent = Runs (Wait # cs')" using assms(3) by blast
  have "parent_local (Runs (Wait # cs')) (table_of s Parent)"
    using controlD(1) [OF assms(1)] cs by simp
  from born_next(5) [OF this controlD(4) [OF assms(1), unfolded cs]]
  have "reaped s < children_ended s" using assms(4,5) by (simp add: children_ended_def)
  then show ?thesis using waits [OF cs] by fastforce
next
  case False
  then show ?thesis using parent_moves [OF assms(1,3)] by blast
qed

lemma pipeline_progress:
  assumes "delivery ls wc s" "\<not> finished s"
  shows "\<exists>t. pipe_step ls wc s t \<and> errors t = errors s"
proof -
  have c: "control s" and r: "reaped s \<le> children_ended s" using assms(1) by (auto simp: delivery_def)
  note local = controlD(1-3) [OF c]
  consider (code) p cs where "status s p = Runs cs" "p \<noteq> Parent"
    | (counting) argv n where "status s Child2 = Counts argv n" "\<forall>cs. status s Child1 \<noteq> Runs cs"
    | (listing) xs where "status s Child1 = Lists xs" "table_of s Child2 = []"
    | (quiet) "status s Child1 = Unborn \<or> has_ended (status s Child1)"
        "status s Child2 = Unborn \<or> has_ended (status s Child2)"
    using local(2,3) by (cases "status s Child1"; cases "status s Child2") auto
  then show ?thesis
  proof cases
    case code
    then show ?thesis by (rule child_moves [OF c])
  next
    case counting
    then show ?thesis by (rule counter_moves [OF c])
  next
    case listing
    then show ?thesis by (rule lister_alone_moves [OF c])
  next
    case quiet
    then obtain cs where "status s Parent = Runs cs"
      using assms(2) local(1) by (cases "status s Parent") (auto simp: finished_def)
    then show ?thesis using last_parent_moves [OF c r] quiet by blast
  qed
qed

lemma run_completes:
  "delivery ls wc s \<Longrightarrow>
    \<exists>t. (pipe_step ls wc)\<^sup>*\<^sup>* s t \<and> delivery ls wc t \<and> finished t \<and> errors t = errors s"
proof (induction "weight ls s" arbitrary: s rule: less_induct)
  case less
  show ?case
  proof (cases "finished s")
    case True
    then show ?thesis using less.prems by blast
  next
    case False
    then obtain t where t: "pipe_step ls wc s t" "errors t = errors s"
      using pipeline_progress [OF less.prems] by blast
    then have "weight ls t < weight ls s" "delivery ls wc t"
      using weight_step delivery_step less.prems by (auto simp: delivery_def)
    then obtain u where "(pipe_step ls wc)\<^sup>*\<^sup>* t u" "delivery ls wc u" "finished u" "errors u = errors t"
      using less.hyps by blast
    then show ?thesis using t by (metis converse_rtranclp_into_rtranclp)
  qed
qed

lemma reach_rtranclp: "T\<^sup>*\<^sup>* s t \<Longrightarrow> reach I T s \<Longrightarrow> reach I T t"
  by (induction rule: rtranclp_induct) (auto intro: reach_step)

section \<open>The plumbing for any starting table\<close>

lemma entry_close: "entry (close_fd i T) j = (if j = i then None else entry T j)"
  by (simp add: entry_def close_fd_def)

lemma entry_dup2:
  assumes "new < length T" "entry T old = Some f"
  shows "entry (dup2_fd old new T) j = (if j = new then Some f else entry T j)"
  using assms by (simp add: entry_def dup2_fd_def)

lemma length_tables [simp]:
  "length (close_fd i T) = length T" "length (dup2_fd i j T) = length T"
  by (simp_all add: close_fd_def dup2_fd_def split: option.split)

lemma holds_entry: "holds f T \<longleftrightarrow> (\<exists>j. entry T j = Some f)"
  by (auto simp: holds_def entry_def in_set_conv_nth)

lemma open_lowest_spec:
  assumes "open_lowest f T = (i, T')"
  shows "entry T i = None" "\<forall>j < i. entry T j \<noteq> None" "i < length T'" "length T \<le> length T'"
    "entry T' j = (if j = i then Some f else entry T j)"
  using assms
  by (auto simp: open_lowest_def entry_def first_index_Some first_index_None nth_append
      split: option.splits)

lemma open_pipe_spec:
  assumes "open_pipe T = (r, w, T')"
  shows "r < w" "w < length T'" "entry T r = None" "entry T w = None"
    "entry T' j = (if j = w then Some Pipe_write else if j = r then Some Pipe_read else entry T j)"
    "r = 0 \<longleftrightarrow> entry T 0 = None" "w = 1 \<longleftrightarrow> entry T 0 = None \<and> entry T 1 = None"
proof -
  obtain T1 where T1: "open_lowest Pipe_read T = (r, T1)" "open_lowest Pipe_write T1 = (w, T')"
    using assms by (auto simp: open_pipe_def split: prod.splits)
  note a = open_lowest_spec [OF T1(1)] and b = open_lowest_spec [OF T1(2)]
  show rw: "r < w" using a(1,2) b(1) a(5) by (metis linorder_neqE_nat option.distinct(1))
  show "w < length T'" by (rule b(3))
  show "entry T r = None" by (rule a(1))
  show w: "entry T w = None" using b(1) a(5) rw by simp
  show "entry T' j = (if j = w then Some Pipe_write else if j = r then Some Pipe_read else entry T j)"
    using a(5) b(5) by simp
  show r0: "r = 0 \<longleftrightarrow> entry T 0 = None" using a(1,2) by (metis gr0I)
  show "w = 1 \<longleftrightarrow> entry T 0 = None \<and> entry T 1 = None"
  proof
    assume "w = 1"
    then show "entry T 0 = None \<and> entry T 1 = None" using rw r0 w by simp
  next
    assume none: "entry T 0 = None \<and> entry T 1 = None"
    then have "\<not> 1 < w" using b(2) a(5) r0 by (metis zero_neq_one)
    then show "w = 1" using rw by simp
  qed
qed

section \<open>Properties\<close>

text \<open>
  The plumbing.  Whatever descriptors the program starts with (none of them a pipe), after its
  set-up the second child reads the pipe exactly if descriptor 0 was open, and the first writes into
  it exactly if 0 or 1 was open: with both closed \<^verbatim>\<open>pipe\<close> returns them, \<^verbatim>\<open>dup2\<close> does nothing and the
  \<^verbatim>\<open>close\<close> behind it takes the redirection away.  Nobody keeps the other child's end.
\<close>

theorem pipe_plumbing:
  assumes "open_pipe T = (r, w, T')" "\<not> holds Pipe_read T" "\<not> holds Pipe_write T"
  shows "(entry (tables_after (r, w) reader_code T') STDIN_FILENO = Some Pipe_read \<longleftrightarrow> entry T 0 \<noteq> None) \<and>
    (entry (tables_after (r, w) writer_code T') STDOUT_FILENO = Some Pipe_write \<longleftrightarrow>
      entry T 0 \<noteq> None \<or> entry T 1 \<noteq> None) \<and>
    \<not> holds Pipe_write (tables_after (r, w) reader_code T') \<and>
    \<not> holds Pipe_read (tables_after (r, w) writer_code T') \<and>
    \<not> holds Pipe_read (tables_after (r, w) [Close R, Close W] T') \<and>
    \<not> holds Pipe_write (tables_after (r, w) [Close R, Close W] T')"
proof -
  note p = open_pipe_spec [OF assms(1)]
  have len: "1 < length T'" "0 < length T'" "r \<noteq> w" using p(1,2) by linarith+
  have reader: "entry (dup2_fd r 0 (close_fd w T')) j =
      (if j = 0 then Some Pipe_read else entry (close_fd w T') j)" for j
    using p(5) len by (intro entry_dup2) (simp_all add: entry_close)
  have writer: "entry (dup2_fd w 1 (close_fd r T')) j =
      (if j = 1 then Some Pipe_write else entry (close_fd r T') j)" for j
    using p(5) len by (intro entry_dup2) (simp_all add: entry_close)
  have none: "\<And>j. entry T j \<noteq> Some Pipe_read" "\<And>j. entry T j \<noteq> Some Pipe_write"
    using assms(2,3) by (auto simp: holds_entry)
  have "tables_after (r, w) reader_code T' = close_fd r (dup2_fd r 0 (close_fd w T'))"
    "tables_after (r, w) writer_code T' = close_fd w (dup2_fd w 1 (close_fd r T'))"
    by (simp_all add: reader_code_def writer_code_def STDIN_FILENO_def STDOUT_FILENO_def del: One_nat_def)
  then show ?thesis
    using p(5-7) none len
    by (auto simp: holds_entry entry_close reader writer STDIN_FILENO_def STDOUT_FILENO_def
        simp del: One_nat_def)
qed

theorem pipe_plumbing_witness:
  "entry (tables_after (0, 1) writer_code [Some Pipe_read, Some Pipe_write, Some Terminal])
     STDOUT_FILENO \<noteq> Some Pipe_write"
  using pipe_plumbing [where T = "[None, None, Some Terminal]" and r = 0 and w = 1
      and T' = "[Some Pipe_read, Some Pipe_write, Some Terminal]"]
  by (simp add: open_pipe_def open_lowest_def holds_def entry_def)

text \<open>
  C17: no deadlock, and every run ends.  In every reachable state, failures included, the
  program can move exactly if some process has not ended, and each step lowers a weight; in
  particular \<^verbatim>\<open>wc\<close> always gets its end of file and the parent gets past both \<^verbatim>\<open>wait\<close> calls.
\<close>

theorem pipeline_always_ends:
  assumes "reach started (pipe_step ls wc) s"
  shows "(finished s \<longleftrightarrow> \<not> (\<exists>t. pipe_step ls wc s t)) \<and>
    (\<forall>t \<in> {t. pipe_step ls wc s t}. weight ls t < weight ls s)"
  using pipeline_delivery.holds_reachable [OF assms] pipeline_progress [of ls wc s] weight_step [of ls wc s]
    finished_stuck [of s ls wc] by (auto simp: delivery_def)

text \<open>The state the program starts in.\<close>

definition start_state :: pipeline where
  "start_state = \<lparr>status = (\<lambda>p. Unborn)(Parent := Runs parent_code),
     table_of = (\<lambda>p. [])(Parent := standard_table), fd = (0, 0), buffer = [], reaped = 0,
     screen = [], errors = [], complaints = []\<rparr>"

lemma start_reachable: "reach started (pipe_step ls wc) start_state"
  by (rule reach_init) (simp add: started_def start_state_def)

lemma error_free_run:
  "\<exists>t. reach started (pipe_step ls wc) t \<and> finished t \<and> errors t = []"
proof -
  have "delivery ls wc start_state" by (rule delivery_started) (simp add: started_def start_state_def)
  then obtain t where "(pipe_step ls wc)\<^sup>*\<^sup>* start_state t" "finished t" "errors t = errors start_state"
    using run_completes by blast
  then show ?thesis
    using reach_rtranclp [OF _ start_reachable] by (metis start_state_def select_convs(7))
qed

theorem pipeline_always_ends_witness:
  "\<exists>t. pipe_step (\<lambda>_. ''a'') (\<lambda>_ _. []) start_state t"
  using pipeline_always_ends [OF start_reachable, of "\<lambda>_. ''a''" "\<lambda>_ _. []"]
  by (simp add: finished_def start_state_def)

text \<open>
  C18: the result.  Let \<^verbatim>\<open>wc -l\<close> print the number of newlines it reads, as it is documented.  When a run
  has ended in which no call failed, the screen shows exactly one line, the number of newlines in
  what \<^verbatim>\<open>ls -l\<close> writes, and the parent has exited with status 0, for every interleaving.
\<close>

theorem pipeline_counts_listing:
  assumes "\<And>text. wc [''wc'', ''-l''] text = show_nat (newlines text) @ [CHR 0x0A]"
    and "reach started (pipe_step ls wc) s" "finished s" "errors s = []"
  shows "screen s = [show_nat (newlines (ls [''ls'', ''-l''])) @ [CHR 0x0A]] \<and> status s Parent = Ended 0"
proof -
  have d: "delivery ls wc s" using pipeline_delivery.holds_reachable [OF assms(2)] .
  then have "quiet (status s Parent) (children_ended s)"
    "tally wc (listing ls) (status s Child1) (status s Child2) (buffer s) (screen s)"
    using assms(4) by (auto simp: delivery_def)
  then show ?thesis
    using assms(1,3) by (cases "status s Parent"; cases "status s Child2")
      (auto simp: finished_def children_ended_def listing_def)
qed

text \<open>A listing of one line, and a \<^verbatim>\<open>wc\<close> that counts newlines when it is asked to and bytes otherwise.\<close>

definition wc_program :: "bytes list \<Rightarrow> bytes \<Rightarrow> bytes" where
  "wc_program argv text =
     show_nat (if argv = [''wc'', ''-l''] then newlines text else length text) @ [CHR 0x0A]"

theorem pipeline_counts_listing_witness:
  "\<exists>s :: pipeline. reach started (pipe_step (\<lambda>_. [CHR ''a'', CHR 0x0A]) wc_program) s \<and>
    screen s = [''1'' @ [CHR 0x0A]]"
proof -
  obtain s where "reach started (pipe_step (\<lambda>_. [CHR ''a'', CHR 0x0A]) wc_program) s"
    "finished s" "errors s = []"
    using error_free_run by blast
  then show ?thesis
    using pipeline_counts_listing [of wc_program "\<lambda>_. [CHR ''a'', CHR 0x0A]" s]
    by (auto simp: wc_program_def newlines_def show_nat_digit digit_char_def)
qed

end
