(* ===== verification/Shared_Memory.thy ===== *)
theory Shared_Memory
  imports C_Library
begin

text \<open>
  The producer and the consumer of \<^verbatim>\<open>09-ipc-shared-mem\<close>, which pass one \<^verbatim>\<open>Product\<close> through a POSIX
  shared memory object.  The object is its bytes, with the layout both programs give the structure:
  a little-endian \<^verbatim>\<open>int\<close>, 64 bytes of name, an IEEE single-precision price.  An access outside the
  object, and the printing of a name without NUL, are \<open>None\<close>.
\<close>

section \<open>Scalars in memory\<close>

fun le_bytes :: "nat \<Rightarrow> nat \<Rightarrow> bytes" where
  "le_bytes 0 n = []"
| "le_bytes (Suc k) n = char_of (n mod 256) # le_bytes k (n div 256)"

fun le_value :: "bytes \<Rightarrow> nat" where
  "le_value [] = 0"
| "le_value (c # cs) = of_char c + 256 * le_value cs"

lemma length_le_bytes [simp]: "length (le_bytes k n) = k"
  by (induction k arbitrary: n) auto

lemma le_value_bytes: "le_value (le_bytes k n) = n mod 256 ^ k"
proof (induction k arbitrary: n)
  case 0
  then show ?case by simp
next
  case (Suc k)
  have "n mod 256 ^ Suc k = n mod 256 + 256 * (n div 256 mod 256 ^ k)"
    by (simp add: mod_mult2_eq)
  then show ?case by (simp add: Suc)
qed

definition put_int :: "int \<Rightarrow> bytes" where
  "put_int n = le_bytes 4 (nat (n mod 4294967296))"

definition get_int :: "bytes \<Rightarrow> int" where
  "get_int b = to_int32 (int (le_value b))"

lemma get_put_int:
  assumes "INT_MIN \<le> n" "n \<le> INT_MAX"
  shows "get_int (put_int n) = n"
proof -
  have "nat (n mod 4294967296) < 4294967296" by (simp add: nat_less_iff)
  then have "le_value (put_int n) = nat (n mod 4294967296)"
    by (simp add: put_int_def le_value_bytes)
  moreover have "to_int32 (n mod 4294967296) = to_int32 n"
    by (simp add: to_int32_def mod_add_left_eq)
  ultimately show ?thesis using assms by (simp add: get_int_def to_int32_id)
qed

section \<open>The text of a float\<close>

text \<open>\<^verbatim>\<open>%.2f\<close> of the float with the given bits: the nearest hundredth, ties to even.\<close>

definition div_half_even :: "nat \<Rightarrow> nat \<Rightarrow> nat" where
  "div_half_even a b = (let q = a div b; r = a mod b in
     if 2 * r > b \<or> 2 * r = b \<and> odd q then q + 1 else q)"

definition show_cents :: "nat \<Rightarrow> bytes" where
  "show_cents n = show_nat (n div 100) @ ''.'' @ [digit_char (n div 10 mod 10), digit_char (n mod 10)]"

definition show_float :: "nat \<Rightarrow> bytes" where
  "show_float w =
     (let e = w div 8388608 mod 256; m = w mod 8388608;
          sign = (if w \<ge> 2147483648 then ''-'' else '''');
          significand = (if e = 0 then m else 8388608 + m); e1 = max e 1
      in sign @
        (if e = 255 then (if m = 0 then ''inf'' else ''nan'')
         else show_cents (if e1 \<ge> 150 then 100 * significand * 2 ^ (e1 - 150)
           else div_half_even (100 * significand) (2 ^ (150 - e1)))))"

section \<open>The object\<close>

definition NAME_SIZE :: nat where "NAME_SIZE = 64"
definition PRODUCT_SIZE :: nat where "PRODUCT_SIZE = 72"
definition SHM_NAME :: bytes where "SHM_NAME = ''/my_shared_mem''"

record product =
  product_id :: int
  product_name :: bytes
  price_bits :: nat

text \<open>The fields of a \<^verbatim>\<open>Product*\<close>, at offsets 0, 4 and 68; a write keeps the other bytes.\<close>

definition field_at :: "nat \<Rightarrow> nat \<Rightarrow> bytes \<Rightarrow> bytes option" where
  "field_at off n mem = (if off + n \<le> length mem then Some (take n (drop off mem)) else None)"

definition store_at :: "nat \<Rightarrow> bytes \<Rightarrow> bytes \<Rightarrow> bytes option" where
  "store_at off v mem = (if off + length v \<le> length mem
     then Some (take off mem @ v @ drop (off + length v) mem) else None)"

definition load_product :: "bytes \<Rightarrow> product option" where
  "load_product mem = do {
     i \<leftarrow> field_at 0 4 mem;
     n \<leftarrow> field_at 4 NAME_SIZE mem;
     p \<leftarrow> field_at (4 + NAME_SIZE) 4 mem;
     Some \<lparr>product_id = get_int i, product_name = n, price_bits = le_value p\<rparr>
   }"

definition store_id :: "int \<Rightarrow> bytes \<Rightarrow> bytes option" where
  "store_id i = store_at 0 (put_int i)"

definition store_name :: "bytes \<Rightarrow> bytes \<Rightarrow> bytes option" where
  "store_name name = store_at 4 (strncpy_field NAME_SIZE name)"

definition store_price :: "nat \<Rightarrow> bytes \<Rightarrow> bytes option" where
  "store_price w = store_at (4 + NAME_SIZE) (le_bytes 4 w)"

text \<open>\<^verbatim>\<open>ftruncate\<close>: a longer object is cut, a shorter one is filled with zeros.\<close>

definition resize :: "nat \<Rightarrow> bytes \<Rightarrow> bytes" where
  "resize n mem = take n mem @ replicate (n - length mem) NUL"

section \<open>The programs\<close>

datatype shm_call =
    Shm_open bytes int | Ftruncate int nat int | Mmap int bool | Munmap | Close_fd int
  | Shm_unlink bytes | Shows bytes | Complains bytes

type_synonym objects = "bytes \<rightharpoonup> bytes"

definition sample_name :: bytes where "sample_name = ''MacBook Pro M3''"

text \<open>The float nearest to 2499.99.\<close>

definition sample_price :: nat where "sample_price = 1159479255"

definition text_price :: "nat \<Rightarrow> bytes" where
  "text_price w = ''Price: '' @ show_float w @ [CHR 0x0A]"

definition text_id :: "int \<Rightarrow> bytes" where
  "text_id i = ''ID: '' @ show_int i @ [CHR 0x0A]"

definition text_name :: "bytes \<Rightarrow> bytes" where
  "text_name n = ''Name: '' @ n @ [CHR 0x0A]"

definition print_product :: "bytes \<Rightarrow> shm_call list option" where
  "print_product mem = do {
     p \<leftarrow> load_product mem;
     name \<leftarrow> c_string (product_name p);
     Some [Shows (text_id (product_id p)), Shows (text_name name), Shows (text_price (price_bits p))]
   }"

text \<open>The answers of \<^verbatim>\<open>shm_open\<close>, \<^verbatim>\<open>ftruncate\<close> and \<^verbatim>\<open>mmap\<close>, the last being whether it succeeds.\<close>

record shm_answers =
  a_open :: int
  a_truncate :: int
  a_mmap :: bool

definition text_written :: bytes where
  "text_written = ''Product written to shared memory:'' @ [CHR 0x0A]"

definition text_read :: bytes where
  "text_read = ''Read from shared memory:'' @ [CHR 0x0A]"

definition producer_shm :: "shm_answers \<Rightarrow> objects \<Rightarrow> (int \<times> objects \<times> shm_call list) option" where
  "producer_shm a O0 =
     (let fd = a_open a; calls = [Shm_open SHM_NAME fd] in
      if fd = -1 then Some (1, O0, calls @ [Complains ''shm_open'']) else
      let O1 = (case O0 SHM_NAME of None \<Rightarrow> O0(SHM_NAME \<mapsto> []) | Some mem \<Rightarrow> O0);
          calls = calls @ [Ftruncate fd PRODUCT_SIZE (a_truncate a)] in
      if a_truncate a = -1 then Some (1, O1, calls @ [Complains ''ftruncate'']) else
      let O2 = O1(SHM_NAME \<mapsto> resize PRODUCT_SIZE (the (O1 SHM_NAME)));
          calls = calls @ [Mmap fd (a_mmap a)] in
      if \<not> a_mmap a then Some (1, O2, calls @ [Complains ''mmap'']) else
      do {
        m1 \<leftarrow> store_id 101 (the (O2 SHM_NAME));
        m2 \<leftarrow> store_name sample_name m1;
        m3 \<leftarrow> store_price sample_price m2;
        shown \<leftarrow> print_product m3;
        Some (0, O2(SHM_NAME \<mapsto> m3), calls @ [Shows text_written] @ shown @ [Close_fd fd])
      })"

text \<open>\<^verbatim>\<open>shm_open\<close> without \<^verbatim>\<open>O_CREAT\<close> fails when there is no object, whatever the answer.\<close>

definition consumer_shm :: "shm_answers \<Rightarrow> objects \<Rightarrow> (int \<times> objects \<times> shm_call list) option" where
  "consumer_shm a O0 =
     (let fd = (if O0 SHM_NAME = None then -1 else a_open a); calls = [Shm_open SHM_NAME fd] in
      if fd = -1 then Some (1, O0, calls @ [Complains ''shm_open'']) else
      let calls = calls @ [Mmap fd (a_mmap a)] in
      if \<not> a_mmap a then Some (1, O0, calls @ [Complains ''mmap'']) else
      do {
        shown \<leftarrow> print_product (the (O0 SHM_NAME));
        Some (0, O0(SHM_NAME := None),
          calls @ [Shows text_read] @ shown @ [Munmap, Close_fd fd, Shm_unlink SHM_NAME])
      })"

section \<open>Fields and round trips\<close>

lemma store_field:
  assumes "store_at off v mem = Some mem'"
  shows "length mem' = length mem" "field_at off (length v) mem' = Some v"
    and "off' + n \<le> off \<or> off + length v \<le> off' \<Longrightarrow> field_at off' n mem' = field_at off' n mem"
proof -
  have m: "off + length v \<le> length mem" "mem' = take off mem @ v @ drop (off + length v) mem"
    using assms by (auto simp: store_at_def split: if_splits)
  show len: "length mem' = length mem" using m by simp
  show "field_at off (length v) mem' = Some v" using m by (simp add: field_at_def)
  show "field_at off' n mem' = field_at off' n mem" if "off' + n \<le> off \<or> off + length v \<le> off'"
  proof -
    have "take n (drop off' mem') = take n (drop off' mem)" if "off' + n \<le> off"
    proof -
      have "take n (drop off' mem') = take n (drop off' (take off mem'))"
        using that by (simp add: drop_take)
      also have "take off mem' = take off mem" using m by simp
      finally show ?thesis using that by (simp add: drop_take)
    qed
    moreover have "drop off' mem' = drop off' mem" if "off + length v \<le> off'"
    proof -
      have "drop off' mem' = drop (off' - (off + length v)) (drop (off + length v) mem')"
        using that by simp
      also have "drop (off + length v) mem' = drop (off + length v) mem" using m by simp
      finally show ?thesis using that by simp
    qed
    ultimately show ?thesis using that len by (auto simp: field_at_def)
  qed
qed

lemma store_fits: "off + length v \<le> length mem \<Longrightarrow> \<exists>mem'. store_at off v mem = Some mem'"
  by (simp add: store_at_def)

lemma length_put_int [simp]: "length (put_int n) = 4"
  by (simp add: put_int_def)

lemma length_resize [simp]: "length (resize n mem) = n"
  by (simp add: resize_def)

text \<open>What is written into an object of the right size is what is loaded from it.\<close>

lemma product_written:
  assumes "length mem = PRODUCT_SIZE" "INT_MIN \<le> i" "i \<le> INT_MAX" "w < 4294967296"
  shows "\<exists>m1 m2 m3. store_id i mem = Some m1 \<and> store_name name m1 = Some m2 \<and>
    store_price w m2 = Some m3 \<and> length m3 = PRODUCT_SIZE \<and>
    load_product m3 = Some \<lparr>product_id = i, product_name = strncpy_field NAME_SIZE name, price_bits = w\<rparr>"
proof -
  obtain m1 where m1: "store_id i mem = Some m1"
    using store_fits [of 0 "put_int i" mem] assms(1) by (auto simp: store_id_def PRODUCT_SIZE_def)
  note f1 = store_field [OF m1 [unfolded store_id_def]]
  obtain m2 where m2: "store_name name m1 = Some m2"
    using store_fits [of 4 "strncpy_field NAME_SIZE name" m1] assms(1) f1(1)
    by (auto simp: store_name_def PRODUCT_SIZE_def NAME_SIZE_def)
  note f2 = store_field [OF m2 [unfolded store_name_def]]
  obtain m3 where m3: "store_price w m2 = Some m3"
    using store_fits [of "4 + NAME_SIZE" "le_bytes 4 w" m2] assms(1) f1(1) f2(1)
    by (auto simp: store_price_def PRODUCT_SIZE_def NAME_SIZE_def)
  note f3 = store_field [OF m3 [unfolded store_price_def]]
  have "field_at 0 4 m3 = Some (put_int i)"
    using f1(2) f2(3) [of 0 4] f3(3) [of 0 4] by simp
  moreover have "field_at 4 NAME_SIZE m3 = Some (strncpy_field NAME_SIZE name)"
    using f2(2) f3(3) [of 4 NAME_SIZE] by simp
  moreover have "field_at (4 + NAME_SIZE) 4 m3 = Some (le_bytes 4 w)"
    using f3(2) by simp
  ultimately have "load_product m3 =
      Some \<lparr>product_id = i, product_name = strncpy_field NAME_SIZE name, price_bits = w\<rparr>"
    using assms(2-4) by (simp add: load_product_def get_put_int le_value_bytes)
  then show ?thesis using m1 m2 m3 f1(1) f2(1) f3(1) assms(1) by auto
qed

lemma sample_price_text: "show_float sample_price = ''2499.99''"
  by (simp add: show_float_def sample_price_def Let_def show_cents_def div_half_even_def
      show_nat.simps [of 2499] show_nat.simps [of 249] show_nat.simps [of 24] show_nat.simps [of 2]
      digit_char_def)

lemma sample_name_field: "c_string (strncpy_field NAME_SIZE sample_name) = Some sample_name"
  by (rule c_string_strncpy) (simp_all add: sample_name_def NAME_SIZE_def)

definition sample_lines :: "shm_call list" where
  "sample_lines = [Shows (text_id 101), Shows (text_name sample_name), Shows (text_price sample_price)]"

lemma print_sample:
  assumes "load_product mem =
    Some \<lparr>product_id = 101, product_name = strncpy_field NAME_SIZE sample_name, price_bits = sample_price\<rparr>"
  shows "print_product mem = Some sample_lines"
  using assms by (simp add: print_product_def sample_name_field sample_lines_def)

lemma producer_writes:
  assumes "a_open a \<noteq> -1" "a_truncate a \<noteq> -1" "a_mmap a"
  shows "\<exists>mem. length mem = PRODUCT_SIZE \<and> print_product mem = Some sample_lines \<and>
    producer_shm a O0 = Some (0, O0(SHM_NAME \<mapsto> mem),
      [Shm_open SHM_NAME (a_open a), Ftruncate (a_open a) PRODUCT_SIZE (a_truncate a),
       Mmap (a_open a) True, Shows text_written] @ sample_lines @ [Close_fd (a_open a)])"
proof -
  define old where "old = (case O0 SHM_NAME of None \<Rightarrow> [] | Some mem \<Rightarrow> mem)"
  obtain m1 m2 m3 where m: "store_id 101 (resize PRODUCT_SIZE old) = Some m1"
      "store_name sample_name m1 = Some m2" "store_price sample_price m2 = Some m3"
      "length m3 = PRODUCT_SIZE" "load_product m3 =
        Some \<lparr>product_id = 101, product_name = strncpy_field NAME_SIZE sample_name, price_bits = sample_price\<rparr>"
    using product_written [of "resize PRODUCT_SIZE old" 101 sample_price sample_name]
    by (auto simp: INT_MIN_def INT_MAX_def sample_price_def)
  then show ?thesis
    using assms print_sample [OF m(5)]
    by (cases "O0 SHM_NAME") (auto simp: producer_shm_def Let_def old_def fun_upd_idem_iff)
qed

text \<open>
  C35: the transfer.  A producer whose calls succeed leaves an object from which a consumer whose
  calls succeed prints the same three lines, whatever the object held before, the price reading
  2499.99; the consumer removes the object, so a second consumer fails at \<^verbatim>\<open>shm_open\<close>.
\<close>

theorem shared_product_delivered:
  assumes "a_open p \<noteq> -1" "a_truncate p \<noteq> -1" "a_mmap p" "a_open c \<noteq> -1" "a_mmap c"
  shows "\<exists>calls O1. producer_shm p O0 = Some (0, O1, calls @ sample_lines @ [Close_fd (a_open p)]) \<and>
    consumer_shm c O1 = Some (0, O1(SHM_NAME := None),
      [Shm_open SHM_NAME (a_open c), Mmap (a_open c) True, Shows text_read] @ sample_lines @
      [Munmap, Close_fd (a_open c), Shm_unlink SHM_NAME]) \<and>
    consumer_shm c (O1(SHM_NAME := None)) = Some (1, O1(SHM_NAME := None),
      [Shm_open SHM_NAME (-1), Complains ''shm_open'']) \<and>
    show_float sample_price = ''2499.99''"
proof -
  obtain mem where "print_product mem = Some sample_lines"
      "producer_shm p O0 = Some (0, O0(SHM_NAME \<mapsto> mem),
        [Shm_open SHM_NAME (a_open p), Ftruncate (a_open p) PRODUCT_SIZE (a_truncate p),
         Mmap (a_open p) True, Shows text_written] @ sample_lines @ [Close_fd (a_open p)])"
    using producer_writes [OF assms(1-3), of O0] by blast
  then show ?thesis
    using assms(4,5) sample_price_text by (fastforce simp: consumer_shm_def Let_def)
qed

definition granting :: shm_answers where
  "granting = \<lparr>a_open = 3, a_truncate = 0, a_mmap = True\<rparr>"

theorem shared_product_delivered_witness:
  "\<exists>calls O1. producer_shm granting Map.empty = Some (0, O1, calls @ sample_lines @ [Close_fd 3])"
  using shared_product_delivered [where p = granting and c = granting and ?O0.0 = Map.empty]
  by (auto simp: granting_def)

text \<open>
  Nothing orders the two programs.  A consumer that runs between the producer's \<^verbatim>\<open>shm_open\<close> and its
  \<^verbatim>\<open>ftruncate\<close> touches an object without pages; one that runs after the id was stored but before the
  name prints the id with an empty name and the price 0.00, and removes the object.
\<close>

lemma unordered_consumer:
  assumes "a_open c \<noteq> -1" "a_mmap c" "store_id 101 (resize PRODUCT_SIZE []) = Some mem"
  shows "consumer_shm c [SHM_NAME \<mapsto> []] = None"
    and "consumer_shm c [SHM_NAME \<mapsto> mem] = Some (0, Map.empty,
      [Shm_open SHM_NAME (a_open c), Mmap (a_open c) True, Shows text_read,
       Shows (text_id 101), Shows (text_name []), Shows (text_price 0), Munmap, Close_fd (a_open c),
       Shm_unlink SHM_NAME])"
    and "show_float 0 = ''0.00''"
proof -
  show "consumer_shm c [SHM_NAME \<mapsto> []] = None"
    using assms(1,2) by (simp add: consumer_shm_def Let_def print_product_def load_product_def field_at_def)
  have zeros: "field_at off n (resize PRODUCT_SIZE []) = Some (replicate n NUL)"
    if "off + n \<le> PRODUCT_SIZE" for off n
    using that by (simp add: field_at_def resize_def min_def)
  note f = store_field [OF assms(3) [unfolded store_id_def]]
  have "field_at 0 4 mem = Some (put_int 101)" using f(2) by simp
  moreover have "field_at 4 NAME_SIZE mem = Some (replicate NAME_SIZE NUL)"
    "field_at (4 + NAME_SIZE) 4 mem = Some (replicate 4 NUL)"
    using f(3) zeros by (simp_all add: PRODUCT_SIZE_def NAME_SIZE_def)
  moreover have "c_string (replicate NAME_SIZE NUL) = Some []"
    by (simp add: c_string_def NAME_SIZE_def)
  moreover have "le_value (replicate 4 NUL) = 0" by (simp add: numeral_eq_Suc)
  ultimately have "print_product mem =
      Some [Shows (text_id 101), Shows (text_name []), Shows (text_price 0)]"
    by (simp add: print_product_def load_product_def get_put_int INT_MIN_def INT_MAX_def)
  then show "consumer_shm c [SHM_NAME \<mapsto> mem] = Some (0, Map.empty,
      [Shm_open SHM_NAME (a_open c), Mmap (a_open c) True, Shows text_read,
       Shows (text_id 101), Shows (text_name []), Shows (text_price 0), Munmap, Close_fd (a_open c),
       Shm_unlink SHM_NAME])"
    using assms(1,2) by (simp add: consumer_shm_def Let_def)
  show "show_float 0 = ''0.00''"
    by (simp add: show_float_def Let_def show_cents_def div_half_even_def show_nat_digit digit_char_def)
qed

end
