(* ===== verification/File_Status.thy ===== *)
theory File_Status
  imports C_Library
begin

unbundle bit_operations_syntax

text \<open>
  The metadata printer of \<^verbatim>\<open>02-linux-file-system\<close>: the classification of a 32-bit file mode and the
  program around it.  \<^verbatim>\<open>lstat\<close> and the local calendar time of \<^verbatim>\<open>localtime\<close> and \<^verbatim>\<open>strftime\<close>, which
  depend on the machine, are arguments.
\<close>

definition S_IFMT :: "32 word" where "S_IFMT = 0xF000"
definition S_IFREG :: "32 word" where "S_IFREG = 0x8000"
definition S_IFDIR :: "32 word" where "S_IFDIR = 0x4000"
definition S_IFLNK :: "32 word" where "S_IFLNK = 0xA000"

definition S_ISREG :: "32 word \<Rightarrow> bool" where "S_ISREG m \<longleftrightarrow> m AND S_IFMT = S_IFREG"
definition S_ISDIR :: "32 word \<Rightarrow> bool" where "S_ISDIR m \<longleftrightarrow> m AND S_IFMT = S_IFDIR"
definition S_ISLNK :: "32 word \<Rightarrow> bool" where "S_ISLNK m \<longleftrightarrow> m AND S_IFMT = S_IFLNK"

definition type_line :: "bytes \<Rightarrow> bytes" where
  "type_line t = ''File Type     : '' @ t @ [CHR 0x0A]"

definition print_file_type :: "32 word \<Rightarrow> bytes" where
  "print_file_type mode =
     (if S_ISREG mode then type_line ''Regular File''
      else if S_ISDIR mode then type_line ''Directory''
      else if S_ISLNK mode then type_line ''Symbolic Link''
      else type_line ''Other'')"

record stat =
  st_mode :: "32 word"
  st_size :: int
  st_mtime :: int

datatype stat_call = Lstat bytes | Stdout bytes | Stderr bytes | Perror_of bytes

definition path_line :: "bytes \<Rightarrow> bytes" where
  "path_line p = ''File Path     : '' @ p @ [CHR 0x0A]"

definition size_line :: "int \<Rightarrow> bytes" where
  "size_line n = ''Size          : '' @ show_int n @ '' bytes'' @ [CHR 0x0A]"

definition time_line :: "bytes \<Rightarrow> bytes" where
  "time_line t = ''Last Modified : '' @ t @ [CHR 0x0A]"

text \<open>
  \<open>filestat_main lstat calendar argv\<close>: \<open>calendar t\<close> is the text of time \<open>t\<close> in the format
  \<^verbatim>\<open>%Y-%m-%d %H:%M:%S\<close>.
\<close>

definition filestat_main ::
    "(bytes \<Rightarrow> stat option) \<Rightarrow> (int \<Rightarrow> bytes) \<Rightarrow> bytes list \<Rightarrow> (int \<times> stat_call list) option" where
  "filestat_main lstat calendar argv = (case argv of
     [] \<Rightarrow> None
   | prog # args \<Rightarrow> (case args of
       [file_path] \<Rightarrow> (case lstat file_path of
           None \<Rightarrow> Some (1, [Lstat file_path, Perror_of ''lstat''])
         | Some st \<Rightarrow> Some (0, [Lstat file_path, Stdout (path_line file_path),
             Stdout (print_file_type (st_mode st)), Stdout (size_line (st_size st)),
             Stdout (time_line (calendar (st_mtime st)))]))
     | _ \<Rightarrow> Some (1, [Stderr (''Usage: '' @ prog @ '' <file_path>'' @ [CHR 0x0A])])))"

section \<open>The file type\<close>

text \<open>The kinds of file a mode can name, by the value of its type bits.\<close>

datatype file_kind = Regular | Directory | Symlink | Char_dev | Block_dev | Fifo | Socket_file

fun kind_bits :: "file_kind \<Rightarrow> 32 word" where
  "kind_bits Regular = 0x8000"
| "kind_bits Directory = 0x4000"
| "kind_bits Symlink = 0xA000"
| "kind_bits Char_dev = 0x2000"
| "kind_bits Block_dev = 0x6000"
| "kind_bits Fifo = 0x1000"
| "kind_bits Socket_file = 0xC000"

fun kind_line :: "file_kind \<Rightarrow> bytes" where
  "kind_line Regular = type_line ''Regular File''"
| "kind_line Directory = type_line ''Directory''"
| "kind_line Symlink = type_line ''Symbolic Link''"
| "kind_line k = type_line ''Other''"

lemma permission_bits: "(perms AND 0xFFF) AND S_IFMT = (0 :: 32 word)"
  by (simp add: S_IFMT_def and.assoc)

lemma mode_type_bits:
  "((kind_bits k) OR (perms AND 0xFFF)) AND S_IFMT = kind_bits k"
  using permission_bits [of perms] by (cases k) (simp_all add: S_IFMT_def bit.conj_disj_distrib2)

lemma print_file_type_kind: "print_file_type (kind_bits k OR (perms AND 0xFFF)) = kind_line k"
  unfolding print_file_type_def S_ISREG_def S_ISDIR_def S_ISLNK_def mode_type_bits
  by (cases k) (simp_all add: S_IFREG_def S_IFDIR_def S_IFLNK_def)

text \<open>
  The report.  For a file of any kind, with any permission, set-user-id and sticky bits, the
  type line names exactly its kind (devices, pipes and sockets being "Other"): the bits that share
  values between kinds, such as those of links and regular files, do not confuse it.  Every
  existing path is reported in four lines, and the exit status is 0 exactly then.
\<close>

theorem filestat_reports_kind:
  assumes "lstat path = Some \<lparr>st_mode = kind_bits k OR (perms AND 0xFFF), st_size = n, st_mtime = t\<rparr>"
  shows "filestat_main lstat calendar [prog, path] = Some (0, [Lstat path, Stdout (path_line path),
      Stdout (kind_line k), Stdout (size_line n), Stdout (time_line (calendar t))]) \<and>
    (\<exists>calls. filestat_main lstat calendar (prog # args) =
      Some (if \<exists>p. args = [p] \<and> lstat p \<noteq> None then 0 else 1, calls))"
proof -
  have "filestat_main lstat calendar [prog, path] = Some (0, [Lstat path, Stdout (path_line path),
      Stdout (kind_line k), Stdout (size_line n), Stdout (time_line (calendar t))])"
    using assms by (simp add: filestat_main_def print_file_type_kind)
  moreover have "\<exists>calls. filestat_main lstat calendar (prog # args) =
      Some (if \<exists>p. args = [p] \<and> lstat p \<noteq> None then 0 else 1, calls)"
    by (auto simp: filestat_main_def split: list.splits option.splits)
  ultimately show ?thesis by blast
qed

theorem filestat_reports_kind_witness:
  "filestat_main (\<lambda>p. Some \<lparr>st_mode = kind_bits Symlink OR (0x1FF AND 0xFFF), st_size = 7, st_mtime = 0\<rparr>)
     (\<lambda>t. ''1970'') [''filestat'', ''/tmp/l''] =
   Some (0, [Lstat ''/tmp/l'', Stdout (path_line ''/tmp/l''), Stdout (kind_line Symlink),
     Stdout (size_line 7), Stdout (time_line ''1970'')])"
  using filestat_reports_kind [of "\<lambda>p. Some \<lparr>st_mode = kind_bits Symlink OR (0x1FF AND 0xFFF),
      st_size = 7, st_mtime = 0\<rparr>" "''/tmp/l''" Symlink "0x1FF" 7 0 "\<lambda>t. ''1970''" "''filestat''" "[]"]
  by blast

end
