(* ===== verification/Spec2Isabelle.thy ===== *)
theory Spec2Isabelle
  imports Strutils Restaurant Restaurant_Log Char_Device Gpio_Register Gpio_Integer Gpio_Descriptor
    Gpio_Callers Device_Files Chat_System Commands Chat_Session Chat_Link Msg_Queue Task_System
    Threads Pthreads Signals Sockets Processes Pipeline Shared_Memory File_Status
begin

text \<open>
  A development on the programs of the embedded-Linux course repository under \<^verbatim>\<open>src/\<close>.

  \<^bold>\<open>The programs.\<close>  The repository is a series of independent programs, one directory each, that grow
  from a string library to kernel modules and a peer-to-peer chat.  They share no code, but they
  share idioms: a loop that takes the first matching slot of a fixed array, a buffer that is filled
  and then terminated, a chain of error exits that unwinds what was acquired, a loop under a lock.
  The library states each idiom once and the component theories use it.

  \<^bold>\<open>Shared theories.\<close>
  \<^item> \<open>Prelude\<close>: first-match scans, counting over arrays and processes, checked buffer accesses
    (\<open>buf_get\<close>, \<open>buf_put\<close>, \<open>overwrite\<close>, \<open>c_string\<close>; \<open>None\<close> is undefined behaviour), the conversion to a
    32-bit \<^verbatim>\<open>int\<close>, reachable states and the locale \<open>inductive_invariant\<close>.
  \<^item> \<open>C_Library\<close>: the functions of the C library the programs call, with round-trip lemmas for
    decimal numbers, for the \<^verbatim>\<open>sscanf\<close> conversions, for \<^verbatim>\<open>strncpy\<close> into a field and for \<^verbatim>\<open>fgets\<close>.
  \<^item> \<open>Slot_Array\<close>: the locale of a fixed array of slots, interpreted on the trays of the restaurant
    and, by id and by socket, on the peer table of the chat program.
  \<^item> \<open>Kernel\<close>: error codes, the kernel calls of the modules with the resources they move
    (\<open>owned\<close>, \<open>unwinds\<close>), the disciplines of locks and mappings, and the locale \<open>kernel_module\<close>, which
    is interpreted on all five modules.

  \<^bold>\<open>Components.\<close>
  \<^item> \<open>Strutils\<close>: \<^verbatim>\<open>01-general-knowleague\<close>, \<^verbatim>\<open>str_reverse\<close>, \<^verbatim>\<open>str_trim\<close> and \<^verbatim>\<open>str_to_int\<close> as index loops
    over a buffer, proved equal to their list functions, total and in bounds.
  \<^item> \<open>File_Status\<close>: \<^verbatim>\<open>02-linux-file-system\<close>, the mode macros on 32-bit words, the type line and the
    program; the type line depends on the type bits only.
  \<^item> \<open>Processes\<close>: \<^verbatim>\<open>03-process\<close>, four programs as the list of operations a process has left after
    \<^verbatim>\<open>fork\<close>, given the result of \<^verbatim>\<open>fork\<close>.  Parent and child run under any schedule (and any signal that
    kills the child) over the kernel's process table; one invariant makes the table a function of who
    has ended, and the locale \<open>family_invariant\<close> carries it and those of the single programs along a
    schedule.
  \<^item> \<open>Pthreads\<close>: \<^verbatim>\<open>04-thread/pthread\<close>, creation, join and the two threads in any order of turns.
  \<^item> \<open>Threads\<close>: the rest of \<^verbatim>\<open>04-thread\<close>, the mutex-protected counter (its final value and its termination), the
    condition-variable hand-over (order of the items, and the run that starves the consumer) and the
    read-write lock.  Each access to shared data is a step of its own, so \<^verbatim>\<open>counter++\<close> is a load and a
    store.
  \<^item> \<open>Signals\<close>: \<^verbatim>\<open>05-ipc-signal\<close>, three counting handlers under one locale, and the signal thread with
    its pipe, the \<^verbatim>\<open>select\<close> loop and the program around it.
  \<^item> \<open>Sockets\<close>: \<^verbatim>\<open>06-ipc-socket\<close>, the eight programs as functions of their arguments, their input and
    the answers of the kernel to an exit status and a list of calls.  \<open>call_type\<close> is a type discipline
    of descriptors; running it over the calls of a program shows that every use is legal and what is
    left open.  The locale \<open>message_channel\<close> is the contract between a client and its server, and is
    interpreted on the three pairs that keep it; the fourth server prints stale bytes.  That a receive
    finds what a send put on the wire is a hypothesis (\<open>carried\<close>).
  \<^item> \<open>Msg_Queue\<close>, \<open>Task_System\<close>: \<^verbatim>\<open>07-ipc-msg\<close>.  \<open>Msg_Queue\<close> has the dispatcher's argument check and the
    worker's buffer.  \<open>Task_System\<close> puts the documented POSIX queue between them (the locale
    \<open>message_queue\<close>, interpreted on a sorted list): around one worker, from its start on, dispatching
    and then receiving is a stable sort by priority; and a step relation of any number of dispatchers
    and workers around named queues, each worker call by call with signals between any two, has an
    invariant that accounts for every message and every printed line, and a run in which a task is
    lost to the \<^verbatim>\<open>mq_unlink\<close> of a new worker.
  \<^item> \<open>Pipeline\<close>: \<^verbatim>\<open>08-ipc-pipe\<close>, the three processes with their descriptor tables as a step relation,
    every operation of the code and every byte through the pipe a step of its own, with failing calls;
    the programs \<^verbatim>\<open>ls\<close> and \<^verbatim>\<open>wc\<close> are functions of the arguments they are executed with.  An invariant on
    where each process can be, absence of deadlock, a weight that every step lowers, and the text the
    reader prints.
  \<^item> \<open>Shared_Memory\<close>: \<^verbatim>\<open>09-ipc-shared-mem\<close>, both programs over an object of bytes, with the layout of the
    structure and the text of a float.
  \<^item> \<open>Restaurant\<close>: \<^verbatim>\<open>10-ipc-sem/main.c\<close>, five processes around two trays with three semaphores each,
    one step for each semaphore operation and each scan; mutual exclusion, conservation, absence of
    deadlock, and a refinement to two bounded counters.  \<open>Restaurant_Log\<close> adds the parent that
    reports the trays slot by slot without a semaphore.
  \<^item> \<open>Char_Device\<close>, \<open>Gpio_Register\<close>, \<open>Gpio_Integer\<close>, \<open>Gpio_Descriptor\<close>: the modules of
    \<^verbatim>\<open>13-char-device\<close>, \<^verbatim>\<open>14-gpio-device-driver\<close>, \<^verbatim>\<open>15-gpio-integer\<close> and \<^verbatim>\<open>16-gpio-descriptor\<close>: file
    operations on every branch, register bits, the state the driver reports against the level of the
    line, and load and unload without leak or double release for any answers of the kernel.
  \<^item> \<open>Gpio_Callers\<close>: the three GPIO drivers under any number of callers.  The operations of a driver's
    table become lists of actions on the mutex, the line and the remembered level, read off the calls
    and the stores of their models; the locale \<open>locking_driver\<close> and its extension \<open>remembering_driver\<close> state what locking buys,
    and are interpreted on the three drivers, the second one on the integer driver only, because a
    read of the descriptor driver stores without the lock.
  \<^item> \<open>Device_Files\<close>: the four devices as files, reached through their tables by a client that repeats
    \<^verbatim>\<open>read\<close> until it answers 0 and \<^verbatim>\<open>write\<close> until all is taken.  The locale \<open>ending_file\<close> is what such
    a client needs of a driver, and is interpreted on the three drivers that can be read.
  \<^item> \<open>Peer_Table\<close>, \<open>Chat_App\<close>, \<open>Chat_System\<close>, \<open>Commands\<close>, \<open>Chat_Session\<close>, \<open>Chat_Link\<close>: \<^verbatim>\<open>mock-prj-01\<close>.  \<open>Peer_Table\<close> has the
    records of \<^verbatim>\<open>peer.h\<close> and \<^verbatim>\<open>chatapp.h\<close> and the operations under the mutex, as a refinement of a map
    from ids to connections; \<open>Chat_App\<close> start-up, shutdown, connecting, the listener's turn and the
    peer thread, with an account of every socket and thread; \<open>Chat_System\<close> the threads as a step
    relation, the invariant in every interleaving, and two reachable faults; \<open>Commands\<close> the command
    line over any five functions behind it, with the exact behaviour of "send"; \<open>Chat_Session\<close> the safety
    of a session over every backend that keeps the contract of the locale \<open>chat_service\<close>;
    \<open>Chat_Link\<close> two programs and the TCP stream between them, in any interleaving with hang-ups, resets,
    threads that use the socket's number for an earlier connection, and what each program does with
    other peers, through the locale \<open>stream_peer\<close>: what is printed is what was sent, in order, a hang-up
    reaches the other side, and two ways in which a stream without message boundaries and without a
    guard against SIGPIPE goes wrong.

  \<^bold>\<open>Inputs and parameters.\<close>  What is not in the repository is an input.  System calls are recorded with
  the answer they gave, and the theorems hold for all answers, or for the documented ones
  (\<open>cdev_answers_ok\<close>: a pointer of \<^verbatim>\<open>class_create\<close> is an object or an error code).  \<^verbatim>\<open>strim\<close> of the
  kernel, \<^verbatim>\<open>inet_pton\<close> and \<^verbatim>\<open>inet_addr\<close>, the calendar time of \<^verbatim>\<open>strftime\<close>, and the five functions
  \<^verbatim>\<open>commands.c\<close> calls but nobody defines are parameters.  Memory that the code does not initialise is an
  argument (\<open>junk\<close>), so a theorem that needs nothing of it holds for any contents.  The programs \<^verbatim>\<open>ls\<close> and
  \<^verbatim>\<open>wc\<close> are parameters of \<open>Pipeline\<close>; that \<^verbatim>\<open>wc -l\<close> prints the number of newlines is a hypothesis.

  \<^bold>\<open>Bounds and fuel.\<close>  The loops over buffers are total functions with an index measure.  The only fuel
  is in \<open>handle_commands\<close>, whose loop has no end of its own: one unit is one turn, and a theorem gives
  the number of turns that suffices; in \<open>timer\<close>, where ten units suffice; and in \<open>deliver\<close>, where the
  number is that of the deliveries.  \<open>worker_loop\<close>, \<open>main_loop\<close> and \<open>peer_handle_thread\<close> recurse on the
  answers they receive.  The clients of \<open>Device_Files\<close> may run for ever with a bad driver and are partial
  functions; the theorems say that they return.

  \<open>Pipeline\<close> and \<open>Processes\<close> need no fuel: the first is a relation whose termination is proved by a
  weight, the second runs a given schedule.

  \<^bold>\<open>Properties over several components.\<close>  \<open>modules_load_cycles_clean\<close> below joins the four driver
  modules.  \<open>Gpio_Callers\<close>, \<open>Device_Files\<close>, \<open>Task_System\<close>, \<open>Chat_Session\<close> and \<open>Chat_Link\<close> hold
  those of components that interact.

  \<^bold>\<open>Not modelled.\<close>  Time (\<^verbatim>\<open>sleep\<close>) only chooses an interleaving; a kernel log line is recorded only
  where a property is about it; the module metadata (\<^verbatim>\<open>MODULE_LICENSE\<close> and its like) and the tables
  that only name functions, but for the file operations of the drivers, have no definition of
  their own.  The five functions \<^verbatim>\<open>commands.c\<close> calls do not exist in the repository, so the chat program
  does not link as it stands, and the theorems on its command line hold for every such five functions
  within a contract; the functions of \<^verbatim>\<open>chatapp.c\<close> are an instance that shows the contract can be kept.
\<close>

section \<open>A property of all driver modules\<close>

text \<open>
  C36: the modules.  Load and unload the character device and the register and integer drivers any
  number of times, with any documented answers of the kernel: nothing leaks, nothing is released that
  is not held, a load that fails unwinds what it acquired in reverse order, and the register driver
  touches registers only while they are mapped.  For the bindings of the descriptor driver this needs
  \<^verbatim>\<open>device_create\<close>, whose result it ignores, to succeed, and for its module it needs \<^verbatim>\<open>use_lookup\<close> to be
  at unload what it was at load: cleared in between, the unload leaves the platform device behind.
\<close>

theorem modules_load_cycles_clean:
  assumes "list_all cdev_answers_ok cs" "list_all reg_answers_ok rs" "list_all cdev_answers_ok ints"
    "list_all (\<lambda>a. desc_answers_ok a \<and> ans_device a = Ok_ptr \<and> ans_of_node a = (\<not> lt)) ds"
    "list_all pdev_answer_ok ps"
  shows "owned [] (concat (map (load_cycle my_init my_exit) cs)) = Some [] \<and>
    list_all (\<lambda>a. fst (my_init a) = 0 \<or> unwinds [] (snd (my_init a)) = Some []) cs \<and>
    owned [] (concat (map (load_cycle mgpio_init_reg mgpio_exit_reg) rs)) = Some [] \<and>
    list_all (\<lambda>a. (fst (mgpio_init_reg a) = 0 \<or> unwinds [] (snd (mgpio_init_reg a)) = Some []) \<and>
      mapped_access False (load_cycle mgpio_init_reg mgpio_exit_reg a)) rs \<and>
    owned [] (concat (map int_cycle ints)) = Some [] \<and>
    list_all (\<lambda>a. fst (int_load a) = 0 \<or> unwinds [] (snd (int_load a)) = Some []) ints \<and>
    owned [] (concat (map (load_cycle (desc_bind True)
      (snd (mgpio_remove_desc \<lparr>desc_state = v, has_lt = lt\<rparr>))) ds)) = Some [] \<and>
    list_all (\<lambda>a. fst (desc_bind True a) = 0 \<or> unwinds [] (snd (desc_bind True a)) = Some []) ds \<and>
    owned [] (concat (map (load_cycle (desc_load lk) (mgpio_exit_desc lk Ok_ptr)) ps)) = Some [] \<and>
    list_all (\<lambda>a. if fst (desc_load True a) = 0
      then owned [] (snd (desc_load True a) @ mgpio_exit_desc False Ok_ptr) = Some [Platform_device]
      else unwinds [] (snd (desc_load True a)) = Some []) ps"
proof -
  have "list_all (\<lambda>a. fst (my_init a) = 0 \<or> unwinds [] (snd (my_init a)) = Some []) cs"
    using mydevice_load_cycles_clean [OF assms(1)] by (auto simp: list_all_iff)
  then show ?thesis
    using mgpio_desc_module_loads [OF assms(5)] desc_module.cycles_clean [OF assms(5)] mydevice_load_cycles_clean [OF assms(1)] mgpio_reg_load_cycles_clean [OF assms(2)]
      mgpio_int_load_cycles_clean [OF assms(3)] mgpio_desc_bind_cycles_clean [OF assms(4)] by blast
qed

theorem modules_load_cycles_clean_witness:
  "owned [] (concat (map (load_cycle my_init my_exit)
    [\<lparr>ans_alloc = 0, ans_cdev_add = 0, ans_class = Ok_ptr, ans_device = Err_ptr (-12)\<rparr>])) = Some []"
  using modules_load_cycles_clean
    [where cs = "[\<lparr>ans_alloc = 0, ans_cdev_add = 0, ans_class = Ok_ptr, ans_device = Err_ptr (-12)\<rparr>]"
      and rs = "[]" and ints = "[]" and ds = "[]" and ps = "[]"]
  by (simp add: cdev_answers_ok_def ptr_ok_def)

end
